(* ===== verification/Prelude.thy ===== *)
theory Prelude
  imports Complex_Main "HOL-Library.Word" "HOL-Library.Signed_Division"
begin

text \<open>
  Shared ground of the development.

  \<^item> C++ integers: \<open>unsigned long long\<close> and \<open>size_t\<close> are \<open>64 word\<close>; \<open>int\<close> and
    \<open>long long\<close> are HOL integers, and every place where the source stores a wider value in
    an \<open>int\<close> or a \<open>long\<close> applies \<open>i32\<close> or \<open>i64\<close> (two's complement truncation). A
    signed value that meets an unsigned one is converted by \<open>u64\<close>.
  \<^item> Failures: \<open>fault\<close> names the exceptions the standard library throws and the undefined
    behaviours the source can run into; a fallible operation returns \<open>fault + 'a\<close> and
    \<open>res_bind\<close> sequences two of them.
  \<^item> \<open>std::to_string\<close> and \<open>std::stoll\<close> on decimal numbers, with the round trip.
  \<^item> \<open>std::map<int, unsigned long long>\<close> as a list of pairs with increasing keys, in
    the order of iteration, and the interface \<open>dict\<close> that this map and the JSON objects of
    theory \<open>Json\<close> both implement.
\<close>

named_theorems res_simps \<open>rewriting of fallible results\<close>
named_theorems dict_simps \<open>lookups after updates of a map\<close>
named_theorems frame_simps \<open>what an operation leaves unchanged\<close>

section \<open>Machine integers\<close>

type_synonym u64 = "64 word"

definition i32 :: "int \<Rightarrow> int" where
  "i32 x = (x + 2 ^ 31) mod 2 ^ 32 - 2 ^ 31"

definition i64 :: "int \<Rightarrow> int" where
  "i64 x = (x + 2 ^ 63) mod 2 ^ 64 - 2 ^ 63"

definition u64 :: "int \<Rightarrow> u64" where
  "u64 x = word_of_int x"

lemma i32_id: "- 2147483648 \<le> x \<Longrightarrow> x < 2147483648 \<Longrightarrow> i32 x = x"
  by (simp add: i32_def)

lemma i32_range: "- 2147483648 \<le> i32 x" "i32 x < 2147483648"
  by (simp_all add: i32_def)

lemma i64_id: "- 9223372036854775808 \<le> x \<Longrightarrow> x < 9223372036854775808 \<Longrightarrow> i64 x = x"
  by (simp add: i64_def)

lemma uint_u64: "0 \<le> x \<Longrightarrow> x < 18446744073709551616 \<Longrightarrow> uint (u64 x) = x"
  by (simp add: u64_def uint_word_of_int)

lemma u64_uint [simp]: "u64 (uint w) = w"
  by (simp add: u64_def)

lemma uint_u64_lt: "uint (w :: u64) < 18446744073709551616"
  using uint_lt2p [of w] by simp

lemma u64_simps [simp]: "u64 0 = 0" "u64 1 = 1" "u64 (numeral n) = numeral n"
  by (simp_all add: u64_def)

lemma uint_plus_u64:
  "uint a + uint b < 18446744073709551616 \<Longrightarrow> uint (a + b :: u64) = uint a + uint b"
  by (simp add: uint_word_ariths)

lemma uint_mult_u64:
  "uint a * uint b < 18446744073709551616 \<Longrightarrow> uint (a * b :: u64) = uint a * uint b"
  by (simp add: uint_word_ariths)

lemma uint_minus_u64: "uint b \<le> uint a \<Longrightarrow> uint (a - b :: u64) = uint a - uint b"
proof -
  assume le: "uint b \<le> uint a"
  have "0 \<le> uint a - uint b" "uint a - uint b < 18446744073709551616"
    using le uint_u64_lt [of a] uint_ge_0 [of b] by linarith+
  then show ?thesis by (simp add: uint_word_ariths)
qed

section \<open>Failures\<close>

text \<open>
  \<open>InvalidArgument\<close> and \<open>OutOfRange\<close> are thrown by \<open>std::stoll\<close>, \<open>OutOfRange\<close>
  also by \<open>substr\<close> and \<open>vector::at\<close>; the others are undefined behaviours of C++: an index
  beyond the end of a vector, a division by zero, the use of a deleted object or of a pointer
  that was never set, a counter or a converted number that overflows its \<open>int\<close>, and a C string
  that is read beyond the end of its buffer because it has no terminating NUL.
\<close>

datatype fault =
    InvalidArgument | OutOfRange
  | IndexBeyondEnd | DivisionByZero | DanglingPointer | SignedOverflow | BufferOverrun

definition res_bind :: "'e + 'a \<Rightarrow> ('a \<Rightarrow> 'e + 'b) \<Rightarrow> 'e + 'b" where
  "res_bind r f = (case r of Inl e \<Rightarrow> Inl e | Inr x \<Rightarrow> f x)"

definition res_map :: "('a \<Rightarrow> 'b) \<Rightarrow> 'e + 'a \<Rightarrow> 'e + 'b" where
  "res_map f r = (case r of Inl e \<Rightarrow> Inl e | Inr x \<Rightarrow> Inr (f x))"

lemma res_bind_simps [simp, res_simps]:
  "res_bind (Inl e) f = Inl e" "res_bind (Inr x) f = f x"
  by (simp_all add: res_bind_def)

lemma res_map_simps [simp, res_simps]:
  "res_map g (Inl e) = Inl e" "res_map g (Inr x) = Inr (g x)"
  by (simp_all add: res_map_def)

lemma res_bind_Inr_iff [res_simps]:
  "res_bind r f = Inr y \<longleftrightarrow> (\<exists>x. r = Inr x \<and> f x = Inr y)"
  by (cases r) (simp_all add: res_bind_def)

lemma res_map_Inr_iff [res_simps]: "res_map f r = Inr y \<longleftrightarrow> (\<exists>x. r = Inr x \<and> y = f x)"
  by (cases r) (auto simp: res_map_def)

section \<open>Decimal numbers in strings\<close>

definition digit_chr :: "nat \<Rightarrow> char" where
  "digit_chr d = char_of (48 + d)"

definition digit_val :: "char \<Rightarrow> nat" where
  "digit_val c = of_char c - 48"

definition is_digit :: "char \<Rightarrow> bool" where
  "is_digit c \<longleftrightarrow> 48 \<le> (of_char c :: nat) \<and> (of_char c :: nat) \<le> 57"

definition is_space :: "char \<Rightarrow> bool" where
  "is_space c \<longleftrightarrow> (of_char c :: nat) = 32 \<or> (9 \<le> (of_char c :: nat) \<and> (of_char c :: nat) \<le> 13)"

fun dec_nat :: "nat \<Rightarrow> string" where
  "dec_nat n = (if n < 10 then [digit_chr n] else dec_nat (n div 10) @ [digit_chr (n mod 10)])"

declare dec_nat.simps [simp del]

definition dec_value :: "string \<Rightarrow> nat" where
  "dec_value ds = foldl (\<lambda>a c. 10 * a + digit_val c) 0 ds"

text \<open>\<open>std::to_string\<close> on \<open>unsigned long long\<close> and on the signed types.\<close>

definition to_string_u64 :: "u64 \<Rightarrow> string" where
  "to_string_u64 w = dec_nat (unat w)"

definition to_string_int :: "int \<Rightarrow> string" where
  "to_string_int x = (if x < 0 then CHR ''-'' # dec_nat (nat (- x)) else dec_nat (nat x))"

text \<open>
  \<open>std::stoll\<close>: white space is skipped, a sign is read, then digits up to the first
  other character; no digit at all and a value that is no \<open>long long\<close> are exceptions.
\<close>

definition stoll :: "string \<Rightarrow> fault + int" where
  "stoll s =
     (let s1 = dropWhile is_space s;
          neg = (case s1 of c # _ \<Rightarrow> c = CHR ''-'' | [] \<Rightarrow> False);
          s2 = (case s1 of c # cs \<Rightarrow> if c = CHR ''-'' \<or> c = CHR ''+'' then cs else s1 | [] \<Rightarrow> []);
          ds = takeWhile is_digit s2;
          v = (if neg then - int (dec_value ds) else int (dec_value ds))
      in if ds = [] then Inl InvalidArgument
         else if v < - (2 ^ 63) \<or> 2 ^ 63 \<le> v then Inl OutOfRange else Inr v)"

lemma of_char_digit_chr: "d < 10 \<Longrightarrow> (of_char (digit_chr d) :: nat) = 48 + d"
  by (simp add: digit_chr_def)

lemma digit_chr_props:
  assumes "d < 10"
  shows "is_digit (digit_chr d)" "digit_val (digit_chr d) = d" "\<not> is_space (digit_chr d)"
    "digit_chr d \<noteq> CHR ''-''" "digit_chr d \<noteq> CHR ''+''"
proof -
  have c: "(of_char (digit_chr d) :: nat) = 48 + d" using assms by (rule of_char_digit_chr)
  show "is_digit (digit_chr d)" "digit_val (digit_chr d) = d" "\<not> is_space (digit_chr d)"
    using assms by (simp_all add: c is_digit_def digit_val_def is_space_def)
  show "digit_chr d \<noteq> CHR ''-''"
  proof
    assume "digit_chr d = CHR ''-''"
    then have "(of_char (digit_chr d) :: nat) = of_char (CHR ''-'')" by simp
    with c show False by simp
  qed
  show "digit_chr d \<noteq> CHR ''+''"
  proof
    assume "digit_chr d = CHR ''+''"
    then have "(of_char (digit_chr d) :: nat) = of_char (CHR ''+'')" by simp
    with c show False by simp
  qed
qed

lemma dec_nat_digits: "list_all is_digit (dec_nat n)"
proof (induction n rule: dec_nat.induct)
  case (1 n)
  then show ?case
    by (subst dec_nat.simps) (simp add: digit_chr_props list_all_iff ball_Un)
qed

lemma dec_value_dec_nat: "dec_value (dec_nat n) = n"
proof (induction n rule: dec_nat.induct)
  case (1 n)
  show ?case
  proof (cases "n < 10")
    case True
    then show ?thesis by (subst dec_nat.simps) (simp add: dec_value_def digit_chr_props)
  next
    case False
    with "1.IH" have "foldl (\<lambda>a c. 10 * a + digit_val c) 0 (dec_nat (n div 10)) = n div 10"
      by (simp add: dec_value_def)
    with False show ?thesis
      by (subst dec_nat.simps) (simp add: dec_value_def digit_chr_props)
  qed
qed

lemma dec_nat_Cons: "\<exists>c cs. dec_nat n = c # cs \<and> is_digit c \<and> \<not> is_space c \<and> c \<noteq> CHR ''-'' \<and> c \<noteq> CHR ''+''"
proof (induction n rule: dec_nat.induct)
  case (1 n)
  show ?case
  proof (cases "n < 10")
    case True
    then show ?thesis by (subst dec_nat.simps) (simp add: digit_chr_props)
  next
    case False
    with "1.IH" obtain c cs where "dec_nat (n div 10) = c # cs" "is_digit c" "\<not> is_space c"
      "c \<noteq> CHR ''-''" "c \<noteq> CHR ''+''" by blast
    with False show ?thesis by (subst dec_nat.simps) simp
  qed
qed

lemma stoll_dec_nat: "stoll (dec_nat n) = (if n < 2 ^ 63 then Inr (int n) else Inl OutOfRange)"
proof -
  obtain c cs where c: "dec_nat n = c # cs" "is_digit c" "\<not> is_space c"
    "c \<noteq> CHR ''-''" "c \<noteq> CHR ''+''" using dec_nat_Cons by blast
  have "takeWhile is_digit (dec_nat n) = dec_nat n"
    using dec_nat_digits [of n] by (simp add: takeWhile_eq_all_conv list_all_iff)
  then have t: "takeWhile is_digit (c # cs) = c # cs" using c(1) by simp
  have v: "dec_value (c # cs) = n" using dec_value_dec_nat [of n] c(1) by simp
  have "\<not> (int n < - (2 ^ 63))" by simp
  moreover have "(2 ^ 63 \<le> int n) = (\<not> n < 2 ^ 63)" by (simp add: not_less)
  ultimately show ?thesis
    using c(2-5) v
    by (simp add: stoll_def c(1) Let_def t del: takeWhile.simps takeWhile_eq_all_conv)
qed

lemma stoll_to_string_u64 [res_simps]:
  "stoll (to_string_u64 w) = (if uint w < 2 ^ 63 then Inr (uint w) else Inl OutOfRange)"
proof -
  have i: "int (unat w) = uint w" by simp
  have "(unat w < 2 ^ 63) = (uint w < 2 ^ 63)"
    unfolding i [symmetric] by (simp only: of_nat_less_iff [symmetric, where 'a = int]) simp
  then show ?thesis by (simp add: to_string_u64_def stoll_dec_nat)
qed

lemma takeWhile_dec_nat: "takeWhile is_digit (dec_nat n) = dec_nat n"
  using dec_nat_digits [of n] by (simp add: takeWhile_eq_all_conv list_all_iff)

lemma stoll_to_string_int [res_simps]:
  assumes "- 9223372036854775808 \<le> x" "x < 9223372036854775808"
  shows "stoll (to_string_int x) = Inr x"
proof (cases "x < 0")
  case True
  have "\<not> is_space CHR ''-''" by (simp add: is_space_def)
  moreover have "dec_nat (nat (- x)) \<noteq> []" using dec_nat_Cons [of "nat (- x)"] by auto
  ultimately show ?thesis
    using True assms
    by (simp add: stoll_def to_string_int_def takeWhile_dec_nat dec_value_dec_nat Let_def)
next
  case False
  then show ?thesis using assms by (simp add: to_string_int_def stoll_dec_nat)
qed

lemma stoll_empty: "stoll '''' = Inl InvalidArgument"
  by (simp add: stoll_def)

section \<open>The map interface\<close>

text \<open>
  What the components rely on when they use a \<open>std::map\<close>: a lookup after an insertion, and
  that insertions keep the representation's invariant. The facts about \<open>fold\<close> describe the
  initialisation loops, which insert a whole list of keys.
\<close>

locale dict =
  fixes dempty :: "'m"
    and dput :: "'k \<Rightarrow> 'v \<Rightarrow> 'm \<Rightarrow> 'm"
    and dget :: "'m \<Rightarrow> 'k \<Rightarrow> 'v option"
    and dinv :: "'m \<Rightarrow> bool"
  assumes inv_empty: "dinv dempty"
    and inv_put: "dinv m \<Longrightarrow> dinv (dput k v m)"
    and get_empty: "dget dempty k = None"
    and get_put: "dinv m \<Longrightarrow> dget (dput k v m) j = (if j = k then Some v else dget m j)"
begin

lemma get_put_same: "dinv m \<Longrightarrow> dget (dput k v m) k = Some v"
  by (simp add: get_put)

lemma get_put_other: "dinv m \<Longrightarrow> j \<noteq> k \<Longrightarrow> dget (dput k v m) j = dget m j"
  by (simp add: get_put)

lemma inv_put_all: "dinv m \<Longrightarrow> dinv (fold (\<lambda>(k, v). dput k v) kvs m)"
  by (induction kvs arbitrary: m) (auto simp: inv_put)

lemma get_put_all:
  "dinv m \<Longrightarrow> dget (fold (\<lambda>(k, v). dput k v) kvs m) j
     = (case map_of (rev kvs) j of Some v \<Rightarrow> Some v | None \<Rightarrow> dget m j)"
proof (induction kvs arbitrary: m)
  case (Cons p kvs)
  obtain k v where p: "p = (k, v)" by (cases p)
  have "dinv (dput k v m)" using Cons.prems by (rule inv_put)
  then show ?case
    using Cons.IH [of "dput k v m"] Cons.prems
    by (auto simp: p get_put map_add_def split: option.splits)
qed simp

end

section \<open>\<open>std::map<int, T>\<close>\<close>

type_synonym 'v int_map = "(int \<times> 'v) list"
type_synonym imap = "u64 int_map"

fun imap_put :: "int \<Rightarrow> 'v \<Rightarrow> 'v int_map \<Rightarrow> 'v int_map" where
  "imap_put k v [] = [(k, v)]"
| "imap_put k v ((j, w) # m) =
     (if k < j then (k, v) # (j, w) # m
      else if k = j then (k, v) # m
      else (j, w) # imap_put k v m)"

definition imap_inv :: "'v int_map \<Rightarrow> bool" where
  "imap_inv m \<longleftrightarrow> sorted_wrt (<) (map fst m)"

text \<open>\<open>m[k]\<close> of the C++ map inserts a zero where the key is missing.\<close>

definition imap_at :: "imap \<Rightarrow> int \<Rightarrow> u64" where
  "imap_at m k = (case map_of m k of Some v \<Rightarrow> v | None \<Rightarrow> 0)"

definition imap_add :: "int \<Rightarrow> u64 \<Rightarrow> imap \<Rightarrow> imap" where
  "imap_add k d m = imap_put k (imap_at m k + d) m"

definition imap_total :: "imap \<Rightarrow> u64" where
  "imap_total m = sum_list (map snd m)"

lemma imap_put_keys: "set (map fst (imap_put k v m)) = insert k (set (map fst m))"
  by (induction k v m rule: imap_put.induct) (simp_all add: insert_commute)

lemma imap_put_inv: "imap_inv m \<Longrightarrow> imap_inv (imap_put k v m)"
proof (induction m)
  case (Cons p m)
  obtain j w where p: "p = (j, w)" by (cases p)
  have keys: "set (map fst (imap_put k v m)) = insert k (set (map fst m))"
    by (rule imap_put_keys)
  from Cons keys show ?case by (auto simp: imap_inv_def p simp del: set_map)
qed (simp add: imap_inv_def)

lemma map_of_above_None: "\<forall>y\<in>set (map fst m). (k::int) < y \<Longrightarrow> map_of m k = None"
  by (auto simp: map_of_eq_None_iff)

lemma imap_put_get: "imap_inv m \<Longrightarrow> map_of (imap_put k v m) j = (if j = k then Some v else map_of m j)"
  by (induction m) (auto simp: imap_inv_def)

interpretation im: dict "[]" imap_put map_of imap_inv
  by unfold_locales (auto simp: imap_put_inv imap_put_get, simp add: imap_inv_def)

lemma imap_at_put [dict_simps]:
  "imap_inv m \<Longrightarrow> imap_at (imap_put k v m) j = (if j = k then v else imap_at m j)"
  by (simp add: imap_at_def im.get_put)

lemma imap_add_inv: "imap_inv m \<Longrightarrow> imap_inv (imap_add k d m)"
  by (simp add: imap_add_def im.inv_put)

lemma imap_at_add [dict_simps]:
  "imap_inv m \<Longrightarrow> imap_at (imap_add k d m) j = (if j = k then imap_at m k + d else imap_at m j)"
  by (simp add: imap_add_def dict_simps)

lemma imap_total_put:
  "imap_inv m \<Longrightarrow> imap_total (imap_put k v m) = imap_total m - imap_at m k + v"
proof (induction m)
  case (Cons p m)
  obtain j w where p: "p = (j, w)" by (cases p)
  have inv: "imap_inv m" and above: "\<forall>y\<in>set (map fst m). j < y"
    using Cons.prems by (simp_all add: imap_inv_def p)
  have none: "k \<le> j \<Longrightarrow> imap_at m k = 0"
    using above map_of_above_None [of m k] by (fastforce simp: imap_at_def)
  consider "k < j" | "k = j" | "j < k" by linarith
  then show ?case
  proof cases
    case 1
    then show ?thesis using none by (simp add: p imap_total_def imap_at_def)
  next
    case 2
    then show ?thesis by (simp add: p imap_total_def imap_at_def)
  next
    case 3
    have "imap_total (imap_put k v m) = imap_total m - imap_at m k + v"
      by (rule Cons.IH [OF inv])
    with 3 show ?thesis by (simp add: p imap_total_def imap_at_def)
  qed
qed (simp add: imap_total_def imap_at_def)

lemma imap_total_add:
  "imap_inv m \<Longrightarrow> imap_total (imap_add k d m) = imap_total m + d"
  by (simp add: imap_add_def imap_total_put)

end
