(* ===== verification/Json.thy ===== *)
theory Json
  imports Prelude
begin

text \<open>
  JSON values as the client builds and reads them. The library json11 is not part of the
  repository; what the client relies on is its documented interface: a value is one of six
  kinds, an accessor of another kind returns the default (\<open>string_value\<close> the empty string,
  \<open>bool_value\<close> false, \<open>array_items\<close> and \<open>object_items\<close> the empty container), and
  \<open>Json::object\<close> is a \<open>std::map\<close> from strings. Numbers are real numbers. Parsing and
  printing are parameters of the model (theory \<open>World\<close>).
\<close>

datatype json =
    JNull
  | JBool bool
  | JNum real
  | JStr string
  | JArr "json list"
  | JObj "(string \<times> json) list"

type_synonym jobject = "(string \<times> json) list"

text \<open>\<open>o[k] = v\<close> on a \<open>Json::object\<close>.\<close>

fun obj_put :: "string \<Rightarrow> json \<Rightarrow> jobject \<Rightarrow> jobject" where
  "obj_put k v [] = [(k, v)]"
| "obj_put k v ((j, w) # m) = (if k = j then (k, v) # m else (j, w) # obj_put k v m)"

text \<open>
  Reading \<open>o[k]\<close>: the value, or null. On a non-constant \<open>Json::object\<close> the read also
  inserts a null under a missing key, which is \<open>obj_touch\<close>.
\<close>

definition obj_at :: "jobject \<Rightarrow> string \<Rightarrow> json" where
  "obj_at m k = (case map_of m k of Some v \<Rightarrow> v | None \<Rightarrow> JNull)"

definition obj_touch :: "string \<Rightarrow> jobject \<Rightarrow> jobject" where
  "obj_touch k m = (case map_of m k of Some _ \<Rightarrow> m | None \<Rightarrow> obj_put k JNull m)"

definition string_value :: "json \<Rightarrow> string" where
  "string_value j = (case j of JStr s \<Rightarrow> s | _ \<Rightarrow> '''')"

definition bool_value :: "json \<Rightarrow> bool" where
  "bool_value j = (case j of JBool b \<Rightarrow> b | _ \<Rightarrow> False)"

definition number_value :: "json \<Rightarrow> real" where
  "number_value j = (case j of JNum x \<Rightarrow> x | _ \<Rightarrow> 0)"

definition array_items :: "json \<Rightarrow> json list" where
  "array_items j = (case j of JArr xs \<Rightarrow> xs | _ \<Rightarrow> [])"

definition object_items :: "json \<Rightarrow> jobject" where
  "object_items j = (case j of JObj m \<Rightarrow> m | _ \<Rightarrow> [])"

text \<open>\<open>j[k]\<close> on a constant \<open>Json\<close>.\<close>

definition json_at :: "json \<Rightarrow> string \<Rightarrow> json" where
  "json_at j k = obj_at (object_items j) k"

lemmas accessor_defs =
  string_value_def bool_value_def number_value_def array_items_def object_items_def

lemma accessor_simps [simp]:
  "string_value (JStr s) = s" "string_value JNull = ''''" "bool_value (JBool b) = b"
  "bool_value JNull = False" "number_value (JNum x) = x" "array_items (JArr xs) = xs"
  "array_items JNull = []" "object_items (JObj m) = m" "object_items JNull = []"
  by (simp_all add: accessor_defs)

lemma obj_put_get: "map_of (obj_put k v m) j = (if j = k then Some v else map_of m j)"
  by (induction m) auto

text \<open>The objects implement the map interface, without an invariant on the representation.\<close>

interpretation jo: dict "[]" obj_put map_of "\<lambda>_. True"
  by unfold_locales (simp_all add: obj_put_get)

lemma obj_at_empty [simp]: "obj_at [] k = JNull"
  by (simp add: obj_at_def)

lemma obj_at_put [simp, dict_simps]: "obj_at (obj_put k v m) j = (if j = k then v else obj_at m j)"
  by (simp add: obj_at_def jo.get_put)

lemma obj_put_nonempty [simp]: "obj_put k v m \<noteq> []"
  by (cases "(k, v, m)" rule: obj_put.cases) auto

lemma obj_at_touch [simp, dict_simps]: "obj_at (obj_touch k m) j = obj_at m j"
  by (auto simp: obj_at_def obj_touch_def jo.get_put split: option.splits)

end
