(* ===== verification/World.thy ===== *)
theory World
  imports Json
begin

text \<open>
  The state of the client: the global variables of \<open>ias_client.cpp\<close> (declared in
  \<open>header.h\<close>), the members of the one \<open>CCallback\<close> object, and the objects that the threads
  work on. Objects created with \<open>new\<close> live in heaps, maps from addresses to objects; the
  pointers that \<open>CCallback\<close> keeps are addresses, so that a pointer to a deleted object is a
  state of the model.

  \<open>lib\<close> collects what the client calls and the repository does not contain: the configuration
  store \<open>CConfigManager\<close>, the helpers of \<open>CTool\<close>, \<open>MAX_PACKET_SIZE\<close>, json11's parser
  and printer, and the target the preprocessor selects. The struct \<open>measurement_data\<close> is
  declared in the same missing library: the record has the members the client uses.
\<close>

section \<open>Data\<close>

record measurement_data =
  results :: imap
  results_timestamp :: imap
  interim_values :: "real list"
  avg :: u64
  data_min :: u64
  data_max :: u64
  median_ns :: u64
  standard_deviation_ns :: u64
  duration_ns :: u64
  datasize :: u64
  datasize_total :: u64
  datasize_slow_start :: u64
  starttime :: u64
  endtime :: u64
  totaltime :: u64
  packetsize :: int
  requests :: int
  replies :: int
  missing :: int
  errors :: int
  measurement_phase_progress :: real

datatype MeasurementPhase = INIT | PhaseIP | PING | PhaseDOWNLOAD | PhaseUPLOAD | END

datatype build_target = Desktop | Android | Ios

record 'c lib =
  target :: build_target
  readString :: "'c \<Rightarrow> string \<Rightarrow> string \<Rightarrow> string \<Rightarrow> string"
  readLong :: "'c \<Rightarrow> string \<Rightarrow> string \<Rightarrow> int \<Rightarrow> int"
  writeString :: "'c \<Rightarrow> string \<Rightarrow> string \<Rightarrow> string \<Rightarrow> 'c"
  calculateResults :: "measurement_data \<Rightarrow> real \<Rightarrow> int \<Rightarrow> int \<Rightarrow> measurement_data"
  validateIp :: "string \<Rightarrow> int"
  toInt :: "string \<Rightarrow> int"
  toULL :: "string \<Rightarrow> u64"
  tokenize :: "string \<Rightarrow> string \<Rightarrow> string list"
  json_parse :: "string \<Rightarrow> json \<times> string"
  json_dump :: "json \<Rightarrow> string"
  MAX_PACKET_SIZE :: int
  fresh_data :: measurement_data

text \<open>A newly constructed \<open>measurement_data\<close>: the maps are empty, the numbers are whatever
  the struct's definition makes them.\<close>

definition new_data :: "'c lib \<Rightarrow> measurement_data" where
  "new_data lib = (fresh_data lib)\<lparr>results := [], results_timestamp := [], interim_values := []\<rparr>"

section \<open>Thread objects\<close>

text \<open>
  A thread object holds the members of its class, and the local variables of \<open>run\<close> that
  outlive one loop iteration: \<open>run_pc\<close> (where \<open>run\<close> is: not entered, before the loop's
  condition, in the blocking receive, or returned with a value), \<open>dataReceived\<close>,
  \<open>ipv6validated\<close>, whether the upload's sender was told to stop, and the counter \<open>i\<close> and the flag \<open>firstResponse\<close> of the ping loop.
\<close>

datatype run_pc = RunEntry | RunGuard | RunReceive | RunReturned int

record test_thread =
  run_pc :: run_pc
  dataReceived :: bool
  pid :: u64
  measurementTimeStart :: u64
  measurementTimeEnd :: u64
  measurementTimeDuration :: u64
  mServer :: string
  mServerName :: string
  mClient :: string
  m_fStop :: bool

record stream_thread = test_thread +
  mPort :: int
  mTls :: int
  mResponse :: int
  ipv6validated :: bool

record ip_test = stream_thread +
  ipResults :: jobject

record speed_thread = stream_thread +
  nHttpResponseDuration :: u64
  nHttpResponseReportValue :: u64

record download = speed_thread +
  mTlsOverhead :: int
  mDownload :: measurement_data

record upload = speed_thread +
  mUpload :: measurement_data
  nDataRecv :: u64
  nTimeRecv :: u64
  nTimeRecvExa :: u64
  nTimeRecvExaFirst :: u64
  nTimeRecvFirst :: u64
  sender_stopped :: bool

record ping = test_thread +
  mPingPort :: int
  mPingQuery :: int
  mTimeDiff :: u64
  mPingResult :: measurement_data
  nPingTarget :: int
  nSize :: int
  nErrors :: int
  nMissing :: int
  nReplies :: int
  ping_i :: int
  firstResponse :: bool

datatype timer_pc = TimerOuter | TimerDelay | TimerBody | TimerInner | TimerLeft | TimerDone

record ctimer =
  mInstances :: int
  unreachableSignaled :: bool
  streamsDroppedSignaled :: bool
  forbiddenSignaled :: bool
  tlsParametersMissingSignaled :: bool
  mInitialCallbackDelay :: u64
  timer_fStop :: bool
  timer_pc :: timer_pc
  time1 :: u64
  current_index :: int

text \<open>
  Where the main thread is: before the decision about a test case, in the half second of sleep
  between that decision and the start of the test case, waiting for the threads of a test case, polling for its results, waiting for the timer, before the final \<open>shutdown\<close>, back
  in the caller of \<open>measurementStart\<close>, or out of the process with an exit code.
\<close>

datatype main_pc =
    MainSelect int
  | MainPause int
  | MainThreads int
  | MainPoll int
  | MainTimer int
  | MainShutdown
  | MainReturned
  | MainExited int

section \<open>Globals and world\<close>

record globals =
  RUNNING :: bool
  UNREACHABLE :: bool
  STREAMS_DROPPED :: bool
  FORBIDDEN :: bool
  TLS_PARAMETERS_MISSING :: bool
  PLATFORM :: string
  CLIENT_OS :: string
  TCP_STARTUP :: u64
  IP :: bool
  RTT :: bool
  DOWNLOAD :: bool
  UPLOAD :: bool
  hasError :: bool
  TIMER_ACTIVE :: bool
  TIMER_RUNNING :: bool
  TIMER_STOPPED :: bool
  TIMER_INDEX :: int
  TIMER_INDEX_UPLOAD_FIRST :: int
  TIMER_DURATION :: int
  MEASUREMENT_DURATION :: u64
  TIMESTAMP_MEASUREMENT_START :: int
  PERFORMED_IP :: bool
  PERFORMED_RTT :: bool
  PERFORMED_DOWNLOAD :: bool
  PERFORMED_UPLOAD :: bool
  conf_instances :: int
  conf_nTestCase :: int
  conf_sTestName :: string
  conf_sProvider :: string
  randomDataValues_size :: u64
  syncing_threads :: "int int_map"
  currentTestPhase :: MeasurementPhase
  measurements_streams :: int
  measurements_upload_datasize :: u64
  DEBUG_FLAG :: bool

text \<open>
  What leaves the client: calls of the Android connector or of the iOS callback function, and
  the debug dump of the desktop build. \<open>trace\<close> is the debug log line that
  \<open>CCallback::callback\<close> writes on entry (command and message).
\<close>

datatype out_event =
    PlatformCallback jobject
  | PlatformFinished jobject
  | DetachThread
  | IosCallback jobject
  | DebugDump jobject

record 'c world = globals +
  clock :: "nat \<Rightarrow> u64"
  clock_pos :: nat
  out :: "out_event list"
  trace :: "(string \<times> string) list"
  pXml :: 'c
  iosCallbackFunc_set :: bool
  jMeasurementParameters :: json
  jMeasurementResultsTime :: jobject
  jMeasurementResultsPeer :: jobject
  jMeasurementResultsIp :: jobject
  jMeasurementResultsRttUdp :: jobject
  jMeasurementResultsDownload :: "json list"
  jMeasurementResultsDownloadStreams :: "json list"
  jMeasurementResultsUpload :: "json list"
  jMeasurementResultsUploadStreams :: "json list"
  mTestCase :: int
  ipThread :: "nat option"
  pingThread :: "nat option"
  vDownloadThreads :: "nat list"
  vUploadThreads :: "nat list"
  ip_heap :: "nat \<rightharpoonup> ip_test"
  ping_heap :: "nat \<rightharpoonup> ping"
  dl_heap :: "nat \<rightharpoonup> download"
  ul_heap :: "nat \<rightharpoonup> upload"
  next_ptr :: nat
  timer :: ctimer
  main_pc :: main_pc

text \<open>
  \<open>CTool::get_timestamp\<close>: every call returns the next reading of the clock, in
  microseconds. Nothing is assumed of the readings here.
\<close>

definition get_timestamp :: "'c world \<Rightarrow> u64 \<times> 'c world" where
  "get_timestamp w = (clock w (clock_pos w), w\<lparr>clock_pos := Suc (clock_pos w)\<rparr>)"

text \<open>The pointers of the callback object.\<close>

definition deref :: "(nat \<rightharpoonup> 'o) \<Rightarrow> nat option \<Rightarrow> fault + nat \<times> 'o" where
  "deref h q = (case q of None \<Rightarrow> Inl DanglingPointer
     | Some p \<Rightarrow> (case h p of None \<Rightarrow> Inl DanglingPointer | Some t \<Rightarrow> Inr (p, t)))"

lemma deref_Inr [res_simps]: "deref h q = Inr (p, t) \<longleftrightarrow> q = Some p \<and> h p = Some t"
  by (auto simp: deref_def split: option.splits)

lemma get_timestamp_frame [simp, frame_simps]:
  "snd (get_timestamp w) = w\<lparr>clock_pos := Suc (clock_pos w)\<rparr>"
  "fst (get_timestamp w) = clock w (clock_pos w)"
  by (simp_all add: get_timestamp_def)

text \<open>The conditions that stop a measurement come with \<open>hasError\<close>.\<close>

definition error_flags :: "'a globals_scheme \<Rightarrow> bool" where
  "error_flags w \<longleftrightarrow> UNREACHABLE w \<or> STREAMS_DROPPED w \<or> FORBIDDEN w \<or> TLS_PARAMETERS_MISSING w"

definition error_discipline :: "'a globals_scheme \<Rightarrow> bool" where
  "error_discipline w \<longleftrightarrow> (error_flags w \<longrightarrow> hasError w)"

text \<open>The phases are totally ordered, in the order in which a measurement goes through them.\<close>

fun phase_rank :: "MeasurementPhase \<Rightarrow> nat" where
  "phase_rank INIT = 0"
| "phase_rank PhaseIP = 1"
| "phase_rank PING = 2"
| "phase_rank PhaseDOWNLOAD = 3"
| "phase_rank PhaseUPLOAD = 4"
| "phase_rank END = 5"

lemma phase_rank_inj: "phase_rank a = phase_rank b \<Longrightarrow> a = b"
  by (cases a; cases b) simp_all

instantiation MeasurementPhase :: linorder
begin

definition less_eq_MeasurementPhase :: "MeasurementPhase \<Rightarrow> MeasurementPhase \<Rightarrow> bool" where
  "less_eq_MeasurementPhase a b \<longleftrightarrow> phase_rank a \<le> phase_rank b"

definition less_MeasurementPhase :: "MeasurementPhase \<Rightarrow> MeasurementPhase \<Rightarrow> bool" where
  "less_MeasurementPhase a b \<longleftrightarrow> phase_rank a < phase_rank b"

instance
  by standard (auto simp: less_eq_MeasurementPhase_def less_MeasurementPhase_def phase_rank_inj)

end

end
