(* ===== verification/Results.thy ===== *)
theory Results
  imports World
begin

text \<open>
  \<open>CCallback::calculateMeasurementResultsDownloadUpload\<close> and
  \<open>getMeasurementResultsAggregate\<close> (\<open>src/src/callback.cpp\<close>): the evaluation of the
  byte counts that the download or upload threads keep per half second.

  One definition per loop of the source: \<open>scan_results\<close> runs over the entries of one stream's
  map, \<open>calc_thread\<close> is the body of the loop over the streams, \<open>calc_step\<close> the body of
  the loop over the half seconds. The lemmas give the closed form of the scan and of the sums,
  say which inputs raise an exception, and what of the state the evaluation leaves alone.
\<close>

section \<open>The scan of one stream's map\<close>

fun scan_results ::
  "string \<Rightarrow> int \<Rightarrow> int \<Rightarrow> int \<Rightarrow> int \<Rightarrow> imap \<Rightarrow> imap \<times> u64 \<times> u64 \<Rightarrow> imap \<times> u64 \<times> u64" where
  "scan_results tn first step max_steps i [] acc = acc"
| "scan_results tn first step max_steps i ((k, v) # rs) (agg, bytes, bdist) =
     (if (k < first \<or> first = 0) \<and> tn = ''upload''
      then scan_results tn first step max_steps i rs (agg, bytes, bdist)
      else
        let agg' = (if i \<le> step \<and> (tn = ''download'' \<or> tn = ''upload'') then imap_add i v agg else agg);
            bytes' = (if i \<le> step then bytes + v div 8 else bytes);
            bdist' = (if i = step then v div 8 else bdist)
        in if i = max_steps then (agg', bytes', bdist')
           else scan_results tn first step max_steps (i + 1) rs (agg', bytes', bdist'))"

section \<open>One stream in one step\<close>

record step_acc =
  agg_streams :: int
  agg_results :: imap
  bytes_aggregate :: u64
  bytes_distinct_aggregate :: u64
  bytes_slow_start_aggregate :: u64
  bytes_total_aggregate :: u64
  duration_ns_total :: u64
  relative_time_ns_measurement_start :: u64
  streamId :: int

definition new_acc :: "'c lib \<Rightarrow> step_acc" where
  "new_acc lib = \<lparr>agg_streams = 0, agg_results = results (new_data lib), bytes_aggregate = 0,
     bytes_distinct_aggregate = 0, bytes_slow_start_aggregate = 0, bytes_total_aggregate = 0,
     duration_ns_total = 0, relative_time_ns_measurement_start = 0, streamId = 0\<rparr>"

text \<open>
  The bookkeeping at the head of the loop body, the same for both classes: the stream's
  duration, the start and, on \<open>finish\<close>, the end time in the result, the peer's address.
\<close>

definition stamp_stream ::
  "string \<Rightarrow> string \<Rightarrow> string \<Rightarrow> u64 \<Rightarrow> 'a stream_thread_scheme \<Rightarrow> 'c world \<Rightarrow>
     'a stream_thread_scheme \<times> 'c world" where
  "stamp_stream start_key end_key cmd current t w =
     (let t1 = t\<lparr>measurementTimeDuration := current - measurementTimeStart t\<rparr>;
          w1 = w\<lparr>jMeasurementResultsTime := obj_put start_key
                  (JStr (to_string_u64 (measurementTimeStart t1 * 1000))) (jMeasurementResultsTime w)\<rparr>;
          (t2, w2) =
            (if cmd = ''finish'' then
               (let (now, w2) = get_timestamp w1;
                    t2 = t1\<lparr>measurementTimeEnd := now\<rparr>
                in (t2, w2\<lparr>jMeasurementResultsTime := obj_put end_key
                      (JStr (to_string_u64 (measurementTimeEnd t2 * 1000))) (jMeasurementResultsTime w2)\<rparr>))
             else (t1, w1))
      in (t2, w2\<lparr>jMeasurementResultsPeer := obj_put ''ip'' (JStr (mServer t2)) (jMeasurementResultsPeer w2)\<rparr>))"

text \<open>
  \<open>read_stream\<close>: what the two branches on the test name take from the thread object (the
  results, the bytes before the start, the duration, whether the stream still counts), and the
  state they leave.
\<close>

definition read_stream ::
  "'c lib \<Rightarrow> string \<Rightarrow> u64 \<Rightarrow> nat \<Rightarrow> 'c world \<Rightarrow>
     fault + (measurement_data \<times> u64 \<times> u64 \<times> bool) \<times> 'c world" where
  "read_stream lib cmd current p w =
     (if conf_sTestName w = ''download'' then
        res_map (\<lambda>(q, d).
            let (d', w') = stamp_stream ''download_start'' ''download_end'' cmd current d w
            in ((mDownload d', datasize_slow_start (mDownload d') div 8,
                 measurementTimeDuration d', 0 < mResponse d'),
                w'\<lparr>dl_heap := (dl_heap w')(q \<mapsto> d')\<rparr>))
          (deref (dl_heap w) (Some p))
      else if conf_sTestName w = ''upload'' then
        res_map (\<lambda>(q, u).
            let (u', w') = stamp_stream ''upload_start'' ''upload_end'' cmd current u w
            in ((mUpload u', datasize_slow_start (mUpload u') div 8,
                 measurementTimeDuration u', 0 < mResponse u'),
                w'\<lparr>ul_heap := (ul_heap w')(q \<mapsto> u')\<rparr>))
          (deref (ul_heap w) (Some p))
      else Inr ((new_data lib, 0, 0, False), w))"

definition steps_ns :: "int \<Rightarrow> u64" where
  "steps_ns n = u64 (i64 (n * 500000000))"

text \<open>
  The JSON object of one stream. The source first stores ``0'' under every key; all of them are
  stored again at the end of the body, which is the object here.
\<close>

definition stream_object ::
  "int \<Rightarrow> u64 \<Rightarrow> u64 \<Rightarrow> u64 \<Rightarrow> u64 \<Rightarrow> int \<Rightarrow> int \<Rightarrow> u64 \<Rightarrow> int \<Rightarrow> jobject" where
  "stream_object sid bytes bdist slow_start relative_total step max_steps current start =
     [(''stream_id'', JNum (of_int sid)),
      (''bytes'', JStr (to_string_u64 bytes)),
      (''bytes_distinct'', JStr (to_string_u64 bdist)),
      (''bytes_slow_start'', JStr (to_string_u64 slow_start)),
      (''bytes_total'', JStr (to_string_u64 (slow_start + bytes))),
      (''relative_time_ns'', JStr (to_string_int (i64 (step * 500000000)))),
      (''relative_time_ns_distinct'', JStr (to_string_int 500000000)),
      (''relative_time_ns_total'',
        JStr (to_string_u64 (relative_total * 1000 - steps_ns (max_steps - step)))),
      (''relative_time_ns_measurement_start'',
        JStr (to_string_u64 (current * 1000 - u64 start - steps_ns (max_steps - step))))]"

text \<open>The sums, read back from the strings of the stream's object with \<open>std::stoll\<close>.\<close>

definition stoll_at :: "jobject \<Rightarrow> string \<Rightarrow> fault + int" where
  "stoll_at o1 k = stoll (string_value (obj_at o1 k))"

definition add_stream :: "jobject \<Rightarrow> step_acc \<Rightarrow> fault + step_acc" where
  "add_stream o1 a =
     res_bind (stoll_at o1 ''bytes'') (\<lambda>b.
     res_bind (stoll_at o1 ''bytes_distinct'') (\<lambda>d.
     res_bind (stoll_at o1 ''bytes_slow_start'') (\<lambda>s.
     res_bind (stoll_at o1 ''bytes_total'') (\<lambda>t.
     res_bind (stoll_at o1 ''relative_time_ns_total'') (\<lambda>r.
     res_bind (stoll_at o1 ''relative_time_ns_measurement_start'') (\<lambda>m.
       Inr (a\<lparr>bytes_aggregate := bytes_aggregate a + u64 b,
              bytes_distinct_aggregate := bytes_distinct_aggregate a + u64 d,
              bytes_slow_start_aggregate := bytes_slow_start_aggregate a + u64 s,
              bytes_total_aggregate := bytes_total_aggregate a + u64 t,
              duration_ns_total := u64 r,
              relative_time_ns_measurement_start := u64 m,
              streamId := streamId a + 1\<rparr>)))))))"

definition calc_thread ::
  "'c lib \<Rightarrow> string \<Rightarrow> u64 \<Rightarrow> int \<Rightarrow> int \<Rightarrow> nat \<Rightarrow> step_acc \<times> json list \<times> 'c world \<Rightarrow>
     fault + step_acc \<times> json list \<times> 'c world" where
  "calc_thread lib cmd current max_steps step p s =
     (case s of (a, per, w) \<Rightarrow>
        res_bind (read_stream lib cmd current p w) (\<lambda>((data, slow_start, relative_total, counts), w1).
          let a1 = (if counts then a\<lparr>agg_streams := agg_streams a + 1\<rparr> else a);
              (agg, bytes, bdist) =
                scan_results (conf_sTestName w1) (TIMER_INDEX_UPLOAD_FIRST w1) step max_steps 1
                  (results data) (agg_results a1, 0, 0);
              o1 = stream_object (streamId a1) bytes bdist slow_start relative_total step
                     max_steps current (TIMESTAMP_MEASUREMENT_START w1)
          in res_map (\<lambda>a2. (a2, per @ [JObj o1], w1)) (add_stream o1 (a1\<lparr>agg_results := agg\<rparr>))))"

fun calc_threads ::
  "'c lib \<Rightarrow> string \<Rightarrow> u64 \<Rightarrow> int \<Rightarrow> int \<Rightarrow> nat list \<Rightarrow> step_acc \<times> json list \<times> 'c world \<Rightarrow>
     fault + step_acc \<times> json list \<times> 'c world" where
  "calc_threads lib cmd current max_steps step [] s = Inr s"
| "calc_threads lib cmd current max_steps step (p # ps) s =
     res_bind (calc_thread lib cmd current max_steps step p s)
       (calc_threads lib cmd current max_steps step ps)"

section \<open>One step, and all steps\<close>

definition getMeasurementResultsAggregate :: "int \<Rightarrow> int \<Rightarrow> measurement_data \<Rightarrow> string \<Rightarrow> jobject" where
  "getMeasurementResultsAggregate instances streams data cmd =
     [(''bytes'', JStr (to_string_u64 (datasize data div 8))),
      (''bytes_slow_start'', JStr (to_string_u64 (datasize_slow_start data div 8))),
      (''bytes_total'', JStr (to_string_u64 (datasize_total data div 8))),
      (''duration_ns'', JStr (to_string_u64 (duration_ns data))),
      (''duration_ns_distinct'', JStr ''500000000''),
      (''duration_ns_total'', JStr (to_string_u64 (totaltime data))),
      (''progress'', JNum (measurement_phase_progress data)),
      (''throughput_avg_bps'', JStr (to_string_u64 (avg data))),
      (''num_streams_start'', JStr (to_string_int instances)),
      (''num_streams_end'',
        JStr (if cmd = ''finish'' \<and> measurement_phase_progress data = 1
              then to_string_int streams else ''0''))]"

definition phase_progress :: "u64 \<Rightarrow> u64 \<Rightarrow> real" where
  "phase_progress duration seconds =
     real_of_int (uint (duration - duration mod 500000000)) / (real_of_int (uint seconds) * 1000000000)"

definition aggregate_data :: "'c lib \<Rightarrow> step_acc \<Rightarrow> u64 \<Rightarrow> measurement_data" where
  "aggregate_data lib a seconds =
     (let m = (new_data lib)\<lparr>results := agg_results a,
                datasize := bytes_aggregate a * 8,
                datasize_total := bytes_total_aggregate a * 8,
                datasize_slow_start := bytes_slow_start_aggregate a * 8,
                totaltime := duration_ns_total a\<rparr>;
          m1 = calculateResults lib m (1 / 2) 0 0
      in m1\<lparr>measurement_phase_progress := phase_progress (duration_ns m1) seconds\<rparr>)"

definition step_object :: "'c lib \<Rightarrow> string \<Rightarrow> u64 \<Rightarrow> step_acc \<Rightarrow> 'c world \<Rightarrow> jobject" where
  "step_object lib cmd seconds a w =
     obj_put ''relative_time_ns_measurement_start''
         (JStr (to_string_u64 (relative_time_ns_measurement_start a)))
       (obj_put ''bytes_distinct'' (JStr (to_string_u64 (bytes_distinct_aggregate a)))
         (getMeasurementResultsAggregate (conf_instances w) (agg_streams a)
            (aggregate_data lib a seconds) cmd))"

definition UPLOAD_ADDITIONAL_MEASUREMENT_DURATION :: u64 where
  "UPLOAD_ADDITIONAL_MEASUREMENT_DURATION = 2"

text \<open>Behind the loop over the streams: the step without a counting stream, the step's object.\<close>

definition end_step ::
  "'c lib \<Rightarrow> string \<Rightarrow> json list \<Rightarrow> step_acc \<times> json list \<times> 'c world \<Rightarrow> json list \<times> json list \<times> 'c world"
where
  "end_step lib cmd res s =
     (case s of (a, per, w) \<Rightarrow>
        let w1 = (if agg_streams a = 0 then w\<lparr>hasError := True, STREAMS_DROPPED := True\<rparr> else w)
        in if conf_sTestName w1 = ''download'' then
             (res @ [JObj (step_object lib cmd (MEASUREMENT_DURATION w1) a w1)], per, w1)
           else if conf_sTestName w1 = ''upload'' then
             (res @ [JObj (step_object lib cmd
                 (MEASUREMENT_DURATION w1 - UPLOAD_ADDITIONAL_MEASUREMENT_DURATION) a w1)], per, w1)
           else (res, per, w1))"

definition calc_step ::
  "'c lib \<Rightarrow> string \<Rightarrow> int \<Rightarrow> nat list \<Rightarrow> int \<Rightarrow> json list \<times> json list \<times> 'c world \<Rightarrow>
     fault + json list \<times> json list \<times> 'c world" where
  "calc_step lib cmd max_steps ps step s =
     (case s of (res, per, w) \<Rightarrow>
        let (current, w1) = get_timestamp w
        in res_map (end_step lib cmd res)
           (calc_threads lib cmd current max_steps step ps (new_acc lib, per, w1)))"

fun calc_steps ::
  "'c lib \<Rightarrow> string \<Rightarrow> int \<Rightarrow> nat list \<Rightarrow> int list \<Rightarrow> json list \<times> json list \<times> 'c world \<Rightarrow>
     fault + json list \<times> json list \<times> 'c world" where
  "calc_steps lib cmd max_steps ps [] s = Inr s"
| "calc_steps lib cmd max_steps ps (step # steps) s =
     res_bind (calc_step lib cmd max_steps ps step s) (calc_steps lib cmd max_steps ps steps)"

text \<open>
  The number of half seconds to report. \<open>/\<close> and \<open>%\<close> on \<open>int\<close> truncate; the comparison
  with the unsigned limit converts \<open>max_steps\<close> to \<open>unsigned long long\<close>.
\<close>

definition clip_steps :: "int \<Rightarrow> u64 \<Rightarrow> int" where
  "clip_steps n limit = (if limit < u64 n then i32 (uint limit) else n)"

definition max_steps_of :: "'a globals_scheme \<Rightarrow> int" where
  "max_steps_of w =
     (let n = (TIMER_DURATION w - TIMER_DURATION w smod 500000) sdiv 500000
      in if conf_sTestName w = ''download'' then clip_steps n (MEASUREMENT_DURATION w * 2)
         else if conf_sTestName w = ''upload'' then
           clip_steps n ((MEASUREMENT_DURATION w - UPLOAD_ADDITIONAL_MEASUREMENT_DURATION) * 2)
         else n)"

text \<open>
  Behind the loop over the steps: the last object is read and the lists are published. The
  average is converted only for a log message, but the conversion may throw.
\<close>

definition publish_results :: "json list \<times> json list \<times> 'c world \<Rightarrow> fault + 'c world" where
  "publish_results s =
     (case s of (res, per, w) \<Rightarrow>
        if res = [] then Inl IndexBeyondEnd
        else
          let avg_string = string_value (json_at (last res) ''throughput_avg_bps'')
          in if conf_sTestName w = ''download'' then
               res_map (\<lambda>_. w\<lparr>jMeasurementResultsDownload := res,
                    jMeasurementResultsDownloadStreams := per\<rparr>) (stoll avg_string)
             else if conf_sTestName w = ''upload'' then
               res_map (\<lambda>_. w\<lparr>jMeasurementResultsUpload := res,
                    jMeasurementResultsUploadStreams := per\<rparr>) (stoll avg_string)
             else Inr w)"

definition calculateMeasurementResultsDownloadUpload ::
  "'c lib \<Rightarrow> string \<Rightarrow> nat list \<Rightarrow> 'c world \<Rightarrow> fault + 'c world" where
  "calculateMeasurementResultsDownloadUpload lib cmd ps w =
     (let ms = max_steps_of w
      in res_bind (calc_steps lib cmd ms ps [1..ms] ([], [], w)) publish_results)"

lemmas evaluation_defs = calc_step_def end_step_def calculateMeasurementResultsDownloadUpload_def
  publish_results_def Let_def

section \<open>Closed form of the scan\<close>

text \<open>
  \<open>kept_slots\<close> are the counts the scan looks at: all of a download, the slots from the first
  time slot on of an upload. The scan stops at \<open>max_steps\<close>, which never matters to a step.
\<close>

definition kept_slots :: "string \<Rightarrow> int \<Rightarrow> imap \<Rightarrow> u64 list" where
  "kept_slots tn first rs =
     map snd (filter (\<lambda>(k, v). \<not> ((k < first \<or> first = 0) \<and> tn = ''upload'')) rs)"

definition sum_bytes :: "u64 list \<Rightarrow> u64" where
  "sum_bytes vs = sum_list (map (\<lambda>v. v div 8) vs)"

definition slot_bytes :: "u64 list \<Rightarrow> int \<Rightarrow> u64" where
  "slot_bytes vs step = (if 1 \<le> step \<and> nat (step - 1) < length vs then vs ! nat (step - 1) div 8 else 0)"

fun add_slots :: "int \<Rightarrow> u64 list \<Rightarrow> imap \<Rightarrow> imap" where
  "add_slots i [] m = m"
| "add_slots i (v # vs) m = add_slots (i + 1) vs (imap_add i v m)"

lemma sum_bytes_simps [simp]: "sum_bytes [] = 0" "sum_bytes (v # vs) = v div 8 + sum_bytes vs"
  by (simp_all add: sum_bytes_def)

lemma kept_slots_simps [simp]:
  "kept_slots tn first [] = []"
  "kept_slots tn first ((k, v) # rs) =
     (if (k < first \<or> first = 0) \<and> tn = ''upload'' then kept_slots tn first rs
      else v # kept_slots tn first rs)"
  by (simp_all add: kept_slots_def)

lemma nat_take_Suc: "i \<le> step \<Longrightarrow> nat (step + 1 - i) = Suc (nat (step - i))"
  by simp

lemma scan_beyond:
  "step < i \<Longrightarrow> scan_results tn first step ms i rs (m, b, d) = (m, b, d)"
proof (induction rs arbitrary: i)
  case (Cons p rs)
  obtain k v where p: "p = (k, v)" by (cases p)
  from Cons.prems have "scan_results tn first step ms i rs (m, b, d) = (m, b, d)"
    "scan_results tn first step ms (i + 1) rs (m, b, d) = (m, b, d)"
    by (simp_all add: Cons.IH)
  then show ?case using Cons.prems by (auto simp: p Let_def)
qed simp

lemma scan_closed:
  assumes "1 \<le> i" "i \<le> step" "step \<le> ms" "tn = ''download'' \<or> tn = ''upload''"
  shows "scan_results tn first step ms i rs (m, b, d) =
     (add_slots i (take (nat (step + 1 - i)) (kept_slots tn first rs)) m,
      b + sum_bytes (take (nat (step + 1 - i)) (kept_slots tn first rs)),
      if nat (step - i) < length (kept_slots tn first rs)
      then kept_slots tn first rs ! nat (step - i) div 8 else d)"
  using assms(1,2)
proof (induction rs arbitrary: i m b d)
  case (Cons p rs)
  obtain k v where p: "p = (k, v)" by (cases p)
  show ?case
  proof (cases "(k < first \<or> first = 0) \<and> tn = ''upload''")
    case True
    then show ?thesis using Cons.IH [OF Cons.prems] by (simp add: p)
  next
    case skip: False
    show ?thesis
    proof (cases "i = step")
      case True
      then show ?thesis using skip assms(4) by (auto simp: p Let_def scan_beyond)
    next
      case False
      with Cons.prems have i: "1 \<le> i + 1" "i + 1 \<le> step" "i \<noteq> ms" using assms(3) by simp_all
      have n: "nat (step + 1 - i) = Suc (nat (step + 1 - (i + 1)))"
        "nat (step - i) = Suc (nat (step - (i + 1)))" using i(2) by simp_all
      show ?thesis
        using skip False i Cons.prems assms(4) Cons.IH [OF i(1,2), of "imap_add i v m" "b + v div 8" d]
        unfolding n p by (auto simp: Let_def add.assoc)
    qed
  qed
qed simp

lemma scan_step:
  assumes "1 \<le> step" "step \<le> ms" "tn = ''download'' \<or> tn = ''upload''"
  shows "scan_results tn first step ms 1 rs (m, 0, 0) =
     (add_slots 1 (take (nat step) (kept_slots tn first rs)) m,
      sum_bytes (take (nat step) (kept_slots tn first rs)),
      slot_bytes (kept_slots tn first rs) step)"
  using scan_closed [of 1 step ms tn first rs m 0 0] assms by (auto simp: slot_bytes_def)

lemma sum_bytes_step:
  assumes "1 \<le> step"
  shows "sum_bytes (take (nat step) vs) = sum_bytes (take (nat (step - 1)) vs) + slot_bytes vs step"
proof -
  have n: "nat step = Suc (nat (step - 1))" using assms by simp
  show ?thesis
  proof (cases "nat (step - 1) < length vs")
    case True
    then show ?thesis using assms unfolding n
      by (simp add: take_Suc_conv_app_nth slot_bytes_def sum_bytes_def)
  next
    case False
    then show ?thesis using n by (simp add: slot_bytes_def)
  qed
qed

section \<open>What the evaluation reads\<close>

text \<open>
  \<open>stream_view\<close> is the part of a thread object that the evaluation reads and never writes;
  \<open>inputs\<close> collects it with the globals the evaluation depends on. Everything below is stated
  over \<open>inputs\<close>, which the evaluation of one stream leaves as it is.
\<close>

definition stream_view :: "'c world \<Rightarrow> nat \<Rightarrow> (measurement_data \<times> u64 \<times> int) option" where
  "stream_view w p =
     (if conf_sTestName w = ''download''
      then map_option (\<lambda>d. (mDownload d, measurementTimeStart d, mResponse d)) (dl_heap w p)
      else map_option (\<lambda>u. (mUpload u, measurementTimeStart u, mResponse u)) (ul_heap w p))"

definition inputs :: "'c world \<Rightarrow>
    (nat \<Rightarrow> (measurement_data \<times> u64 \<times> int) option) \<times> string \<times> int \<times> int \<times> u64 \<times> int" where
  "inputs w = (stream_view w, conf_sTestName w, TIMER_INDEX_UPLOAD_FIRST w,
     TIMESTAMP_MEASUREMENT_START w, MEASUREMENT_DURATION w, conf_instances w)"

definition speed_test :: "'a globals_scheme \<Rightarrow> bool" where
  "speed_test w \<longleftrightarrow> conf_sTestName w = ''download'' \<or> conf_sTestName w = ''upload''"

text \<open>
  What the evaluation of streams changes at most: two worlds agree on everything else when they
  are equal after these fields are erased.
\<close>

definition erase_stamps :: "'c world \<Rightarrow> 'c world" where
  "erase_stamps w = w\<lparr>clock_pos := 0, jMeasurementResultsTime := [],
     jMeasurementResultsPeer := [], dl_heap := Map.empty, ul_heap := Map.empty\<rparr>"

definition only_stamped :: "'c world \<Rightarrow> 'c world \<Rightarrow> bool" where
  "only_stamped w v \<longleftrightarrow> erase_stamps v = erase_stamps w \<and>
     dom (dl_heap v) = dom (dl_heap w) \<and> dom (ul_heap v) = dom (ul_heap w) \<and>
     clock_pos w \<le> clock_pos v"

lemma only_stamped_refl: "only_stamped w w"
  by (simp add: only_stamped_def)

lemma only_stamped_trans: "only_stamped u v \<Longrightarrow> only_stamped v w \<Longrightarrow> only_stamped u w"
  by (simp add: only_stamped_def)

lemma stamp_stream_view:
  "stamp_stream sk ek cmd current t w = (t', w') \<Longrightarrow>
     measurementTimeStart t' = measurementTimeStart t \<and> mResponse t' = mResponse t \<and>
     measurementTimeDuration t' = current - measurementTimeStart t \<and>
     stream_thread.more t' = stream_thread.more t"
  by (auto simp: stamp_stream_def get_timestamp_def Let_def split: if_splits)

lemma stamp_stream_world:
  "stamp_stream sk ek cmd current t w = (t', w') \<Longrightarrow>
     erase_stamps w' = erase_stamps w \<and> dl_heap w' = dl_heap w \<and> ul_heap w' = ul_heap w \<and>
     clock_pos w \<le> clock_pos w'"
  by (auto simp: stamp_stream_def get_timestamp_def Let_def erase_stamps_def split: if_splits)

lemma erase_stamps_frame:
  assumes "erase_stamps v = erase_stamps w"
  shows "conf_sTestName v = conf_sTestName w"
    "TIMER_INDEX_UPLOAD_FIRST v = TIMER_INDEX_UPLOAD_FIRST w"
    "TIMESTAMP_MEASUREMENT_START v = TIMESTAMP_MEASUREMENT_START w"
    "MEASUREMENT_DURATION v = MEASUREMENT_DURATION w" "conf_instances v = conf_instances w"
    "timer v = timer w" "trace v = trace w" "out v = out w" "clock v = clock w"
    "hasError v = hasError w" "STREAMS_DROPPED v = STREAMS_DROPPED w"
  using arg_cong [OF assms, of conf_sTestName] arg_cong [OF assms, of TIMER_INDEX_UPLOAD_FIRST]
    arg_cong [OF assms, of TIMESTAMP_MEASUREMENT_START] arg_cong [OF assms, of MEASUREMENT_DURATION]
    arg_cong [OF assms, of conf_instances] arg_cong [OF assms, of timer]
    arg_cong [OF assms, of trace] arg_cong [OF assms, of out] arg_cong [OF assms, of clock]
    arg_cong [OF assms, of hasError] arg_cong [OF assms, of STREAMS_DROPPED]
  by (simp_all add: erase_stamps_def)

lemma mDownload_more: "stream_thread.more d = stream_thread.more d' \<Longrightarrow> mDownload d = mDownload d'"
  by (cases d; cases d') simp

lemma mUpload_more: "stream_thread.more d = stream_thread.more d' \<Longrightarrow> mUpload d = mUpload d'"
  by (cases d; cases d') simp

lemma read_stream_Inr:
  assumes "speed_test w" "stream_view w p = Some (data, start, resp)"
  obtains w1 where
    "read_stream lib cmd current p w =
       Inr ((data, datasize_slow_start data div 8, current - start, 0 < resp), w1)"
    "inputs w1 = inputs w" "only_stamped w w1"
proof (cases "conf_sTestName w = ''download''")
  case True
  then obtain d where d: "dl_heap w p = Some d" "mDownload d = data"
    "measurementTimeStart d = start" "mResponse d = resp"
    using assms(2) by (auto simp: stream_view_def)
  obtain d' w' where s: "stamp_stream ''download_start'' ''download_end'' cmd current d w = (d', w')"
    by fastforce
  note v = stamp_stream_view [OF s]
  then have m: "mDownload d' = data" using mDownload_more [of d' d] d(2) by simp
  have w': "erase_stamps w' = erase_stamps w" "dl_heap w' = dl_heap w" "ul_heap w' = ul_heap w"
    "clock_pos w \<le> clock_pos w'"
    using stamp_stream_world [OF s] by simp_all
  note fr = erase_stamps_frame [OF w'(1)]
  let ?w1 = "w'\<lparr>dl_heap := (dl_heap w')(p \<mapsto> d')\<rparr>"
  have "read_stream lib cmd current p w =
       Inr ((data, datasize_slow_start data div 8, current - start, 0 < resp), ?w1)"
    using True d v m by (simp add: read_stream_def deref_def s)
  moreover have "stream_view ?w1 = stream_view w"
    using True d v m by (auto simp: stream_view_def w'(2,3) fr fun_eq_iff)
  then have "inputs ?w1 = inputs w" by (simp add: inputs_def fr)
  moreover have "only_stamped w ?w1"
    using d w' by (auto simp: only_stamped_def erase_stamps_def)
  ultimately show thesis by (rule that)
next
  case False
  then have up: "conf_sTestName w = ''upload''" using assms(1) by (simp add: speed_test_def)
  then obtain d where d: "ul_heap w p = Some d" "mUpload d = data"
    "measurementTimeStart d = start" "mResponse d = resp"
    using assms(2) by (auto simp: stream_view_def)
  obtain d' w' where s: "stamp_stream ''upload_start'' ''upload_end'' cmd current d w = (d', w')"
    by fastforce
  note v = stamp_stream_view [OF s]
  then have m: "mUpload d' = data" using mUpload_more [of d' d] d(2) by simp
  have w': "erase_stamps w' = erase_stamps w" "dl_heap w' = dl_heap w" "ul_heap w' = ul_heap w"
    "clock_pos w \<le> clock_pos w'"
    using stamp_stream_world [OF s] by simp_all
  note fr = erase_stamps_frame [OF w'(1)]
  let ?w1 = "w'\<lparr>ul_heap := (ul_heap w')(p \<mapsto> d')\<rparr>"
  have "read_stream lib cmd current p w =
       Inr ((data, datasize_slow_start data div 8, current - start, 0 < resp), ?w1)"
    using up d v m by (simp add: read_stream_def deref_def s)
  moreover have "stream_view ?w1 = stream_view w"
    using up d v m by (auto simp: stream_view_def w'(2,3) fr fun_eq_iff)
  then have "inputs ?w1 = inputs w" by (simp add: inputs_def fr)
  moreover have "only_stamped w ?w1"
    using d w' by (auto simp: only_stamped_def erase_stamps_def)
  ultimately show thesis by (rule that)
qed

section \<open>The sums\<close>

text \<open>The numbers of one stream, as functions of what the evaluation reads.\<close>

definition slots_of :: "'c world \<Rightarrow> nat \<Rightarrow> u64 list" where
  "slots_of w p = (case stream_view w p of None \<Rightarrow> []
     | Some (data, _, _) \<Rightarrow> kept_slots (conf_sTestName w) (TIMER_INDEX_UPLOAD_FIRST w) (results data))"

definition bytes_of :: "'c world \<Rightarrow> int \<Rightarrow> nat \<Rightarrow> u64" where
  "bytes_of w step p = sum_bytes (take (nat step) (slots_of w p))"

definition distinct_of :: "'c world \<Rightarrow> int \<Rightarrow> nat \<Rightarrow> u64" where
  "distinct_of w step p = slot_bytes (slots_of w p) step"

definition slow_start_of :: "'c world \<Rightarrow> nat \<Rightarrow> u64" where
  "slow_start_of w p = (case stream_view w p of None \<Rightarrow> 0
     | Some (data, _, _) \<Rightarrow> datasize_slow_start data div 8)"

definition counts_of :: "'c world \<Rightarrow> nat \<Rightarrow> bool" where
  "counts_of w p = (case stream_view w p of None \<Rightarrow> False | Some (_, _, resp) \<Rightarrow> 0 < resp)"

definition relative_total_of :: "'c world \<Rightarrow> int \<Rightarrow> int \<Rightarrow> u64 \<Rightarrow> nat \<Rightarrow> u64" where
  "relative_total_of w ms step current p = (case stream_view w p of None \<Rightarrow> 0
     | Some (_, start, _) \<Rightarrow> (current - start) * 1000 - steps_ns (ms - step))"

definition relative_start_of :: "'c world \<Rightarrow> int \<Rightarrow> int \<Rightarrow> u64 \<Rightarrow> u64" where
  "relative_start_of w ms step current =
     current * 1000 - u64 (TIMESTAMP_MEASUREMENT_START w) - steps_ns (ms - step)"

text \<open>\<open>stream_readable\<close>: the stream exists and all its numbers fit a \<open>long long\<close>.\<close>

definition stream_readable :: "'c world \<Rightarrow> int \<Rightarrow> int \<Rightarrow> u64 \<Rightarrow> nat \<Rightarrow> bool" where
  "stream_readable w ms step current p \<longleftrightarrow> stream_view w p \<noteq> None \<and>
     uint (bytes_of w step p) < 2 ^ 63 \<and> uint (distinct_of w step p) < 2 ^ 63 \<and>
     uint (slow_start_of w p) < 2 ^ 63 \<and> uint (slow_start_of w p + bytes_of w step p) < 2 ^ 63 \<and>
     uint (relative_total_of w ms step current p) < 2 ^ 63 \<and>
     uint (relative_start_of w ms step current) < 2 ^ 63"

lemma stoll_at_string: "obj_at m k = JStr (to_string_u64 v) \<Longrightarrow>
   stoll_at m k = (if uint v < 2 ^ 63 then Inr (uint v) else Inl OutOfRange)"
  by (simp add: stoll_at_def stoll_to_string_u64)

lemma add_stream_object:
  "add_stream (stream_object sid b d s rt step ms current start) a =
     (if uint b < 2 ^ 63 \<and> uint d < 2 ^ 63 \<and> uint s < 2 ^ 63 \<and> uint (s + b) < 2 ^ 63 \<and>
         uint (rt * 1000 - steps_ns (ms - step)) < 2 ^ 63 \<and>
         uint (current * 1000 - u64 start - steps_ns (ms - step)) < 2 ^ 63
      then Inr (a\<lparr>bytes_aggregate := bytes_aggregate a + b,
              bytes_distinct_aggregate := bytes_distinct_aggregate a + d,
              bytes_slow_start_aggregate := bytes_slow_start_aggregate a + s,
              bytes_total_aggregate := bytes_total_aggregate a + (s + b),
              duration_ns_total := rt * 1000 - steps_ns (ms - step),
              relative_time_ns_measurement_start :=
                current * 1000 - u64 start - steps_ns (ms - step),
              streamId := streamId a + 1\<rparr>)
      else Inl OutOfRange)"
proof -
  let ?o = "stream_object sid b d s rt step ms current start"
  have at: "obj_at ?o ''bytes'' = JStr (to_string_u64 b)"
    "obj_at ?o ''bytes_distinct'' = JStr (to_string_u64 d)"
    "obj_at ?o ''bytes_slow_start'' = JStr (to_string_u64 s)"
    "obj_at ?o ''bytes_total'' = JStr (to_string_u64 (s + b))"
    "obj_at ?o ''relative_time_ns_total'' =
       JStr (to_string_u64 (rt * 1000 - steps_ns (ms - step)))"
    "obj_at ?o ''relative_time_ns_measurement_start'' =
       JStr (to_string_u64 (current * 1000 - u64 start - steps_ns (ms - step)))"
    by (simp_all add: stream_object_def obj_at_def)
  show ?thesis unfolding add_stream_def by (simp only: at [THEN stoll_at_string]) simp
qed

text \<open>The accumulator after a list of streams, and the body of the loop over the streams.\<close>

definition acc_after :: "'c world \<Rightarrow> int \<Rightarrow> int \<Rightarrow> u64 \<Rightarrow> nat \<Rightarrow> step_acc \<Rightarrow> step_acc" where
  "acc_after w ms step current p a =
     a\<lparr>agg_streams := agg_streams a + (if counts_of w p then 1 else 0),
       agg_results := add_slots 1 (take (nat step) (slots_of w p)) (agg_results a),
       bytes_aggregate := bytes_aggregate a + bytes_of w step p,
       bytes_distinct_aggregate := bytes_distinct_aggregate a + distinct_of w step p,
       bytes_slow_start_aggregate := bytes_slow_start_aggregate a + slow_start_of w p,
       bytes_total_aggregate := bytes_total_aggregate a + (slow_start_of w p + bytes_of w step p),
       duration_ns_total := relative_total_of w ms step current p,
       relative_time_ns_measurement_start := relative_start_of w ms step current,
       streamId := streamId a + 1\<rparr>"

lemma inputs_of:
  assumes "inputs v = inputs w"
  shows "slots_of v = slots_of w" "bytes_of v = bytes_of w" "distinct_of v = distinct_of w"
    "slow_start_of v = slow_start_of w" "counts_of v = counts_of w"
    "relative_total_of v = relative_total_of w" "relative_start_of v = relative_start_of w"
    "stream_readable v = stream_readable w" "speed_test v = speed_test w"
    "acc_after v = acc_after w" "conf_sTestName v = conf_sTestName w"
    "MEASUREMENT_DURATION v = MEASUREMENT_DURATION w" "conf_instances v = conf_instances w"
proof -
  have b: "stream_view v = stream_view w" "conf_sTestName v = conf_sTestName w"
    "TIMER_INDEX_UPLOAD_FIRST v = TIMER_INDEX_UPLOAD_FIRST w"
    "TIMESTAMP_MEASUREMENT_START v = TIMESTAMP_MEASUREMENT_START w"
    "MEASUREMENT_DURATION v = MEASUREMENT_DURATION w" "conf_instances v = conf_instances w"
    using assms by (simp_all add: inputs_def)
  show sl: "slots_of v = slots_of w" unfolding slots_of_def fun_eq_iff b by simp
  show byt: "bytes_of v = bytes_of w" by (simp add: bytes_of_def sl fun_eq_iff)
  show di: "distinct_of v = distinct_of w" by (simp add: distinct_of_def sl fun_eq_iff)
  show ss: "slow_start_of v = slow_start_of w" unfolding slow_start_of_def fun_eq_iff b by simp
  show co: "counts_of v = counts_of w" unfolding counts_of_def fun_eq_iff b by simp
  show rt: "relative_total_of v = relative_total_of w"
    unfolding relative_total_of_def fun_eq_iff b by simp
  show rs: "relative_start_of v = relative_start_of w"
    unfolding relative_start_of_def fun_eq_iff b by simp
  show "stream_readable v = stream_readable w"
    by (simp only: stream_readable_def byt di ss rt rs b fun_eq_iff simp_thms)
  show "acc_after v = acc_after w"
    by (simp only: acc_after_def sl byt di ss co rt rs fun_eq_iff simp_thms)
  show "speed_test v = speed_test w" by (simp add: speed_test_def b)
  show "conf_sTestName v = conf_sTestName w" "MEASUREMENT_DURATION v = MEASUREMENT_DURATION w"
    "conf_instances v = conf_instances w" by (fact b)+
qed

lemma calc_thread_sums:
  assumes "speed_test w" "1 \<le> step" "step \<le> ms" "stream_view w p \<noteq> None"
  shows "stream_readable w ms step current p \<Longrightarrow>
      \<exists>obj w1. calc_thread lib cmd current ms step p (a, per, w) =
          Inr (acc_after w ms step current p a, per @ [obj], w1) \<and>
        inputs w1 = inputs w \<and> only_stamped w w1"
    and "\<not> stream_readable w ms step current p \<Longrightarrow>
      calc_thread lib cmd current ms step p (a, per, w) = Inl OutOfRange"
proof -
  obtain data start resp where v: "stream_view w p = Some (data, start, resp)"
    using assms(4) by auto
  obtain w1 where r: "read_stream lib cmd current p w =
       Inr ((data, datasize_slow_start data div 8, current - start, 0 < resp), w1)"
    and i: "inputs w1 = inputs w" and o: "only_stamped w w1"
    using read_stream_Inr [OF assms(1) v] by metis
  have names: "conf_sTestName w1 = conf_sTestName w"
    "TIMER_INDEX_UPLOAD_FIRST w1 = TIMER_INDEX_UPLOAD_FIRST w"
    "TIMESTAMP_MEASUREMENT_START w1 = TIMESTAMP_MEASUREMENT_START w"
    using i by (simp_all add: inputs_def)
  have scan: "scan_results (conf_sTestName w) (TIMER_INDEX_UPLOAD_FIRST w) step ms 1
      (results data) (m, 0, 0) =
      (add_slots 1 (take (nat step) (slots_of w p)) m, bytes_of w step p, distinct_of w step p)"
    for m using scan_step [of step ms "conf_sTestName w"] assms(1-3) v
    by (simp add: slots_of_def bytes_of_def distinct_of_def speed_test_def)
  have ok: "stream_readable w ms step current p =
     (uint (bytes_of w step p) < 2 ^ 63 \<and> uint (distinct_of w step p) < 2 ^ 63 \<and>
      uint (slow_start_of w p) < 2 ^ 63 \<and> uint (slow_start_of w p + bytes_of w step p) < 2 ^ 63 \<and>
      uint ((current - start) * 1000 - steps_ns (ms - step)) < 2 ^ 63 \<and>
      uint (current * 1000 - u64 (TIMESTAMP_MEASUREMENT_START w) - steps_ns (ms - step)) < 2 ^ 63)"
    using v by (simp add: stream_readable_def relative_total_of_def relative_start_of_def)
  have s: "slow_start_of w p = datasize_slow_start data div 8" "counts_of w p = (0 < resp)"
    "relative_total_of w ms step current p = (current - start) * 1000 - steps_ns (ms - step)"
    using v by (simp_all add: slow_start_of_def counts_of_def relative_total_of_def)
  note defs = calc_thread_def r names scan add_stream_object acc_after_def s relative_start_of_def
  show "\<exists>obj w1. calc_thread lib cmd current ms step p (a, per, w) =
          Inr (acc_after w ms step current p a, per @ [obj], w1) \<and>
        inputs w1 = inputs w \<and> only_stamped w w1"
    if "stream_readable w ms step current p"
    using that i o unfolding ok by (simp add: defs)
  show "calc_thread lib cmd current ms step p (a, per, w) = Inl OutOfRange"
    if "\<not> stream_readable w ms step current p"
    using that unfolding ok by (auto simp: defs)
qed

definition acc_all :: "'c world \<Rightarrow> int \<Rightarrow> int \<Rightarrow> u64 \<Rightarrow> nat list \<Rightarrow> step_acc \<Rightarrow> step_acc" where
  "acc_all w ms step current ps a = fold (acc_after w ms step current) ps a"

lemma acc_all_sums:
  "bytes_aggregate (acc_all w ms step current ps a) = bytes_aggregate a + sum_list (map (bytes_of w step) ps)"
  "bytes_distinct_aggregate (acc_all w ms step current ps a) =
     bytes_distinct_aggregate a + sum_list (map (distinct_of w step) ps)"
  "bytes_slow_start_aggregate (acc_all w ms step current ps a) =
     bytes_slow_start_aggregate a + sum_list (map (slow_start_of w) ps)"
  "bytes_total_aggregate (acc_all w ms step current ps a) =
     bytes_total_aggregate a + sum_list (map (\<lambda>p. slow_start_of w p + bytes_of w step p) ps)"
  "agg_streams (acc_all w ms step current ps a) =
     agg_streams a + int (length (filter (counts_of w) ps))"
  unfolding acc_all_def by (induction ps arbitrary: a) (simp_all add: acc_after_def add.assoc)

lemma calc_threads_sums:
  assumes "speed_test w" "1 \<le> step" "step \<le> ms" "\<forall>p\<in>set ps. stream_readable w ms step current p"
  shows "\<exists>objs w1. calc_threads lib cmd current ms step ps (a, per, w) =
      Inr (acc_all w ms step current ps a, per @ objs, w1) \<and>
      inputs w1 = inputs w \<and> only_stamped w w1 \<and> length objs = length ps"
  using assms(1,4)
proof (induction ps arbitrary: a per w)
  case Nil
  then show ?case by (simp add: acc_all_def only_stamped_refl)
next
  case (Cons p ps)
  then have p: "stream_readable w ms step current p" "stream_view w p \<noteq> None"
    by (simp_all add: stream_readable_def)
  obtain obj w1 where 1: "calc_thread lib cmd current ms step p (a, per, w) =
      Inr (acc_after w ms step current p a, per @ [obj], w1)"
    and i1: "inputs w1 = inputs w" and o1: "only_stamped w w1"
    using calc_thread_sums(1) [OF Cons.prems(1) assms(2,3) p(2,1)] by blast
  note e = inputs_of [OF i1]
  have "speed_test w1" "\<forall>p\<in>set ps. stream_readable w1 ms step current p"
    using Cons.prems by (simp_all add: e)
  from Cons.IH [OF this, of "acc_after w ms step current p a" "per @ [obj]"]
  obtain objs w2 where 2: "calc_threads lib cmd current ms step ps
      (acc_after w ms step current p a, per @ [obj], w1) =
      Inr (acc_all w1 ms step current ps (acc_after w ms step current p a), (per @ [obj]) @ objs, w2)"
    and i2: "inputs w2 = inputs w1" and o2: "only_stamped w1 w2" and l: "length objs = length ps"
    by blast
  have "calc_threads lib cmd current ms step (p # ps) (a, per, w) =
      Inr (acc_all w ms step current (p # ps) a, per @ obj # objs, w2)"
    using 1 2 by (simp add: acc_all_def e)
  moreover have "inputs w2 = inputs w" using i1 i2 by simp
  moreover have "only_stamped w w2" using o1 o2 by (rule only_stamped_trans)
  ultimately show ?case using l by (metis length_Cons)
qed

text \<open>A stream that does not fit makes the whole evaluation throw, whatever its position.\<close>

lemma calc_threads_throws:
  assumes "speed_test w" "1 \<le> step" "step \<le> ms" "\<forall>p\<in>set ps. stream_view w p \<noteq> None"
    "\<exists>p\<in>set ps. \<not> stream_readable w ms step current p"
  shows "calc_threads lib cmd current ms step ps (a, per, w) = Inl OutOfRange"
  using assms(1,4,5)
proof (induction ps arbitrary: a per w)
  case (Cons p ps)
  have p: "stream_view w p \<noteq> None" using Cons.prems(2) by simp
  show ?case
  proof (cases "stream_readable w ms step current p")
    case True
    obtain obj w1 where 1: "calc_thread lib cmd current ms step p (a, per, w) =
        Inr (acc_after w ms step current p a, per @ [obj], w1)" and i1: "inputs w1 = inputs w"
      using calc_thread_sums(1) [OF Cons.prems(1) assms(2,3) p True] by blast
    have "stream_view w1 = stream_view w" using i1 by (simp add: inputs_def)
    then have "calc_threads lib cmd current ms step ps
        (acc_after w ms step current p a, per @ [obj], w1) = Inl OutOfRange"
      using Cons.prems True by (intro Cons.IH) (simp_all add: inputs_of [OF i1])
    then show ?thesis using 1 by simp
  next
    case False
    then show ?thesis
      using calc_thread_sums(2) [OF Cons.prems(1) assms(2,3) p False] by simp
  qed
qed simp

section \<open>All steps\<close>

definition step_seconds :: "'a globals_scheme \<Rightarrow> u64" where
  "step_seconds w = (if conf_sTestName w = ''download'' then MEASUREMENT_DURATION w
     else MEASUREMENT_DURATION w - UPLOAD_ADDITIONAL_MEASUREMENT_DURATION)"

definition mark_dropped :: "bool \<Rightarrow> 'a globals_scheme \<Rightarrow> 'a globals_scheme" where
  "mark_dropped b w = (if b then w\<lparr>hasError := True, STREAMS_DROPPED := True\<rparr> else w)"

definition none_counts :: "'c world \<Rightarrow> nat list \<Rightarrow> bool" where
  "none_counts w ps \<longleftrightarrow> (\<forall>p\<in>set ps. \<not> counts_of w p)"

lemma none_counts_filter: "none_counts w ps \<longleftrightarrow> filter (counts_of w) ps = []"
  by (simp add: none_counts_def filter_empty_conv)

lemma none_counts_inputs: "inputs v = inputs w \<Longrightarrow> none_counts v ps = none_counts w ps"
proof -
  assume i: "inputs v = inputs w"
  show ?thesis by (simp only: none_counts_def inputs_of(5) [OF i])
qed

lemma inputs_mark [simp]: "inputs (mark_dropped b w) = inputs w"
  by (simp add: inputs_def stream_view_def mark_dropped_def fun_eq_iff)

lemma inputs_get_timestamp [simp]: "inputs (w\<lparr>clock_pos := n\<rparr>) = inputs w"
  by (simp add: inputs_def stream_view_def fun_eq_iff)

text \<open>The result of one step: its object, and the state but for what the streams stamp.\<close>

lemma calc_step_result:
  assumes "speed_test w" "1 \<le> step" "step \<le> ms"
    "\<forall>p\<in>set ps. stream_readable w ms step (clock w (clock_pos w)) p"
  shows "\<exists>objs v. calc_step lib cmd ms ps step (res, per, w) =
      Inr (res @ [JObj (step_object lib cmd (step_seconds w)
             (acc_all w ms step (clock w (clock_pos w)) ps (new_acc lib)) v)],
           per @ objs, mark_dropped (none_counts w ps) v) \<and>
      inputs v = inputs w \<and> only_stamped w v \<and> length objs = length ps"
proof -
  let ?c = "clock w (clock_pos w)"
  let ?w1 = "w\<lparr>clock_pos := Suc (clock_pos w)\<rparr>"
  have i1: "inputs ?w1 = inputs w" by simp
  note e = inputs_of [OF i1]
  have "speed_test ?w1" "\<forall>p\<in>set ps. stream_readable ?w1 ms step ?c p"
    using assms(1,4) by (simp_all only: e)
  from calc_threads_sums [OF this(1) assms(2,3) this(2), of lib cmd "new_acc lib" per]
  obtain objs v where t: "calc_threads lib cmd ?c ms step ps (new_acc lib, per, ?w1) =
      Inr (acc_all ?w1 ms step ?c ps (new_acc lib), per @ objs, v)"
    and i: "inputs v = inputs ?w1" and o: "only_stamped ?w1 v" and l: "length objs = length ps"
    by blast
  have i': "inputs v = inputs w" using i by simp
  note f = inputs_of [OF i']
  let ?a = "acc_all w ms step ?c ps (new_acc lib)"
  have a: "acc_all ?w1 ms step ?c ps (new_acc lib) = ?a" by (simp only: acc_all_def e)
  have n: "(agg_streams ?a = 0) = none_counts w ps"
    by (simp add: acc_all_sums new_acc_def none_counts_filter)
  have so: "step_object lib cmd s ?a (mark_dropped b v) = step_object lib cmd s ?a v" for s b
    by (simp add: step_object_def mark_dropped_def)
  have tn: "conf_sTestName w = ''download'' \<or> conf_sTestName w = ''upload''"
    using assms(1) by (simp add: speed_test_def)
  have m: "mark_dropped (none_counts w ps) v =
      (if agg_streams ?a = 0 then v\<lparr>hasError := True, STREAMS_DROPPED := True\<rparr> else v)"
    by (simp add: n mark_dropped_def)
  have "calc_step lib cmd ms ps step (res, per, w) =
      Inr (res @ [JObj (step_object lib cmd (step_seconds w) ?a v)], per @ objs,
           mark_dropped (none_counts w ps) v)"
    using tn by (auto simp: evaluation_defs t [unfolded a] get_timestamp_def Let_def
        n mark_dropped_def step_seconds_def step_object_def f)
  moreover have "only_stamped w v"
    using o by (simp add: only_stamped_def erase_stamps_def)
  ultimately show ?thesis using i' l by blast
qed

text \<open>
  What the whole evaluation changes at most before it publishes the results: the stamps, and the
  two flags of dropped streams.
\<close>

definition erase_eval :: "'c world \<Rightarrow> 'c world" where
  "erase_eval w = erase_stamps (w\<lparr>hasError := False, STREAMS_DROPPED := False\<rparr>)"

definition only_evaluated :: "bool \<Rightarrow> 'c world \<Rightarrow> 'c world \<Rightarrow> bool" where
  "only_evaluated dropped w v \<longleftrightarrow> erase_eval v = erase_eval w \<and>
     dom (dl_heap v) = dom (dl_heap w) \<and> dom (ul_heap v) = dom (ul_heap w) \<and>
     clock_pos w \<le> clock_pos v \<and> clock v = clock w \<and>
     hasError v = (hasError w \<or> dropped) \<and> STREAMS_DROPPED v = (STREAMS_DROPPED w \<or> dropped)"

lemma only_evaluated_refl: "only_evaluated False w w"
  by (simp add: only_evaluated_def)

lemma only_evaluated_trans:
  "only_evaluated a u v \<Longrightarrow> only_evaluated b v w \<Longrightarrow> only_evaluated (a \<or> b) u w"
  by (auto simp: only_evaluated_def)

lemma stamped_evaluated: "only_stamped w v \<Longrightarrow> only_evaluated b w (mark_dropped b v)"
proof -
  assume o: "only_stamped w v"
  then have e: "erase_stamps v = erase_stamps w" by (simp add: only_stamped_def)
  have "erase_eval (mark_dropped b v) = (erase_stamps v)\<lparr>hasError := False, STREAMS_DROPPED := False\<rparr>"
    by (simp add: erase_eval_def erase_stamps_def mark_dropped_def)
  also have "\<dots> = erase_eval w" unfolding e by (simp add: erase_eval_def erase_stamps_def)
  finally show ?thesis
    using o erase_stamps_frame [OF e]
    by (simp add: only_evaluated_def only_stamped_def mark_dropped_def)
qed

definition all_readable :: "'c world \<Rightarrow> int \<Rightarrow> nat list \<Rightarrow> bool" where
  "all_readable w ms ps \<longleftrightarrow>
     (\<forall>n \<ge> clock_pos w. \<forall>step \<in> {1..ms}. \<forall>p\<in>set ps. stream_readable w ms step (clock w n) p)"

text \<open>The object of a step holds the sums over the streams; only the clock reading is open.\<close>

definition is_step_object ::
  "'c lib \<Rightarrow> string \<Rightarrow> 'c world \<Rightarrow> int \<Rightarrow> int \<Rightarrow> nat list \<Rightarrow> json \<Rightarrow> bool" where
  "is_step_object lib cmd w ms step ps obj \<longleftrightarrow>
     (\<exists>current u. obj = JObj (step_object lib cmd (step_seconds w)
                       (acc_all w ms step current ps (new_acc lib)) u) \<and>
        conf_instances u = conf_instances w)"

lemma is_step_object_inputs:
  "inputs v = inputs w \<Longrightarrow> is_step_object lib cmd v = is_step_object lib cmd w"
proof -
  assume i: "inputs v = inputs w"
  have s: "step_seconds v = step_seconds w" by (simp add: step_seconds_def inputs_of(11,12) [OF i])
  show ?thesis
    by (simp only: is_step_object_def acc_all_def inputs_of(10,13) [OF i] s fun_eq_iff simp_thms)
qed

lemma calc_steps_result:
  assumes "speed_test w" "\<forall>step\<in>set steps. 1 \<le> step \<and> step \<le> ms" "all_readable w ms ps"
  shows "\<exists>res' per' v. calc_steps lib cmd ms ps steps (res, per, w) = Inr (res @ res', per', v) \<and>
      length res' = length steps \<and>
      (\<forall>j < length steps. is_step_object lib cmd w ms (steps ! j) ps (res' ! j)) \<and>
      inputs v = inputs w \<and> only_evaluated (steps \<noteq> [] \<and> none_counts w ps) w v"
  using assms
proof (induction steps arbitrary: res per w)
  case Nil
  then show ?case by (simp add: only_evaluated_refl)
next
  case (Cons step steps)
  have st: "1 \<le> step" "step \<le> ms" using Cons.prems(2) by simp_all
  then have rd: "\<forall>p\<in>set ps. stream_readable w ms step (clock w (clock_pos w)) p"
    using Cons.prems(3) by (auto simp: all_readable_def)
  let ?a = "acc_all w ms step (clock w (clock_pos w)) ps (new_acc lib)"
  obtain objs v where s: "calc_step lib cmd ms ps step (res, per, w) =
      Inr (res @ [JObj (step_object lib cmd (step_seconds w) ?a v)], per @ objs,
           mark_dropped (none_counts w ps) v)"
    and i: "inputs v = inputs w" and o: "only_stamped w v"
    using calc_step_result [OF Cons.prems(1) st rd, of lib cmd res per] by blast
  let ?v = "mark_dropped (none_counts w ps) v"
  let ?o = "JObj (step_object lib cmd (step_seconds w) ?a v)"
  have ev: "only_evaluated (none_counts w ps) w ?v" using o by (rule stamped_evaluated)
  have i1: "inputs ?v = inputs w" using i by simp
  note e = inputs_of [OF i1]
  have sp: "speed_test ?v" using Cons.prems(1) by (simp only: e)
  have nc: "none_counts ?v ps = none_counts w ps" using i1 by (rule none_counts_inputs)
  have "all_readable ?v ms ps"
    using Cons.prems(3) ev by (auto simp: all_readable_def e only_evaluated_def)
  with sp Cons.prems(2) obtain res' per' u where
    r: "calc_steps lib cmd ms ps steps (res @ [?o], per @ objs, ?v) = Inr ((res @ [?o]) @ res', per', u)"
    and l: "length res' = length steps"
    and d: "\<forall>j < length steps. is_step_object lib cmd ?v ms (steps ! j) ps (res' ! j)"
    and iu: "inputs u = inputs ?v" and ou: "only_evaluated (steps \<noteq> [] \<and> none_counts ?v ps) ?v u"
    using Cons.IH [of ?v "res @ [?o]" "per @ objs"] by auto
  have "calc_steps lib cmd ms ps (step # steps) (res, per, w) = Inr (res @ (?o # res'), per', u)"
    using s r by simp
  moreover have "is_step_object lib cmd w ms step ps ?o"
    unfolding is_step_object_def using inputs_of(13) [OF i] by blast
  then have "\<forall>j < length (step # steps).
      is_step_object lib cmd w ms ((step # steps) ! j) ps ((?o # res') ! j)"
    using d by (auto simp: is_step_object_inputs [OF i1] nth_Cons split: nat.split)
  moreover have "only_evaluated (none_counts w ps) w u"
  proof -
    have "(none_counts w ps \<or> steps \<noteq> [] \<and> none_counts w ps) = none_counts w ps" by blast
    then show ?thesis using only_evaluated_trans [OF ev ou] unfolding nc by simp
  qed
  moreover have "inputs u = inputs w" using iu i1 by simp
  ultimately show ?case using l by auto
qed

section \<open>The whole evaluation\<close>

lemma calc_steps_throws:
  assumes "speed_test w" "1 \<le> step" "step \<le> ms" "\<forall>p\<in>set ps. stream_view w p \<noteq> None"
    "\<exists>p\<in>set ps. \<not> stream_readable w ms step (clock w (clock_pos w)) p"
  shows "calc_steps lib cmd ms ps (step # steps) (res, per, w) = Inl OutOfRange"
proof -
  let ?w1 = "w\<lparr>clock_pos := Suc (clock_pos w)\<rparr>"
  have i1: "inputs ?w1 = inputs w" by simp
  note e = inputs_of [OF i1]
  have v: "stream_view ?w1 = stream_view w" by (simp add: stream_view_def fun_eq_iff)
  have "calc_threads lib cmd (clock w (clock_pos w)) ms step ps (new_acc lib, per, ?w1) = Inl OutOfRange"
    by (rule calc_threads_throws) (use assms in \<open>simp_all only: e v\<close>)
  then show ?thesis by (simp add: evaluation_defs get_timestamp_def)
qed

definition published :: "'c world \<Rightarrow> json list" where
  "published w = (if conf_sTestName w = ''download'' then jMeasurementResultsDownload w
     else jMeasurementResultsUpload w)"

text \<open>The throughput that the library computes fits a \<open>long long\<close>.\<close>

definition avg_fits :: "'c lib \<Rightarrow> bool" where
  "avg_fits lib \<longleftrightarrow> (\<forall>m x a b. uint (avg (calculateResults lib m x a b)) < 2 ^ 63)"

lemma throughput_fits:
  assumes "avg_fits lib"
  shows "\<exists>n. stoll (string_value (json_at (JObj (step_object lib cmd s a w)) ''throughput_avg_bps'')) = Inr n"
proof -
  have "obj_at (step_object lib cmd s a w) ''throughput_avg_bps'' =
      JStr (to_string_u64 (avg (aggregate_data lib a s)))"
    by (simp add: step_object_def getMeasurementResultsAggregate_def obj_at_def)
  moreover have "uint (avg (aggregate_data lib a s)) < 2 ^ 63"
    using assms by (simp add: aggregate_data_def avg_fits_def Let_def)
  ultimately show ?thesis by (simp add: json_at_def stoll_to_string_u64)
qed

lemma max_steps_range:
  assumes "0 \<le> TIMER_DURATION w" "TIMER_DURATION w < 2147483648" "speed_test w"
    "uint (step_seconds w) < 1073741824"
  shows "max_steps_of w = min (TIMER_DURATION w div 500000) (2 * uint (step_seconds w))"
proof -
  let ?n = "TIMER_DURATION w div 500000"
  have n: "(TIMER_DURATION w - TIMER_DURATION w smod 500000) sdiv 500000 = ?n"
  proof -
    have m: "TIMER_DURATION w smod 500000 = TIMER_DURATION w mod 500000"
      using assms(1) by (cases "TIMER_DURATION w = 0") (simp_all add: signed_modulo_int_def)
    have "TIMER_DURATION w - TIMER_DURATION w mod 500000 = 500000 * ?n"
      using minus_mod_eq_mult_div [of "TIMER_DURATION w" 500000] by simp
    then show ?thesis
      using assms(1) by (cases "TIMER_DURATION w = 0") (simp_all add: m signed_divide_int_def sgn_if)
  qed
  have r: "0 \<le> ?n" "?n < 4295" using assms(1,2) by simp_all
  have u: "uint (u64 ?n) = ?n" using r by (intro uint_u64) simp_all
  have d: "uint (step_seconds w * 2) = 2 * uint (step_seconds w)"
    using assms(4) by (subst uint_mult_u64) simp_all
  have "0 \<le> uint (step_seconds w)" by simp
  then have i: "i32 (2 * uint (step_seconds w)) = 2 * uint (step_seconds w)"
    using assms(4) by (intro i32_id) linarith+
  have c: "clip_steps ?n (step_seconds w * 2) = min ?n (2 * uint (step_seconds w))"
    using r by (auto simp: clip_steps_def word_less_def u d i min_def)
  show ?thesis
    using assms(3) c by (auto simp: max_steps_of_def n Let_def step_seconds_def speed_test_def)
qed

lemma is_step_objectD:
  assumes "is_step_object lib cmd w ms step ps obj"
  shows "string_value (json_at obj ''bytes_distinct'') =
      to_string_u64 (sum_list (map (distinct_of w step) ps))"
    and "avg_fits lib \<Longrightarrow> \<exists>n. stoll (string_value (json_at obj ''throughput_avg_bps'')) = Inr n"
proof -
  obtain current u where o: "obj = JObj (step_object lib cmd (step_seconds w)
      (acc_all w ms step current ps (new_acc lib)) u)"
    using assms by (auto simp: is_step_object_def)
  show "string_value (json_at obj ''bytes_distinct'') =
      to_string_u64 (sum_list (map (distinct_of w step) ps))"
    by (simp add: o json_at_def step_object_def acc_all_sums new_acc_def)
  show "avg_fits lib \<Longrightarrow> \<exists>n. stoll (string_value (json_at obj ''throughput_avg_bps'')) = Inr n"
    unfolding o by (rule throughput_fits)
qed

lemma calculate_result:
  assumes "speed_test w" "1 \<le> max_steps_of w" "all_readable w (max_steps_of w) ps" "avg_fits lib"
  shows "\<exists>v. calculateMeasurementResultsDownloadUpload lib cmd ps w = Inr v \<and>
      length (published v) = nat (max_steps_of w) \<and>
      (\<forall>j < nat (max_steps_of w).
         is_step_object lib cmd w (max_steps_of w) (int j + 1) ps (published v ! j)) \<and>
      hasError v = (hasError w \<or> none_counts w ps) \<and>
      STREAMS_DROPPED v = (STREAMS_DROPPED w \<or> none_counts w ps)"
proof -
  let ?ms = "max_steps_of w"
  have ne: "[1..?ms] \<noteq> []" using assms(2) by simp
  have "\<forall>step\<in>set [1..?ms]. 1 \<le> step \<and> step \<le> ?ms" by simp
  from calc_steps_result [OF assms(1) this assms(3), of lib cmd "[]" "[]"]
  obtain res per v where r: "calc_steps lib cmd ?ms ps [1..?ms] ([], [], w) = Inr (res, per, v)"
    and l: "length res = nat ?ms"
    and d: "\<forall>j < nat ?ms. is_step_object lib cmd w ?ms ([1..?ms] ! j) ps (res ! j)"
    and i: "inputs v = inputs w" and o: "only_evaluated (none_counts w ps) w v"
    using ne by auto
  have res: "res \<noteq> []" using l assms(2) by auto
  have last: "last res = res ! (nat ?ms - 1)" using res l by (simp add: last_conv_nth)
  have "nat ?ms - 1 < nat ?ms" using assms(2) by simp
  then obtain n where n: "stoll (string_value (json_at (last res) ''throughput_avg_bps'')) = Inr n"
    using d is_step_objectD(2) [OF _ assms(4)] last by metis
  have tn: "conf_sTestName v = ''download'' \<or> conf_sTestName v = ''upload''"
    using assms(1) inputs_of(11) [OF i] by (simp add: speed_test_def)
  have d': "\<forall>j < nat ?ms. is_step_object lib cmd w ?ms (int j + 1) ps (res ! j)"
    using d by (simp add: add.commute)
  let ?u = "if conf_sTestName v = ''download''
    then v\<lparr>jMeasurementResultsDownload := res, jMeasurementResultsDownloadStreams := per\<rparr>
    else v\<lparr>jMeasurementResultsUpload := res, jMeasurementResultsUploadStreams := per\<rparr>"
  have "calculateMeasurementResultsDownloadUpload lib cmd ps w = Inr ?u"
    using tn res n
    by (auto simp: evaluation_defs r)
  moreover have "published ?u = res" using tn by (auto simp: published_def)
  moreover have "hasError ?u = (hasError w \<or> none_counts w ps)"
    "STREAMS_DROPPED ?u = (STREAMS_DROPPED w \<or> none_counts w ps)"
    using o by (simp_all add: only_evaluated_def)
  ultimately show ?thesis using l d' by metis
qed

lemma calculate_no_step:
  "max_steps_of w < 1 \<Longrightarrow>
     calculateMeasurementResultsDownloadUpload lib cmd ps w = Inl IndexBeyondEnd"
  by (simp add: evaluation_defs)

lemma calculate_throws:
  assumes "speed_test w" "1 \<le> max_steps_of w" "\<forall>p\<in>set ps. stream_view w p \<noteq> None"
    "\<exists>p\<in>set ps. \<not> stream_readable w (max_steps_of w) 1 (clock w (clock_pos w)) p"
  shows "calculateMeasurementResultsDownloadUpload lib cmd ps w = Inl OutOfRange"
proof -
  have "[1..max_steps_of w] = 1 # [2..max_steps_of w]" using assms(2) by (simp add: upto.simps)
  then show ?thesis
    using calc_steps_throws [OF assms(1) _ assms(2,3,4)]
    by (simp add: evaluation_defs)
qed

section \<open>What any evaluation leaves alone\<close>

text \<open>The frame facts without assumptions on the inputs, for every run that does not throw.\<close>

lemma read_stream_frame:
  assumes "read_stream lib cmd current p w = Inr (x, v)"
  shows "only_stamped w v"
proof -
  consider d where "conf_sTestName w = ''download''" "dl_heap w p = Some d"
    | u where "conf_sTestName w \<noteq> ''download''" "conf_sTestName w = ''upload''" "ul_heap w p = Some u"
    | "\<not> speed_test w"
    using assms by (auto simp: read_stream_def deref_def speed_test_def split: option.splits if_splits)
  then show ?thesis
  proof cases
    case 1
    obtain d' w' where s: "stamp_stream ''download_start'' ''download_end'' cmd current d w = (d', w')"
      by fastforce
    then show ?thesis
      using assms 1 stamp_stream_world [OF s]
      by (auto simp: read_stream_def deref_def only_stamped_def erase_stamps_def split: if_splits)
  next
    case 2
    obtain d' w' where s: "stamp_stream ''upload_start'' ''upload_end'' cmd current u w = (d', w')"
      by fastforce
    then show ?thesis
      using assms 2 stamp_stream_world [OF s]
      by (auto simp: read_stream_def deref_def only_stamped_def erase_stamps_def split: if_splits)
  next
    case 3
    then show ?thesis
      using assms by (auto simp: read_stream_def speed_test_def only_stamped_refl)
  qed
qed

lemma calc_thread_frame:
  "calc_thread lib cmd current ms step p (a, per, w) = Inr (a', per', v) \<Longrightarrow> only_stamped w v"
proof (cases "read_stream lib cmd current p w")
  case (Inr y)
  obtain data slow rel counts w1 where y: "y = ((data, slow, rel, counts), w1)" by (cases y) auto
  assume "calc_thread lib cmd current ms step p (a, per, w) = Inr (a', per', v)"
  then have "v = w1"
    by (simp add: calc_thread_def Inr y Let_def case_prod_beta) (auto simp: res_simps)
  then show "only_stamped w v" using read_stream_frame Inr y by blast
qed (simp add: calc_thread_def)

lemma calc_threads_frame:
  "calc_threads lib cmd current ms step ps (a, per, w) = Inr (a', per', v) \<Longrightarrow> only_stamped w v"
proof (induction ps arbitrary: a per w)
  case Nil
  then show ?case by (simp add: only_stamped_refl)
next
  case (Cons p ps)
  then obtain a1 per1 w1 where
    "calc_thread lib cmd current ms step p (a, per, w) = Inr (a1, per1, w1)"
    "calc_threads lib cmd current ms step ps (a1, per1, w1) = Inr (a', per', v)"
    by (auto simp: res_simps)
  then show ?case using Cons.IH calc_thread_frame only_stamped_trans by blast
qed

lemma calc_step_frame:
  assumes "calc_step lib cmd ms ps step (res, per, w) = Inr (res', per', v)"
  shows "\<exists>b. only_evaluated b w v"
proof -
  let ?w1 = "w\<lparr>clock_pos := Suc (clock_pos w)\<rparr>"
  obtain a per1 w2 where t: "calc_threads lib cmd (clock w (clock_pos w)) ms step ps
      (new_acc lib, per, ?w1) = Inr (a, per1, w2)"
    and v: "v = mark_dropped (agg_streams a = 0) w2"
    using assms by (auto simp: evaluation_defs get_timestamp_def res_simps Let_def mark_dropped_def
        split: if_splits)
  have "only_stamped w ?w1" by (simp add: only_stamped_def erase_stamps_def)
  then have "only_stamped w w2" using calc_threads_frame [OF t] by (rule only_stamped_trans)
  then show ?thesis unfolding v using stamped_evaluated by blast
qed

lemma calc_steps_frame:
  "calc_steps lib cmd ms ps steps (res, per, w) = Inr (res', per', v) \<Longrightarrow> \<exists>b. only_evaluated b w v"
proof (induction steps arbitrary: res per w)
  case Nil
  then show ?case using only_evaluated_refl by fastforce
next
  case (Cons step steps)
  then obtain r1 p1 w1 where
    "calc_step lib cmd ms ps step (res, per, w) = Inr (r1, p1, w1)"
    "calc_steps lib cmd ms ps steps (r1, p1, w1) = Inr (res', per', v)"
    by (auto simp: res_simps)
  then obtain b c where "only_evaluated b w w1" "only_evaluated c w1 v"
    using Cons.IH calc_step_frame by metis
  then show ?case using only_evaluated_trans by metis
qed

definition erase_published :: "'c world \<Rightarrow> 'c world" where
  "erase_published w = w\<lparr>jMeasurementResultsDownload := [], jMeasurementResultsDownloadStreams := [],
     jMeasurementResultsUpload := [], jMeasurementResultsUploadStreams := []\<rparr>"

lemma calculate_frame:
  assumes "calculateMeasurementResultsDownloadUpload lib cmd ps w = Inr v"
  shows "\<exists>b. only_evaluated b (erase_published w) (erase_published v)"
proof -
  obtain res per w1 where s: "calc_steps lib cmd (max_steps_of w) ps [1..max_steps_of w] ([], [], w)
      = Inr (res, per, w1)" and e: "erase_published v = erase_published w1"
    using assms by (auto simp: evaluation_defs res_simps
        erase_published_def split: if_splits)
  obtain b where o: "only_evaluated b w w1" using calc_steps_frame [OF s] by blast
  have "erase_eval (erase_published x) = erase_published (erase_eval x)" for x :: "'a world"
    by (simp add: erase_eval_def erase_stamps_def erase_published_def)
  then have "only_evaluated b (erase_published w) (erase_published w1)"
    using o by (simp add: only_evaluated_def) (simp add: erase_published_def)
  then show ?thesis unfolding e by blast
qed

end
