(* ===== verification/Sample.thy ===== *)
theory Sample
  imports World
begin

text \<open>
  A concrete instance of the library parameter and a concrete state, on which the properties
  with hypotheses are applied (the lemmas named \<open>\<dots>_witness\<close>). The configuration store
  always returns the defaults, tokenizing splits at the separator's first character, numbers
  are read in decimal.
\<close>

fun split_at :: "char \<Rightarrow> string \<Rightarrow> string list" where
  "split_at d [] = [[]]"
| "split_at d (c # cs) =
     (if c = d then [] # split_at d cs
      else (case split_at d cs of [] \<Rightarrow> [[c]] | t # ts \<Rightarrow> (c # t) # ts))"

definition data0 :: measurement_data where
  "data0 = \<lparr>results = [], results_timestamp = [], interim_values = [], avg = 0, data_min = 0,
     data_max = 0, median_ns = 0, standard_deviation_ns = 0, duration_ns = 0, datasize = 0,
     datasize_total = 0, datasize_slow_start = 0, starttime = 0, endtime = 0, totaltime = 0,
     packetsize = 0, requests = 0, replies = 0, missing = 0, errors = 0,
     measurement_phase_progress = 0\<rparr>"

definition lib0 :: "build_target \<Rightarrow> unit lib" where
  "lib0 t = \<lparr>target = t, readString = \<lambda>_ _ _ d. d, readLong = \<lambda>_ _ _ d. d,
     writeString = \<lambda>c _ _ _. c,
     calculateResults = \<lambda>m _ _ _. m\<lparr>avg := 0, interim_values := map (\<lambda>(k, v). real_of_int (uint v)) (results m)\<rparr>,
     validateIp = \<lambda>_. 4, toInt = \<lambda>s. int (dec_value s), toULL = \<lambda>s. of_nat (dec_value s),
     tokenize = \<lambda>s d. split_at (hd d) s, json_parse = \<lambda>_. (JNull, ''''), json_dump = \<lambda>_. '''',
     MAX_PACKET_SIZE = 4096, fresh_data = data0\<rparr>"

lemma lib0_simps [simp]:
  "target (lib0 t) = t" "readString (lib0 t) c s k d = d" "readLong (lib0 t) c s k n = n"
  "MAX_PACKET_SIZE (lib0 t) = 4096" "toULL (lib0 t) s = of_nat (dec_value s)"
  "tokenize (lib0 t) s d = split_at (hd d) s" "fresh_data (lib0 t) = data0"
  "validateIp (lib0 t) s = 4" "json_parse (lib0 t) s = (JNull, '''')"
  "toInt (lib0 t) s = int (dec_value s)" "writeString (lib0 t) c s k d = c"
  "calculateResults (lib0 t) m p i j =
     m\<lparr>avg := 0, interim_values := map (\<lambda>(k, v). real_of_int (uint v)) (results m)\<rparr>"
  by (simp_all add: lib0_def)

definition ctimer0 :: ctimer where
  "ctimer0 = \<lparr>mInstances = 1, unreachableSignaled = False, streamsDroppedSignaled = False,
     forbiddenSignaled = False, tlsParametersMissingSignaled = False, mInitialCallbackDelay = 0,
     timer_fStop = False, timer_pc = TimerOuter, time1 = 0, current_index = 0\<rparr>"

definition world0 :: "unit world" where
  "world0 = \<lparr>RUNNING = True, UNREACHABLE = False, STREAMS_DROPPED = False, FORBIDDEN = False,
     TLS_PARAMETERS_MISSING = False, PLATFORM = '''', CLIENT_OS = '''', TCP_STARTUP = 3000000,
     IP = True, RTT = True, DOWNLOAD = True, UPLOAD = True, hasError = False,
     TIMER_ACTIVE = False, TIMER_RUNNING = False, TIMER_STOPPED = False, TIMER_INDEX = 0,
     TIMER_INDEX_UPLOAD_FIRST = 0, TIMER_DURATION = 0, MEASUREMENT_DURATION = 10,
     TIMESTAMP_MEASUREMENT_START = 0, PERFORMED_IP = False, PERFORMED_RTT = False,
     PERFORMED_DOWNLOAD = False, PERFORMED_UPLOAD = False, conf_instances = 1,
     conf_nTestCase = 1, conf_sTestName = ''ip'', conf_sProvider = ''ias'',
     randomDataValues_size = 0, syncing_threads = [], currentTestPhase = INIT,
     measurements_streams = 0, measurements_upload_datasize = 0, DEBUG_FLAG = False,
     clock = \<lambda>n. of_nat n * 100, clock_pos = 0, out = [], trace = [], pXml = (),
     iosCallbackFunc_set = True, jMeasurementParameters = JNull, jMeasurementResultsTime = [],
     jMeasurementResultsPeer = [], jMeasurementResultsIp = [], jMeasurementResultsRttUdp = [],
     jMeasurementResultsDownload = [], jMeasurementResultsDownloadStreams = [],
     jMeasurementResultsUpload = [], jMeasurementResultsUploadStreams = [], mTestCase = 0,
     ipThread = None, pingThread = None, vDownloadThreads = [], vUploadThreads = [],
     ip_heap = Map.empty, ping_heap = Map.empty, dl_heap = Map.empty, ul_heap = Map.empty,
     next_ptr = 0, timer = ctimer0, main_pc = MainSelect 1\<rparr>"

lemma world0_simps [simp]:
  "RUNNING world0 = True" "UNREACHABLE world0 = False" "STREAMS_DROPPED world0 = False"
  "FORBIDDEN world0 = False" "TLS_PARAMETERS_MISSING world0 = False" "PLATFORM world0 = ''''"
  "CLIENT_OS world0 = ''''" "TCP_STARTUP world0 = 3000000" "IP world0 = True"
  "RTT world0 = True" "DOWNLOAD world0 = True" "UPLOAD world0 = True" "hasError world0 = False"
  "TIMER_ACTIVE world0 = False" "TIMER_RUNNING world0 = False" "TIMER_STOPPED world0 = False"
  "TIMER_INDEX world0 = 0" "TIMER_INDEX_UPLOAD_FIRST world0 = 0" "TIMER_DURATION world0 = 0"
  "MEASUREMENT_DURATION world0 = 10" "TIMESTAMP_MEASUREMENT_START world0 = 0"
  "PERFORMED_IP world0 = False" "PERFORMED_RTT world0 = False"
  "PERFORMED_DOWNLOAD world0 = False" "PERFORMED_UPLOAD world0 = False"
  "conf_instances world0 = 1" "conf_nTestCase world0 = 1" "conf_sTestName world0 = ''ip''"
  "conf_sProvider world0 = ''ias''" "randomDataValues_size world0 = 0"
  "syncing_threads world0 = []" "currentTestPhase world0 = INIT"
  "measurements_streams world0 = 0" "measurements_upload_datasize world0 = 0"
  "DEBUG_FLAG world0 = False" "clock world0 = (\<lambda>n. of_nat n * 100)" "clock_pos world0 = 0"
  "out world0 = []" "trace world0 = []" "pXml world0 = ()" "iosCallbackFunc_set world0 = True"
  "jMeasurementParameters world0 = JNull" "jMeasurementResultsTime world0 = []"
  "jMeasurementResultsPeer world0 = []" "jMeasurementResultsIp world0 = []"
  "jMeasurementResultsRttUdp world0 = []" "jMeasurementResultsDownload world0 = []"
  "jMeasurementResultsDownloadStreams world0 = []" "jMeasurementResultsUpload world0 = []"
  "jMeasurementResultsUploadStreams world0 = []" "mTestCase world0 = 0" "ipThread world0 = None"
  "pingThread world0 = None" "vDownloadThreads world0 = []" "vUploadThreads world0 = []"
  "ip_heap world0 = Map.empty" "ping_heap world0 = Map.empty" "dl_heap world0 = Map.empty"
  "ul_heap world0 = Map.empty" "next_ptr world0 = 0" "timer world0 = ctimer0"
  "main_pc world0 = MainSelect 1"
  by (simp_all add: world0_def)

definition thread0 :: test_thread where
  "thread0 = \<lparr>run_pc = RunReceive, dataReceived = False, pid = 7, measurementTimeStart = 50,
     measurementTimeEnd = 0, measurementTimeDuration = 0, mServer = ''h'', mServerName = ''n'',
     mClient = '''', m_fStop = False\<rparr>"

definition stream0 :: stream_thread where
  "stream0 = test_thread.extend thread0
     \<lparr>mPort = 80, mTls = 0, mResponse = 0, ipv6validated = False\<rparr>"

definition ip0 :: ip_test where
  "ip0 = stream_thread.extend stream0 \<lparr>ipResults = []\<rparr>"

definition speed0 :: speed_thread where
  "speed0 = stream_thread.extend stream0
     \<lparr>nHttpResponseDuration = 0, nHttpResponseReportValue = 0\<rparr>"

definition download0 :: download where
  "download0 = speed_thread.extend speed0 \<lparr>mTlsOverhead = 0, mDownload = data0\<rparr>"

definition upload0 :: upload where
  "upload0 = speed_thread.extend speed0 \<lparr>mUpload = data0, nDataRecv = 0, nTimeRecv = 0,
     nTimeRecvExa = 0, nTimeRecvExaFirst = 0, nTimeRecvFirst = 0, sender_stopped = False\<rparr>"

definition ping0 :: ping where
  "ping0 = test_thread.extend thread0 \<lparr>mPingPort = 80, mPingQuery = 11, mTimeDiff = 1,
     mPingResult = data0, nPingTarget = 10, nSize = 64, nErrors = 0, nMissing = 0, nReplies = 0,
     ping_i = 1, firstResponse = True\<rparr>"

lemmas sample_threads = thread0_def stream0_def ip0_def speed0_def download0_def upload0_def
  ping0_def test_thread.defs stream_thread.defs speed_thread.defs

lemmas sample_defs = world0_def ctimer0_def data0_def sample_threads

end
