(* ===== verification/Callback.thy ===== *)
theory Callback
  imports Results Sample
begin

text \<open>
  The class \<open>CCallback\<close> (\<open>src/src/callback.cpp\<close>): every event of a measurement goes through
  \<open>callback\<close>, which updates the results of the running test case and hands the collected
  results to the platform. The members of the one object are fields of \<open>world\<close>. The mutex
  \<open>mutex1\<close> makes the bodies of the three result functions atomic; here each is one function.
\<close>

section \<open>Construction\<close>

definition CCallback_new :: "json \<Rightarrow> 'c world \<Rightarrow> 'c world" where
  "CCallback_new params w =
     (let w1 = w\<lparr>jMeasurementParameters := params, jMeasurementResultsTime := [],
            jMeasurementResultsPeer := [], jMeasurementResultsIp := [],
            jMeasurementResultsRttUdp := [], jMeasurementResultsDownload := [],
            jMeasurementResultsDownloadStreams := [], jMeasurementResultsUpload := [],
            jMeasurementResultsUploadStreams := [], ipThread := None, pingThread := None,
            vDownloadThreads := [], vUploadThreads := []\<rparr>;
          (now, w2) = get_timestamp w1;
          start = i64 (uint (now * 1000))
      in w2\<lparr>TIMESTAMP_MEASUREMENT_START := start,
            jMeasurementResultsTime := obj_put ''measurement_start'' (JStr (to_string_int start)) []\<rparr>)"

section \<open>To the platform\<close>

definition put_obj :: "string \<Rightarrow> jobject \<Rightarrow> jobject \<Rightarrow> jobject" where
  "put_obj k v m = (if v = [] then m else obj_put k (JObj v) m)"

definition put_arr :: "string \<Rightarrow> json list \<Rightarrow> jobject \<Rightarrow> jobject" where
  "put_arr k v m = (if v = [] then m else obj_put k (JArr v) m)"

definition platform_message :: "string \<Rightarrow> string \<Rightarrow> int \<Rightarrow> string \<Rightarrow> 'c world \<Rightarrow> jobject" where
  "platform_message cmd msg error_code error_description w =
     (let m0 = obj_put ''test_case'' (JStr (conf_sTestName w))
                 (obj_put ''msg'' (JStr msg) (obj_put ''cmd'' (JStr cmd) []));
          m1 = (if error_code \<noteq> 0
                then obj_put ''error_description'' (JStr error_description)
                       (obj_put ''error_code'' (JNum (of_int error_code)) m0)
                else m0);
          m2 = put_obj ''ip_info'' (jMeasurementResultsIp w) m1;
          m3 = put_obj ''rtt_udp_info'' (jMeasurementResultsRttUdp w) m2;
          m4 = put_arr ''download_info'' (jMeasurementResultsDownload w) m3;
          m5 = put_arr ''download_raw_data'' (jMeasurementResultsDownloadStreams w) m4;
          m6 = put_arr ''upload_info'' (jMeasurementResultsUpload w) m5;
          m7 = put_arr ''upload_raw_data'' (jMeasurementResultsUploadStreams w) m6;
          m8 = put_obj ''time_info'' (jMeasurementResultsTime w) m7
      in put_obj ''peer_info'' (jMeasurementResultsPeer w) m8)"

definition platform_events :: "'c lib \<Rightarrow> string \<Rightarrow> jobject \<Rightarrow> 'c world \<Rightarrow> out_event list" where
  "platform_events lib cmd m w =
     (case target lib of
        Android \<Rightarrow>
          [PlatformCallback m] @
          (if currentTestPhase w = END then [PlatformFinished m] else []) @
          (if cmd = ''completed'' \<or> cmd = ''error'' then [DetachThread] else [])
      | Ios \<Rightarrow> (if iosCallbackFunc_set w then [IosCallback m] else [])
      | Desktop \<Rightarrow>
          (if PLATFORM w = ''desktop'' \<and> (CLIENT_OS w = ''linux'' \<or> CLIENT_OS w = ''macos'')
           then [DebugDump m] else []))"

definition callbackToPlatform ::
  "'c lib \<Rightarrow> string \<Rightarrow> string \<Rightarrow> int \<Rightarrow> string \<Rightarrow> 'c world \<Rightarrow> 'c world" where
  "callbackToPlatform lib cmd msg error_code error_description w =
     (let m = platform_message cmd msg error_code error_description w
      in w\<lparr>out := out w @ platform_events lib cmd m w\<rparr>)"

section \<open>The results of the test cases\<close>

definition ipCallback :: "string \<Rightarrow> 'c world \<Rightarrow> fault + 'c world" where
  "ipCallback cmd w =
     res_map (\<lambda>(p, t).
       let (now, w1) = get_timestamp w;
           t1 = t\<lparr>measurementTimeDuration := now - measurementTimeStart t\<rparr>;
           (t2, w2) =
             (if cmd = ''finish'' then
                (let (e, w2) = get_timestamp w1;
                     t2 = t1\<lparr>measurementTimeEnd := e\<rparr>
                 in (t2, w2\<lparr>jMeasurementResultsTime := obj_put ''ip_end''
                       (JStr (to_string_u64 (measurementTimeEnd t2 * 1000))) (jMeasurementResultsTime w2)\<rparr>))
              else (t1, w1));
           w3 = w2\<lparr>ip_heap := (ip_heap w2)(p \<mapsto> t2),
                   jMeasurementResultsTime := obj_put ''ip_start''
                     (JStr (to_string_u64 (measurementTimeStart t2 * 1000))) (jMeasurementResultsTime w2)\<rparr>
       in if ipResults t2 = [] then w3
          else
            let client_v4 = string_value (obj_at (jMeasurementResultsIp w3) ''client_v4'')
            in w3\<lparr>jMeasurementResultsIp :=
                    (if client_v4 = [] then ipResults t2
                     else obj_put ''client_v4'' (JStr client_v4) (ipResults t2)),
                  TIMER_STOPPED := True\<rparr>)
       (deref (ip_heap w) (ipThread w))"

text \<open>The list of single round trip times, with the time stamps looked up from index 1 on.\<close>

fun rtt_list :: "imap \<Rightarrow> int \<Rightarrow> real list \<Rightarrow> json list" where
  "rtt_list stamps index [] = []"
| "rtt_list stamps index (rtt # rtts) =
     JObj [(''rtt_ns'', JNum (rtt * 1000)),
           (''relative_time_ns_measurement_start'', JStr (to_string_u64 (imap_at stamps index)))]
     # rtt_list stamps (index + 1) rtts"

text \<open>
  The progress is a quotient of \<open>float\<close>s; for a configured number of 0 it is 0 here, and infinite or
  no number in the code.
\<close>

definition ping_data :: "'c lib \<Rightarrow> ping \<Rightarrow> measurement_data" where
  "ping_data lib t =
     (let m0 = (new_data lib)\<lparr>results :=
                  fold (\<lambda>(k, v). imap_add k v) (results (mPingResult t)) (results (new_data lib))\<rparr>;
          m = calculateResults lib m0 1 0 0
      in m\<lparr>packetsize := nSize t,
           requests := i32 (nReplies t + nMissing t + nErrors t),
           replies := nReplies t, missing := nMissing t, errors := nErrors t,
           measurement_phase_progress :=
             of_int (i32 (nReplies t + nMissing t + nErrors t)) / of_int (nPingTarget t),
           starttime := measurementTimeStart t, endtime := measurementTimeEnd t,
           totaltime := measurementTimeDuration t\<rparr>)"

definition rtt_object :: "measurement_data \<Rightarrow> json list \<Rightarrow> jobject" where
  "rtt_object m rtts =
     [(''duration_ns'', JStr (to_string_u64 (totaltime m * 1000))),
      (''average_ns'', JStr (to_string_u64 (avg m * 1000))),
      (''median_ns'', JStr (to_string_u64 (median_ns m))),
      (''min_ns'', JStr (to_string_u64 (data_min m * 1000))),
      (''max_ns'', JStr (to_string_u64 (data_max m * 1000))),
      (''num_sent'', JStr (to_string_int (requests m))),
      (''num_received'', JStr (to_string_int (replies m))),
      (''num_error'', JStr (to_string_int (errors m))),
      (''num_missing'', JStr (to_string_int (missing m))),
      (''packet_size'', JStr (to_string_int (packetsize m))),
      (''standard_deviation_ns'', JStr (to_string_u64 (standard_deviation_ns m))),
      (''rtts'', JArr rtts),
      (''progress'', JNum (measurement_phase_progress m))]"

definition rttUdpCallback :: "'c lib \<Rightarrow> string \<Rightarrow> 'c world \<Rightarrow> fault + 'c world" where
  "rttUdpCallback lib cmd w =
     res_map (\<lambda>(p, t).
       let (now, w1) = get_timestamp w;
           t1 = t\<lparr>measurementTimeDuration := now - measurementTimeStart t\<rparr>;
           (t2, w2) =
             (if cmd = ''finish'' then
                (let (e, w2) = get_timestamp w1;
                     t2 = t1\<lparr>measurementTimeEnd := e\<rparr>
                 in (t2, w2\<lparr>jMeasurementResultsTime := obj_put ''rtt_udp_end''
                       (JStr (to_string_u64 (measurementTimeEnd t2 * 1000))) (jMeasurementResultsTime w2)\<rparr>))
              else (t1, w1));
           m = ping_data lib t2;
           rtts = rtt_list (results_timestamp (mPingResult t)) 1 (interim_values m)
       in w2\<lparr>ping_heap := (ping_heap w2)(p \<mapsto> t2),
             jMeasurementResultsTime := obj_put ''rtt_udp_start''
               (JStr (to_string_u64 (starttime m * 1000))) (jMeasurementResultsTime w2),
             jMeasurementResultsPeer := obj_put ''ip'' (JStr (mServer t2)) (jMeasurementResultsPeer w2),
             jMeasurementResultsRttUdp := rtt_object m rtts\<rparr>)
       (deref (ping_heap w) (pingThread w))"

definition downloadCallback :: "'c lib \<Rightarrow> string \<Rightarrow> 'c world \<Rightarrow> fault + 'c world" where
  "downloadCallback lib cmd w =
     calculateMeasurementResultsDownloadUpload lib cmd (vDownloadThreads w) w"

definition uploadCallback :: "'c lib \<Rightarrow> string \<Rightarrow> 'c world \<Rightarrow> fault + 'c world" where
  "uploadCallback lib cmd w =
     calculateMeasurementResultsDownloadUpload lib cmd (vUploadThreads w) w"

section \<open>The callback\<close>

definition all_performed :: "'a globals_scheme \<Rightarrow> bool" where
  "all_performed w \<longleftrightarrow> IP w = PERFORMED_IP w \<and> RTT w = PERFORMED_RTT w \<and>
     DOWNLOAD w = PERFORMED_DOWNLOAD w \<and> UPLOAD w = PERFORMED_UPLOAD w"

definition init_peer :: "'c world \<Rightarrow> 'c world" where
  "init_peer w =
     (if jMeasurementResultsPeer w = [] then
        w\<lparr>jMeasurementResultsPeer :=
           [(''url'', JStr (string_value (json_at (jMeasurementParameters w) ''wsTarget''))),
            (''port'', JStr (string_value (json_at (jMeasurementParameters w) ''wsTargetPort''))),
            (''tls'', JStr (string_value (json_at (jMeasurementParameters w) ''wsWss'')))]\<rparr>
      else w)"

text \<open>The four tests on \<open>mTestCase\<close> exclude each other, and no branch changes it.\<close>

definition test_case_callback :: "'c lib \<Rightarrow> string \<Rightarrow> 'c world \<Rightarrow> fault + 'c world" where
  "test_case_callback lib cmd w =
     (if mTestCase w = 1 then
        res_map (\<lambda>v. if cmd = ''finish'' then v\<lparr>PERFORMED_IP := True\<rparr> else v) (ipCallback cmd w)
      else if mTestCase w = 2 then
        res_map (\<lambda>v. if cmd = ''finish'' then v\<lparr>PERFORMED_RTT := True\<rparr> else v)
          (rttUdpCallback lib cmd w)
      else if mTestCase w = 3 then
        res_map (\<lambda>v. if cmd = ''finish'' then v\<lparr>PERFORMED_DOWNLOAD := True\<rparr> else v)
          (downloadCallback lib cmd w)
      else if mTestCase w = 4 then
        res_map (\<lambda>v. if cmd = ''finish'' then v\<lparr>PERFORMED_UPLOAD := True\<rparr> else v)
          (uploadCallback lib cmd w)
      else Inr w)"

text \<open>What \<open>callback\<close> does after the results are updated.\<close>

definition stamp_end :: "'c world \<Rightarrow> 'c world" where
  "stamp_end w =
     (if all_performed w then
        (let (now, v) = get_timestamp w
         in v\<lparr>jMeasurementResultsTime := obj_put ''measurement_end''
              (JStr (to_string_u64 (now * 1000))) (jMeasurementResultsTime v)\<rparr>)
      else w)"

definition report_to_platform ::
  "'c lib \<Rightarrow> string \<Rightarrow> string \<Rightarrow> int \<Rightarrow> string \<Rightarrow> 'c world \<Rightarrow> 'c world" where
  "report_to_platform lib cmd msg error_code error_description w =
     (let w2 = callbackToPlatform lib cmd msg error_code error_description (stamp_end w)
      in if cmd = ''finish'' \<and> all_performed w2
         then callbackToPlatform lib ''completed'' msg error_code error_description
                (w2\<lparr>currentTestPhase := END\<rparr>)
         else w2)"

definition callback ::
  "'c lib \<Rightarrow> string \<Rightarrow> string \<Rightarrow> int \<Rightarrow> string \<Rightarrow> 'c world \<Rightarrow> fault + 'c world" where
  "callback lib cmd msg error_code error_description w =
     (let w1 = init_peer (w\<lparr>trace := trace w @ [(cmd, msg)]\<rparr>)
      in res_map (report_to_platform lib cmd msg error_code error_description)
           (if cmd = ''report'' \<or> cmd = ''finish'' then test_case_callback lib cmd w1 else Inr w1))"

section \<open>What the callback leaves alone\<close>

text \<open>
  \<open>erase_cb\<close> removes all that \<open>callback\<close> may write; two worlds with the same erasure agree on
  everything else, in particular on \<open>RUNNING\<close>, on the timer and on the phase of its threads.
\<close>

definition erase_cb :: "'c world \<Rightarrow> 'c world" where
  "erase_cb w = w\<lparr>clock_pos := 0, out := [], trace := [],
     jMeasurementResultsTime := [], jMeasurementResultsPeer := [], jMeasurementResultsIp := [],
     jMeasurementResultsRttUdp := [], jMeasurementResultsDownload := [],
     jMeasurementResultsDownloadStreams := [], jMeasurementResultsUpload := [],
     jMeasurementResultsUploadStreams := [], ip_heap := Map.empty, ping_heap := Map.empty,
     dl_heap := Map.empty, ul_heap := Map.empty, hasError := False, STREAMS_DROPPED := False,
     TIMER_STOPPED := False, PERFORMED_IP := False, PERFORMED_RTT := False,
     PERFORMED_DOWNLOAD := False, PERFORMED_UPLOAD := False, currentTestPhase := INIT\<rparr>"

lemma erase_cb_frame:
  assumes "erase_cb v = erase_cb w"
  shows "RUNNING v = RUNNING w" "UNREACHABLE v = UNREACHABLE w" "FORBIDDEN v = FORBIDDEN w"
    "TLS_PARAMETERS_MISSING v = TLS_PARAMETERS_MISSING w" "TIMER_RUNNING v = TIMER_RUNNING w"
    "TIMER_ACTIVE v = TIMER_ACTIVE w" "TIMER_INDEX v = TIMER_INDEX w"
    "MEASUREMENT_DURATION v = MEASUREMENT_DURATION w" "timer v = timer w" "clock v = clock w"
    "main_pc v = main_pc w" "mTestCase v = mTestCase w" "IP v = IP w" "RTT v = RTT w"
    "DOWNLOAD v = DOWNLOAD w" "UPLOAD v = UPLOAD w" "syncing_threads v = syncing_threads w"
    "TIMER_DURATION v = TIMER_DURATION w" "iosCallbackFunc_set v = iosCallbackFunc_set w"
    "vDownloadThreads v = vDownloadThreads w" "vUploadThreads v = vUploadThreads w"
    "ipThread v = ipThread w" "pingThread v = pingThread w"
  using arg_cong [OF assms, of RUNNING] arg_cong [OF assms, of UNREACHABLE]
    arg_cong [OF assms, of FORBIDDEN] arg_cong [OF assms, of TLS_PARAMETERS_MISSING]
    arg_cong [OF assms, of TIMER_RUNNING] arg_cong [OF assms, of TIMER_ACTIVE]
    arg_cong [OF assms, of TIMER_INDEX] arg_cong [OF assms, of MEASUREMENT_DURATION]
    arg_cong [OF assms, of timer] arg_cong [OF assms, of clock] arg_cong [OF assms, of main_pc]
    arg_cong [OF assms, of mTestCase] arg_cong [OF assms, of IP] arg_cong [OF assms, of RTT]
    arg_cong [OF assms, of DOWNLOAD] arg_cong [OF assms, of UPLOAD]
    arg_cong [OF assms, of syncing_threads] arg_cong [OF assms, of TIMER_DURATION]
    arg_cong [OF assms, of iosCallbackFunc_set] arg_cong [OF assms, of vDownloadThreads]
    arg_cong [OF assms, of vUploadThreads] arg_cong [OF assms, of ipThread]
    arg_cong [OF assms, of pingThread]
  by (simp_all add: erase_cb_def)

text \<open>
  \<open>cb_effect w v\<close>: what every part of the callback guarantees about the rest. Objects are
  neither created nor deleted, errors and the stop of the timer are never taken back, and
  \<open>STREAMS_DROPPED\<close> comes with \<open>hasError\<close>.
\<close>

definition cb_effect :: "'c world \<Rightarrow> 'c world \<Rightarrow> bool" where
  "cb_effect w v \<longleftrightarrow> erase_cb v = erase_cb w \<and>
     dom (ip_heap v) = dom (ip_heap w) \<and> dom (ping_heap v) = dom (ping_heap w) \<and>
     dom (dl_heap v) = dom (dl_heap w) \<and> dom (ul_heap v) = dom (ul_heap w) \<and>
     clock_pos w \<le> clock_pos v \<and> (hasError w \<longrightarrow> hasError v) \<and>
     (TIMER_STOPPED w \<longrightarrow> TIMER_STOPPED v) \<and>
     (STREAMS_DROPPED w \<longrightarrow> STREAMS_DROPPED v) \<and>
     (STREAMS_DROPPED v \<longrightarrow> STREAMS_DROPPED w \<or> hasError v)"

lemma cb_effect_refl [simp]: "cb_effect w w"
  by (simp add: cb_effect_def)

lemma cb_effect_trans: "cb_effect u v \<Longrightarrow> cb_effect v w \<Longrightarrow> cb_effect u w"
  by (auto simp: cb_effect_def)

text \<open>The three result functions keep the trace, what was sent, and the flags of \<open>callback\<close>.\<close>

definition same_report :: "'c world \<Rightarrow> 'c world \<Rightarrow> bool" where
  "same_report w v \<longleftrightarrow> trace v = trace w \<and> out v = out w \<and> PERFORMED_IP v = PERFORMED_IP w \<and>
     PERFORMED_RTT v = PERFORMED_RTT w \<and> PERFORMED_DOWNLOAD v = PERFORMED_DOWNLOAD w \<and>
     PERFORMED_UPLOAD v = PERFORMED_UPLOAD w \<and> currentTestPhase v = currentTestPhase w"

lemma ipCallback_effect:
  assumes "ipCallback cmd w = Inr v"
  shows "cb_effect w v" "same_report w v"
proof -
  obtain p t where p: "ipThread w = Some p" "ip_heap w p = Some t"
    using assms by (auto simp: ipCallback_def res_simps)
  then have d: "insert p (dom (ip_heap w)) = dom (ip_heap w)" by auto
  show "cb_effect w v" "same_report w v"
    using assms p d
    by (auto simp: ipCallback_def deref_def get_timestamp_def Let_def cb_effect_def same_report_def
        erase_cb_def split: if_splits)
qed

lemma rttUdpCallback_effect:
  assumes "rttUdpCallback lib cmd w = Inr v"
  shows "cb_effect w v" "same_report w v"
proof -
  obtain p t where p: "pingThread w = Some p" "ping_heap w p = Some t"
    using assms by (auto simp: rttUdpCallback_def res_simps)
  then have d: "insert p (dom (ping_heap w)) = dom (ping_heap w)" by auto
  show "cb_effect w v" "same_report w v"
    using assms p d
    by (auto simp: rttUdpCallback_def deref_def get_timestamp_def Let_def cb_effect_def
        same_report_def erase_cb_def split: if_splits)
qed

lemma calculate_effect:
  assumes "calculateMeasurementResultsDownloadUpload lib cmd ps w = Inr v"
  shows "cb_effect w v" "same_report w v"
proof -
  obtain b where o: "only_evaluated b (erase_published w) (erase_published v)"
    using calculate_frame [OF assms] by blast
  then have e: "erase_eval (erase_published v) = erase_eval (erase_published w)"
    by (simp add: only_evaluated_def)
  have x: "erase_cb u = erase_cb (erase_eval (erase_published u))" for u :: "'a world"
    by (simp add: erase_cb_def erase_eval_def erase_stamps_def erase_published_def)
  have "erase_cb v = erase_cb w" using x [of v] x [of w] e by simp
  moreover have
    "(f :: 'a world \<Rightarrow> bool) (erase_eval (erase_published v)) = f (erase_eval (erase_published w))" for f
    using e by simp
  note f = this
  have "TIMER_STOPPED v = TIMER_STOPPED w" "ip_heap v = ip_heap w" "ping_heap v = ping_heap w"
    using f [of TIMER_STOPPED] arg_cong [OF e, of ip_heap] arg_cong [OF e, of ping_heap]
    by (simp_all add: erase_eval_def erase_stamps_def erase_published_def)
  ultimately show "cb_effect w v"
    using o by (auto simp: cb_effect_def only_evaluated_def erase_published_def)
  show "same_report w v"
    using f [of PERFORMED_IP] f [of PERFORMED_RTT] f [of PERFORMED_DOWNLOAD] f [of PERFORMED_UPLOAD]
      arg_cong [OF e, of trace] arg_cong [OF e, of out] arg_cong [OF e, of currentTestPhase]
    by (simp add: same_report_def erase_eval_def erase_stamps_def erase_published_def)
qed

section \<open>Every command passes through unchanged\<close>

text \<open>What one call of \<open>callback\<close> shows outside, apart from the results it attaches.\<close>

lemma cb_effect_hasError: "cb_effect w v \<Longrightarrow> hasError w \<Longrightarrow> hasError v"
  by (simp add: cb_effect_def)

lemma same_report_refl [simp]: "same_report w w"
  by (simp add: same_report_def)

definition flags_kept :: "string \<Rightarrow> int \<Rightarrow> 'c world \<Rightarrow> 'c world \<Rightarrow> bool" where
  "flags_kept cmd tc w v \<longleftrightarrow>
     PERFORMED_IP v = (PERFORMED_IP w \<or> cmd = ''finish'' \<and> tc = 1) \<and>
     PERFORMED_RTT v = (PERFORMED_RTT w \<or> cmd = ''finish'' \<and> tc = 2) \<and>
     PERFORMED_DOWNLOAD v = (PERFORMED_DOWNLOAD w \<or> cmd = ''finish'' \<and> tc = 3) \<and>
     PERFORMED_UPLOAD v = (PERFORMED_UPLOAD w \<or> cmd = ''finish'' \<and> tc = 4)"


lemma flags_updates:
  assumes "cb_effect w u" "same_report w u"
  shows "cb_effect w (u\<lparr>PERFORMED_IP := b\<rparr>)" "cb_effect w (u\<lparr>PERFORMED_RTT := b\<rparr>)"
    "cb_effect w (u\<lparr>PERFORMED_DOWNLOAD := b\<rparr>)" "cb_effect w (u\<lparr>PERFORMED_UPLOAD := b\<rparr>)"
    "trace u = trace w" "out u = out w" "currentTestPhase u = currentTestPhase w"
    "PERFORMED_IP u = PERFORMED_IP w" "PERFORMED_RTT u = PERFORMED_RTT w"
    "PERFORMED_DOWNLOAD u = PERFORMED_DOWNLOAD w" "PERFORMED_UPLOAD u = PERFORMED_UPLOAD w"
  using assms by (simp_all add: cb_effect_def erase_cb_def same_report_def)

definition case_effect :: "string \<Rightarrow> int \<Rightarrow> 'c world \<Rightarrow> 'c world \<Rightarrow> bool" where
  "case_effect cmd tc w v \<longleftrightarrow> cb_effect w v \<and> flags_kept cmd tc w v \<and> trace v = trace w \<and>
     out v = out w \<and> currentTestPhase v = currentTestPhase w"

lemma case_effect_finish:
  assumes "cb_effect w u" "same_report w u"
  shows "case_effect cmd 1 w (if cmd = ''finish'' then u\<lparr>PERFORMED_IP := True\<rparr> else u)"
    "case_effect cmd 2 w (if cmd = ''finish'' then u\<lparr>PERFORMED_RTT := True\<rparr> else u)"
    "case_effect cmd 3 w (if cmd = ''finish'' then u\<lparr>PERFORMED_DOWNLOAD := True\<rparr> else u)"
    "case_effect cmd 4 w (if cmd = ''finish'' then u\<lparr>PERFORMED_UPLOAD := True\<rparr> else u)"
  using assms(1) by (simp_all add: case_effect_def flags_kept_def flags_updates [OF assms])


lemma test_case_callback_effect:
  assumes "test_case_callback lib cmd w = Inr v"
  shows "case_effect cmd (mTestCase w) w v"
proof -
  consider "mTestCase w = 1" | "mTestCase w = 2" | "mTestCase w = 3" | "mTestCase w = 4"
    | "mTestCase w \<notin> {1, 2, 3, 4}" by blast
  then show ?thesis
  proof cases
    case 1
    then obtain u where u: "ipCallback cmd w = Inr u"
      "v = (if cmd = ''finish'' then u\<lparr>PERFORMED_IP := True\<rparr> else u)"
      using assms by (simp add: test_case_callback_def res_map_Inr_iff) blast
    show ?thesis unfolding 1 u(2) by (rule case_effect_finish(1) [OF ipCallback_effect [OF u(1)]])
  next
    case 2
    then obtain u where u: "rttUdpCallback lib cmd w = Inr u"
      "v = (if cmd = ''finish'' then u\<lparr>PERFORMED_RTT := True\<rparr> else u)"
      using assms by (simp add: test_case_callback_def res_map_Inr_iff) blast
    show ?thesis unfolding 2 u(2) by (rule case_effect_finish(2) [OF rttUdpCallback_effect [OF u(1)]])
  next
    case 3
    then obtain u where u: "downloadCallback lib cmd w = Inr u"
      "v = (if cmd = ''finish'' then u\<lparr>PERFORMED_DOWNLOAD := True\<rparr> else u)"
      using assms by (simp add: test_case_callback_def res_map_Inr_iff) blast
    show ?thesis unfolding 3 u(2)
      by (rule case_effect_finish(3) [OF calculate_effect [OF u(1) [unfolded downloadCallback_def]]])
  next
    case 4
    then obtain u where u: "uploadCallback lib cmd w = Inr u"
      "v = (if cmd = ''finish'' then u\<lparr>PERFORMED_UPLOAD := True\<rparr> else u)"
      using assms by (simp add: test_case_callback_def res_map_Inr_iff) blast
    show ?thesis unfolding 4 u(2)
      by (rule case_effect_finish(4) [OF calculate_effect [OF u(1) [unfolded uploadCallback_def]]])
  next
    case 5
    then have "v = w" using assms by (simp add: test_case_callback_def)
    then show ?thesis using 5 by (simp add: case_effect_def flags_kept_def)
  qed
qed


text \<open>
  The commands that reach the platform: the command of the call, followed by \<open>completed\<close> when
  a test case finishes and every wanted test case has been performed.
\<close>

definition delivered :: "'c lib \<Rightarrow> out_event list \<Rightarrow> string list" where
  "delivered lib es = map (\<lambda>e. string_value (obj_at
       (case e of PlatformCallback m \<Rightarrow> m | PlatformFinished m \<Rightarrow> m | IosCallback m \<Rightarrow> m
          | DebugDump m \<Rightarrow> m | DetachThread \<Rightarrow> []) ''cmd''))
     (filter (\<lambda>e. case e of PlatformCallback _ \<Rightarrow> True | IosCallback _ \<Rightarrow> True | _ \<Rightarrow> False) es)"

lemma obj_at_put_obj [simp]: "j \<noteq> k \<Longrightarrow> obj_at (put_obj k v m) j = obj_at m j"
  by (simp add: put_obj_def)

lemma obj_at_put_arr [simp]: "j \<noteq> k \<Longrightarrow> obj_at (put_arr k v m) j = obj_at m j"
  by (simp add: put_arr_def)

lemma platform_message_cmd:
  "obj_at (platform_message cmd msg code descr w) ''cmd'' = JStr cmd"
  "obj_at (platform_message cmd msg code descr w) ''msg'' = JStr msg"
  "code \<noteq> 0 \<Longrightarrow> obj_at (platform_message cmd msg code descr w) ''error_code'' = JNum (of_int code)"
  "code = 0 \<Longrightarrow> obj_at (platform_message cmd msg code descr w) ''error_code'' = JNull"
  by (simp_all add: platform_message_def Let_def del: obj_put.simps)

lemma delivered_events:
  assumes "target lib = Android \<or> target lib = Ios \<and> iosCallbackFunc_set w"
  shows "delivered lib (platform_events lib cmd (platform_message cmd msg code descr v) w) = [cmd]"
  using assms by (auto simp: delivered_def platform_events_def platform_message_cmd)


definition cb_out :: "'c world \<Rightarrow> 'c world \<Rightarrow> bool" where
  "cb_out w v \<longleftrightarrow> cb_effect w v \<and> PERFORMED_IP v = PERFORMED_IP w \<and>
     PERFORMED_RTT v = PERFORMED_RTT w \<and> PERFORMED_DOWNLOAD v = PERFORMED_DOWNLOAD w \<and>
     PERFORMED_UPLOAD v = PERFORMED_UPLOAD w \<and> trace v = trace w"

lemma callbackToPlatform_frame:
  "cb_out w (callbackToPlatform lib cmd msg code descr w)"
  "out (callbackToPlatform lib cmd msg code descr w) =
     out w @ platform_events lib cmd (platform_message cmd msg code descr w) w"
  "currentTestPhase (callbackToPlatform lib cmd msg code descr w) = currentTestPhase w"
  by (simp_all add: callbackToPlatform_def Let_def cb_out_def cb_effect_def erase_cb_def)

lemma cb_out_trans:
  assumes "cb_out u v" "cb_out v w"
  shows "cb_out u w"
  using assms cb_effect_trans [of u v w] by (simp add: cb_out_def)

lemma cb_out_erase: "cb_out w v \<Longrightarrow> erase_cb v = erase_cb w"
  by (simp add: cb_out_def cb_effect_def)

lemma cb_out_all_performed: "cb_out w v \<Longrightarrow> all_performed v = all_performed w"
  by (simp add: all_performed_def erase_cb_frame [OF cb_out_erase]) (simp add: cb_out_def)

lemma stamp_end_frame:
  "cb_out w (stamp_end w)" "out (stamp_end w) = out w"
  "currentTestPhase (stamp_end w) = currentTestPhase w"
  by (simp_all add: stamp_end_def get_timestamp_def Let_def cb_out_def cb_effect_def erase_cb_def)

lemma set_phase_frame: "cb_out w (w\<lparr>currentTestPhase := p\<rparr>)"
  by (simp add: cb_out_def cb_effect_def erase_cb_def)

text \<open>\<open>sent_by\<close>: what one call hands over when the state after the update is \<open>w\<close>.\<close>

lemma report_to_platform_effect:
  fixes w :: "'c world"
  defines "done \<equiv> (\<lambda>cmd. cmd = ''finish'' \<and> all_performed w)"
  shows "cb_out w (report_to_platform lib cmd msg code descr w)"
    "currentTestPhase (report_to_platform lib cmd msg code descr w) =
       (if done cmd then END else currentTestPhase w)"
    "target lib = Android \<or> target lib = Ios \<and> iosCallbackFunc_set w \<Longrightarrow>
       delivered lib (out (report_to_platform lib cmd msg code descr w)) =
         delivered lib (out w) @ [cmd] @ (if done cmd then [''completed''] else [])"
proof -
  let ?w1 = "stamp_end w"
  let ?w2 = "callbackToPlatform lib cmd msg code descr ?w1"
  let ?w3 = "?w2\<lparr>currentTestPhase := END\<rparr>"
  let ?w4 = "callbackToPlatform lib ''completed'' msg code descr ?w3"
  have c2: "cb_out w ?w2"
    using cb_out_trans [OF stamp_end_frame(1) callbackToPlatform_frame(1)] .
  have c3: "cb_out w ?w3" using cb_out_trans [OF c2 set_phase_frame] .
  have c4: "cb_out w ?w4" using cb_out_trans [OF c3 callbackToPlatform_frame(1)] .
  have r: "report_to_platform lib cmd msg code descr w = (if done cmd then ?w4 else ?w2)"
    using cb_out_all_performed [OF c2] by (simp add: report_to_platform_def Let_def done_def)
  show "cb_out w (report_to_platform lib cmd msg code descr w)" using c2 c4 by (simp add: r)
  show "currentTestPhase (report_to_platform lib cmd msg code descr w) =
       (if done cmd then END else currentTestPhase w)"
    by (simp add: r callbackToPlatform_frame stamp_end_frame)
  assume t: "target lib = Android \<or> target lib = Ios \<and> iosCallbackFunc_set w"
  have app: "delivered lib (xs @ ys) = delivered lib xs @ delivered lib ys" for xs ys
    by (simp add: delivered_def)
  have "iosCallbackFunc_set ?w1 = iosCallbackFunc_set w" "iosCallbackFunc_set ?w3 = iosCallbackFunc_set w"
    using erase_cb_frame [OF cb_out_erase [OF stamp_end_frame(1)]]
      erase_cb_frame [OF cb_out_erase [OF c3]] by simp_all
  then have d: "delivered lib (platform_events lib c (platform_message c msg code descr v) v) = [c]"
    if "v = ?w1 \<or> v = ?w3" for c v
    using delivered_events [of lib v c msg code descr v] t that by metis
  show "delivered lib (out (report_to_platform lib cmd msg code descr w)) =
         delivered lib (out w) @ [cmd] @ (if done cmd then [''completed''] else [])"
    by (simp add: r callbackToPlatform_frame(2) app d stamp_end_frame(2))
qed
section \<open>The contract of \<open>callback\<close>\<close>

lemma init_peer_effect:
  "cb_out w (init_peer w)" "out (init_peer w) = out w"
  "currentTestPhase (init_peer w) = currentTestPhase w" "mTestCase (init_peer w) = mTestCase w"
  by (simp_all add: init_peer_def cb_out_def cb_effect_def erase_cb_def)

definition completes :: "string \<Rightarrow> 'c world \<Rightarrow> bool" where
  "completes cmd v \<longleftrightarrow> cmd = ''finish'' \<and> all_performed v"

lemma callback_effect:
  assumes c: "callback lib cmd msg code descr w = Inr v"
  shows "cb_effect w v" "flags_kept cmd (mTestCase w) w v" "trace v = trace w @ [(cmd, msg)]"
    "currentTestPhase v = (if completes cmd v then END else currentTestPhase w)"
    "target lib = Android \<or> target lib = Ios \<and> iosCallbackFunc_set w \<Longrightarrow>
       delivered lib (out v) =
         delivered lib (out w) @ [cmd] @ (if completes cmd v then [''completed''] else [])"
proof -
  let ?w0 = "w\<lparr>trace := trace w @ [(cmd, msg)]\<rparr>"
  let ?w1 = "init_peer ?w0"
  have e0: "cb_effect w ?w0" by (simp add: cb_effect_def erase_cb_def)
  have e01: "cb_effect ?w0 ?w1" using init_peer_effect(1) [of ?w0] by (simp add: cb_out_def)
  have w1: "out ?w1 = out w" "currentTestPhase ?w1 = currentTestPhase w"
    "mTestCase ?w1 = mTestCase w" "trace ?w1 = trace w @ [(cmd, msg)]"
    "PERFORMED_IP ?w1 = PERFORMED_IP w" "PERFORMED_RTT ?w1 = PERFORMED_RTT w"
    "PERFORMED_DOWNLOAD ?w1 = PERFORMED_DOWNLOAD w" "PERFORMED_UPLOAD ?w1 = PERFORMED_UPLOAD w"
    using init_peer_effect [of ?w0] by (simp_all add: cb_out_def)
  obtain u where u: "(if cmd = ''report'' \<or> cmd = ''finish'' then test_case_callback lib cmd ?w1
      else Inr ?w1) = Inr u" "v = report_to_platform lib cmd msg code descr u"
    using c by (auto simp: callback_def Let_def res_map_Inr_iff)
  have k: "case_effect cmd (mTestCase w) ?w1 u"
  proof (cases "cmd = ''report'' \<or> cmd = ''finish''")
    case True
    then show ?thesis using u(1) test_case_callback_effect [of lib cmd ?w1 u] w1(3) by simp
  next
    case False
    then show ?thesis using u(1) by (simp add: case_effect_def flags_kept_def)
  qed
  have r: "cb_out u v" and rp: "currentTestPhase v =
      (if cmd = ''finish'' \<and> all_performed u then END else currentTestPhase u)"
    using report_to_platform_effect(1,2) [where w = u] by (simp_all add: u(2))
  have a: "all_performed v = all_performed u" by (rule cb_out_all_performed [OF r])
  show e: "cb_effect w v"
    using cb_effect_trans [OF cb_effect_trans [OF e0 e01] cb_effect_trans [of ?w1 u v]] k r
    by (simp add: case_effect_def cb_out_def)
  show "flags_kept cmd (mTestCase w) w v" "trace v = trace w @ [(cmd, msg)]"
    using k r w1 by (simp_all add: case_effect_def cb_out_def flags_kept_def)
  show "currentTestPhase v = (if completes cmd v then END else currentTestPhase w)"
    using k rp w1(2) by (simp add: completes_def a case_effect_def)
  assume t: "target lib = Android \<or> target lib = Ios \<and> iosCallbackFunc_set w"
  have "cb_effect w u"
    using cb_effect_trans [OF cb_effect_trans [OF e0 e01]] k by (simp add: case_effect_def)
  then have "erase_cb u = erase_cb w" by (simp add: cb_effect_def)
  then have "target lib = Android \<or> target lib = Ios \<and> iosCallbackFunc_set u"
    using t erase_cb_frame(19) [of u w] by simp
  then have "delivered lib (out v) = delivered lib (out u) @ [cmd] @
      (if cmd = ''finish'' \<and> all_performed u then [''completed''] else [])"
    unfolding u(2) by (rule report_to_platform_effect(3))
  moreover have "out u = out w" using k w1(1) by (simp add: case_effect_def)
  ultimately show "delivered lib (out v) =
      delivered lib (out w) @ [cmd] @ (if completes cmd v then [''completed''] else [])"
    by (simp only: completes_def a)
qed

section \<open>The interface to the timer\<close>

text \<open>
  What the timer relies on when it sends an event: the commands of the client are recorded in
  order, no object is created or deleted, errors and the stop of the timer are not taken back,
  and nothing else of the state moves.
\<close>

locale event_sink =
  fixes send :: "string \<Rightarrow> string \<Rightarrow> int \<Rightarrow> string \<Rightarrow> 'c world \<Rightarrow> fault + 'c world"
  assumes send_effect: "send cmd msg code descr w = Inr v \<Longrightarrow> cb_effect w v"
    and send_trace: "send cmd msg code descr w = Inr v \<Longrightarrow> trace v = trace w @ [(cmd, msg)]"
    and send_flags: "send cmd msg code descr w = Inr v \<Longrightarrow> flags_kept cmd (mTestCase w) w v"
begin

lemma send_frame:
  assumes "send cmd msg code descr w = Inr v"
  shows "RUNNING v = RUNNING w" "timer v = timer w" "TIMER_RUNNING v = TIMER_RUNNING w"
    "TIMER_INDEX v = TIMER_INDEX w" "TIMER_ACTIVE v = TIMER_ACTIVE w"
    "MEASUREMENT_DURATION v = MEASUREMENT_DURATION w" "syncing_threads v = syncing_threads w"
    "main_pc v = main_pc w" "mTestCase v = mTestCase w" "UNREACHABLE v = UNREACHABLE w"
    "FORBIDDEN v = FORBIDDEN w" "TLS_PARAMETERS_MISSING v = TLS_PARAMETERS_MISSING w"
    "TIMER_DURATION v = TIMER_DURATION w" "IP v = IP w" "RTT v = RTT w"
    "DOWNLOAD v = DOWNLOAD w" "UPLOAD v = UPLOAD w"
  using erase_cb_frame [of v w] send_effect [OF assms] by (simp_all add: cb_effect_def)

lemma send_monotone:
  assumes "send cmd msg code descr w = Inr v"
  shows "hasError w \<Longrightarrow> hasError v" "TIMER_STOPPED w \<Longrightarrow> TIMER_STOPPED v"
    "STREAMS_DROPPED w \<Longrightarrow> STREAMS_DROPPED v"
  using send_effect [OF assms] by (simp_all add: cb_effect_def)

lemma send_heaps:
  assumes "send cmd msg code descr w = Inr v"
  shows "dom (ip_heap v) = dom (ip_heap w)" "dom (ping_heap v) = dom (ping_heap w)"
    "dom (dl_heap v) = dom (dl_heap w)" "dom (ul_heap v) = dom (ul_heap w)"
  using send_effect [OF assms] by (simp_all add: cb_effect_def)

lemma send_discipline:
  assumes "send cmd msg code descr w = Inr v" "error_discipline w"
  shows "error_discipline v"
  using send_effect [OF assms(1)] send_frame [OF assms(1)] assms(2)
  by (auto simp: error_discipline_def error_flags_def cb_effect_def)

lemma send_performed:
  assumes "send cmd msg code descr w = Inr v" "cmd \<noteq> ''finish''"
  shows "PERFORMED_IP v = PERFORMED_IP w" "PERFORMED_RTT v = PERFORMED_RTT w"
    "PERFORMED_DOWNLOAD v = PERFORMED_DOWNLOAD w" "PERFORMED_UPLOAD v = PERFORMED_UPLOAD w"
  using send_flags [OF assms(1)] assms(2) by (simp_all add: flags_kept_def)

end

interpretation cb: event_sink "callback lib"
  by unfold_locales (blast dest: callback_effect)+

section \<open>Properties\<close>

text \<open>C21: Every call of \<open>callback\<close> that returns on a mobile build hands over exactly its own
  command, followed by \<open>completed\<close> when it finishes a test case and every wanted test case has
  been performed; only then the phase becomes \<open>END\<close>. The debug trace gets the one entry.\<close>

theorem callback_delivers:
  assumes "callback lib cmd msg code descr w = Inr v"
    and "target lib = Android \<or> target lib = Ios \<and> iosCallbackFunc_set w"
  shows "delivered lib (out v) =
           delivered lib (out w) @ [cmd] @ (if completes cmd v then [''completed''] else [])
         \<and> trace v = trace w @ [(cmd, msg)]
         \<and> (currentTestPhase v = END \<longleftrightarrow> completes cmd v \<or> currentTestPhase w = END)"
  using callback_effect(3,4) [OF assms(1)] callback_effect(5) [OF assms(1)] assms(2) by simp

text \<open>C22: A call of \<open>callback\<close> sets a \<open>PERFORMED_\<close> flag only with \<open>finish\<close>, only the flag of
  the running test case, and clears none; errors are not taken back and the state of the timer
  and of the main thread is not touched.\<close>

theorem callback_keeps:
  assumes "callback lib cmd msg code descr w = Inr v"
  shows "flags_kept cmd (mTestCase w) w v \<and> (hasError w \<longrightarrow> hasError v)
         \<and> (error_discipline w \<longrightarrow> error_discipline v)
         \<and> RUNNING v = RUNNING w \<and> timer v = timer w \<and> TIMER_INDEX v = TIMER_INDEX w
         \<and> main_pc v = main_pc w \<and> dom (dl_heap v) = dom (dl_heap w) \<and> dom (ul_heap v) = dom (ul_heap w)"
  using callback_effect(2) [OF assms] cb.send_monotone(1) [OF assms] cb.send_frame [OF assms]
    cb.send_discipline [OF assms] cb.send_heaps [OF assms] by blast

text \<open>A result list keeps the order of the round trip times; entry \<open>n\<close> looks up \<open>index + n\<close>.\<close>

lemma rtt_list_nth:
  "n < length rtts \<Longrightarrow> rtt_list stamps index rtts ! n =
     JObj [(''rtt_ns'', JNum (rtts ! n * 1000)),
           (''relative_time_ns_measurement_start'', JStr (to_string_u64 (imap_at stamps (index + int n))))]"
proof (induction rtts arbitrary: index n)
  case (Cons r rtts)
  then show ?case by (cases n) (simp_all add: algebra_simps)
qed simp

lemma rtt_list_length [simp]: "length (rtt_list stamps index rtts) = length rtts"
  by (induction rtts arbitrary: index) simp_all

text \<open>\<open>ipCallback\<close> stops the timer exactly when the IP test has a result, and merges that
  result: a \<open>client_v4\<close> known before survives, every other entry is the test's.\<close>

lemma ipCallback_merges:
  assumes "ipCallback cmd w = Inr v" "deref (ip_heap w) (ipThread w) = Inr (p, t)"
    and "ipResults t \<noteq> []"
  shows "TIMER_STOPPED v
    \<and> (\<forall>k. obj_at (jMeasurementResultsIp v) k =
         (if k = ''client_v4'' \<and> string_value (obj_at (jMeasurementResultsIp w) k) \<noteq> ''''
          then JStr (string_value (obj_at (jMeasurementResultsIp w) k))
          else obj_at (ipResults t) k))"
  using assms by (auto simp: ipCallback_def get_timestamp_def Let_def split: if_splits)

lemma callback_delivers_witness:
  "\<exists>v. callback (lib0 Android) ''finish'' ''m'' 0 '''' (world0\<lparr>IP := False, RTT := False,
         DOWNLOAD := False, UPLOAD := False\<rparr>) = Inr v
     \<and> delivered (lib0 Android) (out v) = [''finish'', ''completed'']"
proof -
  let ?w = "world0\<lparr>IP := False, RTT := False, DOWNLOAD := False, UPLOAD := False\<rparr>"
  obtain v where c: "callback (lib0 Android) ''finish'' ''m'' 0 '''' ?w = Inr v"
    by (simp add: callback_def test_case_callback_def init_peer_effect Let_def)
  have "completes ''finish'' v"
    using callback_effect(2) [OF c] cb.send_frame(14-17) [OF c]
    by (simp add: completes_def all_performed_def flags_kept_def)
  then show ?thesis using c callback_delivers [OF c] by (simp add: delivered_def)
qed

lemma callback_keeps_witness:
  "\<exists>v. callback (lib0 Ios) ''finish'' ''m'' 0 ''''
         (world0\<lparr>mTestCase := 1, ipThread := Some 3, ip_heap := [3 \<mapsto> ip0], hasError := True\<rparr>) = Inr v
     \<and> PERFORMED_IP v \<and> \<not> PERFORMED_RTT v \<and> hasError v"
proof -
  let ?w = "world0\<lparr>mTestCase := 1, ipThread := Some 3, ip_heap := [3 \<mapsto> ip0], hasError := True\<rparr>"
  obtain v where c: "callback (lib0 Ios) ''finish'' ''m'' 0 '''' ?w = Inr v"
    by (simp add: callback_def test_case_callback_def init_peer_def Let_def ipCallback_def deref_def)
  then show ?thesis using callback_keeps [OF c] by (simp add: flags_kept_def)
qed

end
