(* ===== verification/Timer.thy ===== *)
theory Timer
  imports Callback
begin

text \<open>
  The class \<open>CTimer\<close> (\<open>src/src/timer.cpp\<close>): the thread that waits until all streams
  are in step, measures the time, and sends every event of a test case to the callback object.

  \<open>timer_step\<close> is one step of \<open>CTimer::run\<close>; \<open>timer_pc\<close> says where the thread is: before the
  condition of the outer loop, in the start delay, before the body of the inner loop, before the
  condition of the inner loop, behind the outer loop, or ended. A \<open>usleep\<close> is a step boundary.
  Between two steps the other threads may change the globals.
\<close>

section \<open>Construction\<close>

definition CTimer_new :: "int \<Rightarrow> u64 \<Rightarrow> 'c world \<Rightarrow> 'c world" where
  "CTimer_new nInstances nInitialCallbackDelay w =
     w\<lparr>timer := \<lparr>mInstances = nInstances, unreachableSignaled = False,
                streamsDroppedSignaled = False, forbiddenSignaled = False,
                tlsParametersMissingSignaled = False,
                mInitialCallbackDelay = nInitialCallbackDelay, timer_fStop = False,
                timer_pc = TimerOuter, time1 = 0, current_index = 0\<rparr>,
       TIMER_ACTIVE := True, TIMER_RUNNING := False, TIMER_STOPPED := False,
       TIMER_INDEX := 0, TIMER_INDEX_UPLOAD_FIRST := 0, TIMER_DURATION := 0,
       MEASUREMENT_DURATION := 0\<rparr>"

section \<open>The thread\<close>

definition set_pc :: "timer_pc \<Rightarrow> 'c world \<Rightarrow> 'c world" where
  "set_pc pc w = w\<lparr>timer := (timer w)\<lparr>timer_pc := pc\<rparr>\<rparr>"

definition sync_counter :: "'a globals_scheme \<Rightarrow> int" where
  "sync_counter w = int (length (filter (\<lambda>(k, v). v = 1) (syncing_threads w)))"

definition loop_condition :: "'c world \<Rightarrow> bool" where
  "loop_condition w \<longleftrightarrow> RUNNING w \<and> \<not> TIMER_STOPPED w \<and> \<not> timer_fStop (timer w)"

text \<open>An error of the measurement: report it once, stop the timer, leave the loop.\<close>

definition signal_error :: "'c lib \<Rightarrow> string \<Rightarrow> int \<Rightarrow> timer_pc \<Rightarrow> 'c world \<Rightarrow> fault + 'c world" where
  "signal_error lib msg code pc w =
     res_map (\<lambda>v. set_pc pc (v\<lparr>TIMER_STOPPED := True\<rparr>)) (callback lib ''error'' msg code msg w)"

text \<open>
  The outer loop. The test on \<open>m_fStop\<close> at the end of its body leaves the loop just as the
  loop's condition, which follows it, does.
\<close>

definition outer_step :: "'c lib \<Rightarrow> 'c world \<Rightarrow> fault + 'c world" where
  "outer_step lib w =
     (if \<not> loop_condition w then Inr (set_pc TimerLeft w)
      else if UNREACHABLE w \<and> \<not> unreachableSignaled (timer w) then
        signal_error lib ''no connection to measurement peer'' 7 TimerLeft
          (w\<lparr>timer := (timer w)\<lparr>unreachableSignaled := True\<rparr>\<rparr>)
      else if FORBIDDEN w \<and> \<not> forbiddenSignaled (timer w) then
        signal_error lib ''forbidden'' 4 TimerLeft
          (w\<lparr>timer := (timer w)\<lparr>forbiddenSignaled := True\<rparr>\<rparr>)
      else if TLS_PARAMETERS_MISSING w \<and> \<not> tlsParametersMissingSignaled (timer w) then
        signal_error lib ''TLS parameters missing'' 8 TimerLeft
          (w\<lparr>timer := (timer w)\<lparr>tlsParametersMissingSignaled := True\<rparr>\<rparr>)
      else if \<not> TIMER_RUNNING w then
        (if sync_counter w = mInstances (timer w) then
           res_map (set_pc TimerDelay) (callback lib ''info'' ''starting measurement'' 0 '''' w)
         else Inr (set_pc TimerOuter w))
      else Inr (set_pc TimerBody (w\<lparr>timer := (timer w)\<lparr>current_index := 0\<rparr>\<rparr>)))"

text \<open>Behind \<open>usleep(mInitialCallbackDelay)\<close>: the measurement starts.\<close>

definition delay_step :: "'c lib \<Rightarrow> 'c world \<Rightarrow> fault + 'c world" where
  "delay_step lib w =
     res_map (\<lambda>v.
         let (now, v1) = get_timestamp (v\<lparr>TIMER_RUNNING := True\<rparr>)
         in set_pc TimerOuter (v1\<lparr>timer := (timer v1)\<lparr>time1 := now\<rparr>\<rparr>))
       (callback lib ''info'' ''measurement started'' 0 '''' w)"

text \<open>The clock part of the inner body.\<close>

definition advance_timer :: "'c world \<Rightarrow> 'c world" where
  "advance_timer w =
     (let (time2, w1) = get_timestamp w;
          time_diff = time2 - time1 (timer w1);
          w2 = w1\<lparr>TIMER_DURATION := i32 (uint time_diff)\<rparr>
      in if MEASUREMENT_DURATION w2 \<le> time_diff div 1000000
         then w2\<lparr>TIMER_STOPPED := True\<rparr>
         else w2\<lparr>TIMER_INDEX := i32 (uint (time_diff div 500000))\<rparr>)"

text \<open>
  The inner \<open>do\<close> loop: the body, then the condition behind \<open>usleep(100)\<close>. Dropped streams
  leave it at once.
\<close>

definition body_step :: "'c lib \<Rightarrow> 'c world \<Rightarrow> fault + 'c world" where
  "body_step lib w =
     (if STREAMS_DROPPED w \<and> \<not> streamsDroppedSignaled (timer w) then
        signal_error lib ''measurement streams dropped'' 9 TimerOuter
          (w\<lparr>timer := (timer w)\<lparr>streamsDroppedSignaled := True\<rparr>\<rparr>)
      else
        let w1 = advance_timer w
        in if TIMER_INDEX w1 \<noteq> current_index (timer w1) then
             res_map (set_pc TimerInner)
               (callback lib ''report'' ''measurement report'' 0 ''''
                  (w1\<lparr>timer := (timer w1)\<lparr>current_index := TIMER_INDEX w1\<rparr>\<rparr>))
           else Inr (set_pc TimerInner w1))"

definition inner_step :: "'c world \<Rightarrow> 'c world" where
  "inner_step w = set_pc (if loop_condition w then TimerBody else TimerOuter) w"

definition left_step :: "'c lib \<Rightarrow> 'c world \<Rightarrow> fault + 'c world" where
  "left_step lib w =
     res_map (\<lambda>v. set_pc TimerDone (v\<lparr>TIMER_ACTIVE := False\<rparr>))
       (if RUNNING w \<and> \<not> hasError w
        then callback lib ''finish'' ''measurement completed'' 0 '''' w else Inr w)"

definition timer_step :: "'c lib \<Rightarrow> 'c world \<Rightarrow> fault + 'c world" where
  "timer_step lib w =
     (case timer_pc (timer w) of
        TimerOuter \<Rightarrow> outer_step lib w
      | TimerDelay \<Rightarrow> delay_step lib w
      | TimerBody \<Rightarrow> body_step lib w
      | TimerInner \<Rightarrow> Inr (inner_step w)
      | TimerLeft \<Rightarrow> left_step lib w
      | TimerDone \<Rightarrow> Inr w)"

section \<open>One step\<close>

text \<open>What the other threads may do between two steps of the timer: they never touch the timer's
  own data, its trace or \<open>TIMER_RUNNING\<close>, and take back neither a stop nor an error.\<close>

definition others_step :: "'c world \<Rightarrow> 'c world \<Rightarrow> bool" where
  "others_step w v \<longleftrightarrow> timer v = timer w \<and> trace v = trace w \<and> TIMER_RUNNING v = TIMER_RUNNING w \<and>
     (TIMER_STOPPED w \<longrightarrow> TIMER_STOPPED v) \<and> (hasError w \<longrightarrow> hasError v) \<and>
     (RUNNING v \<longrightarrow> RUNNING w) \<and> (error_discipline w \<longrightarrow> error_discipline v)"

lemma others_step_refl [simp]: "others_step w w"
  by (simp add: others_step_def)

text \<open>The timer thread together with the others: \<open>n\<close> counts the timer's steps.\<close>

inductive timer_exec :: "'c lib \<Rightarrow> nat \<Rightarrow> 'c world \<Rightarrow> 'c world \<Rightarrow> bool" for lib where
  start: "timer_exec lib 0 w w"
| others: "timer_exec lib n w u \<Longrightarrow> others_step u v \<Longrightarrow> timer_exec lib n w v"
| timer: "timer_exec lib n w u \<Longrightarrow> timer_step lib u = Inr v \<Longrightarrow> timer_exec lib (Suc n) w v"

lemma discipline_updates [simp]:
  "error_discipline (w\<lparr>TIMER_STOPPED := b\<rparr>) = error_discipline w"
  "error_discipline (w\<lparr>TIMER_RUNNING := b\<rparr>) = error_discipline w"
  "error_discipline (w\<lparr>TIMER_ACTIVE := b\<rparr>) = error_discipline w"
  "error_discipline (w'\<lparr>timer := t\<rparr>) = error_discipline w'"
  "error_discipline (w'\<lparr>clock_pos := n\<rparr>) = error_discipline w'"
  by (simp_all add: error_discipline_def error_flags_def)

lemma set_pc_frame [simp]:
  "timer_pc (timer (set_pc pc w)) = pc" "time1 (timer (set_pc pc w)) = time1 (timer w)"
  "current_index (timer (set_pc pc w)) = current_index (timer w)"
  "timer_fStop (timer (set_pc pc w)) = timer_fStop (timer w)"
  "RUNNING (set_pc pc w) = RUNNING w" "TIMER_STOPPED (set_pc pc w) = TIMER_STOPPED w"
  "TIMER_RUNNING (set_pc pc w) = TIMER_RUNNING w" "TIMER_INDEX (set_pc pc w) = TIMER_INDEX w"
  "TIMER_ACTIVE (set_pc pc w) = TIMER_ACTIVE w" "hasError (set_pc pc w) = hasError w"
  "trace (set_pc pc w) = trace w" "error_discipline (set_pc pc w) = error_discipline w"
  "MEASUREMENT_DURATION (set_pc pc w) = MEASUREMENT_DURATION w"
  "loop_condition (set_pc pc w) = loop_condition w" "out (set_pc pc w) = out w"
  "PERFORMED_IP (set_pc pc w) = PERFORMED_IP w" "PERFORMED_RTT (set_pc pc w) = PERFORMED_RTT w"
  "PERFORMED_DOWNLOAD (set_pc pc w) = PERFORMED_DOWNLOAD w"
  "PERFORMED_UPLOAD (set_pc pc w) = PERFORMED_UPLOAD w" "clock_pos (set_pc pc w) = clock_pos w"
  by (simp_all add: set_pc_def loop_condition_def)

text \<open>
  \<open>event w e v\<close>: \<open>v\<close> is \<open>w\<close> after one event, or none. It lists what a step of the timer does
  to the trace and to the flags, whatever the branch.
\<close>

definition sends :: "'c world \<Rightarrow> (string \<times> string) list \<Rightarrow> 'c world \<Rightarrow> bool" where
  "sends w es v \<longleftrightarrow> trace v = trace w @ es \<and> RUNNING v = RUNNING w \<and>
     (hasError w \<longrightarrow> hasError v) \<and> (TIMER_STOPPED w \<longrightarrow> TIMER_STOPPED v) \<and>
     (error_discipline w \<longrightarrow> error_discipline v) \<and>
     timer_fStop (timer v) = timer_fStop (timer w)"

lemma callback_sends:
  assumes "callback lib cmd msg code descr w = Inr v"
  shows "sends w [(cmd, msg)] v"
  using cb.send_trace [OF assms] cb.send_frame [OF assms] cb.send_monotone [OF assms]
    cb.send_discipline [OF assms] by (simp add: sends_def)

lemma sends_loop: "sends w es v \<Longrightarrow> \<not> loop_condition w \<Longrightarrow> \<not> loop_condition v"
  by (auto simp: sends_def loop_condition_def)

lemma signal_error_effect:
  assumes "signal_error lib msg code pc w = Inr v"
  shows "sends w [(''error'', msg)] v" "timer_pc (timer v) = pc" "TIMER_STOPPED v"
    "TIMER_RUNNING v = TIMER_RUNNING w"
proof -
  obtain u where u: "callback lib ''error'' msg code msg w = Inr u"
    "v = set_pc pc (u\<lparr>TIMER_STOPPED := True\<rparr>)"
    using assms by (auto simp: signal_error_def res_map_Inr_iff)
  show "sends w [(''error'', msg)] v" "timer_pc (timer v) = pc" "TIMER_STOPPED v"
    "TIMER_RUNNING v = TIMER_RUNNING w"
    using callback_sends [OF u(1)] cb.send_frame(3) [OF u(1)]
    by (simp_all add: u(2) sends_def)
qed

lemma advance_timer_frame [simp]:
  "trace (advance_timer w) = trace w" "RUNNING (advance_timer w) = RUNNING w"
  "hasError (advance_timer w) = hasError w" "timer (advance_timer w) = timer w"
  "TIMER_RUNNING (advance_timer w) = TIMER_RUNNING w"
  "TIMER_STOPPED w \<Longrightarrow> TIMER_STOPPED (advance_timer w)"
  "error_discipline (advance_timer w) = error_discipline w"
  "MEASUREMENT_DURATION (advance_timer w) = MEASUREMENT_DURATION w"
  by (simp_all add: advance_timer_def get_timestamp_def Let_def error_discipline_def error_flags_def)

lemma sends_simps:
  "sends w es (set_pc pc v) = sends w es v"
  "sends w es (v\<lparr>TIMER_RUNNING := b\<rparr>) = sends w es v"
  "sends w es (v\<lparr>TIMER_ACTIVE := b\<rparr>) = sends w es v"
  "sends w es (v\<lparr>clock_pos := n\<rparr>) = sends w es v"
  "sends w es (v\<lparr>timer := (timer v)\<lparr>time1 := t\<rparr>\<rparr>) = sends w es v"
  "sends w es (v\<lparr>timer := (timer v)\<lparr>current_index := i\<rparr>\<rparr>) = sends w es v"
  "sends (w\<lparr>timer := (timer w)\<lparr>current_index := i\<rparr>\<rparr>) es v = sends w es v"
  "sends (w\<lparr>timer := (timer w)\<lparr>unreachableSignaled := a\<rparr>\<rparr>) es v = sends w es v"
  "sends (w\<lparr>timer := (timer w)\<lparr>forbiddenSignaled := a\<rparr>\<rparr>) es v = sends w es v"
  "sends (w\<lparr>timer := (timer w)\<lparr>tlsParametersMissingSignaled := a\<rparr>\<rparr>) es v = sends w es v"
  "sends (w\<lparr>timer := (timer w)\<lparr>streamsDroppedSignaled := a\<rparr>\<rparr>) es v = sends w es v"
  by (simp_all add: sends_def set_pc_def error_discipline_def error_flags_def)

lemma sends_nothing [simp]: "sends w [] w" "sends w [] (advance_timer w)"
  by (simp_all add: sends_def)

text \<open>Each branch of a step sends at most one event.\<close>

lemma outer_step_cases:
  assumes "outer_step lib w = Inr v"
  shows "\<not> loop_condition w \<and> v = set_pc TimerLeft w
    \<or> loop_condition w \<and> (\<exists>msg. sends w [(''error'', msg)] v) \<and> timer_pc (timer v) = TimerLeft \<and>
      TIMER_STOPPED v \<and> error_flags w \<and> TIMER_RUNNING v = TIMER_RUNNING w
    \<or> loop_condition w \<and> \<not> TIMER_RUNNING w \<and> sync_counter w = mInstances (timer w) \<and>
      sends w [(''info'', ''starting measurement'')] v \<and> timer_pc (timer v) = TimerDelay \<and>
      \<not> TIMER_RUNNING v
    \<or> loop_condition w \<and> \<not> TIMER_RUNNING w \<and> v = set_pc TimerOuter w
    \<or> loop_condition w \<and> TIMER_RUNNING w \<and>
      v = set_pc TimerBody (w\<lparr>timer := (timer w)\<lparr>current_index := 0\<rparr>\<rparr>)"
proof -
  have start: "sends w [(''info'', ''starting measurement'')] u \<and> TIMER_RUNNING u = TIMER_RUNNING w"
    if "callback lib ''info'' ''starting measurement'' 0 '''' w = Inr u" for u
    using callback_sends [OF that] cb.send_frame(3) [OF that] by simp
  have err: "(\<exists>msg. sends w [(''error'', msg)] v) \<and> timer_pc (timer v) = TimerLeft \<and>
      TIMER_STOPPED v \<and> TIMER_RUNNING v = TIMER_RUNNING w"
    if "signal_error lib msg code TimerLeft u = Inr v" "\<And>es. sends u es v = sends w es v"
      "TIMER_RUNNING u = TIMER_RUNNING w" for msg code u
    using signal_error_effect [OF that(1)] that(2,3) by auto
  show ?thesis
  proof (cases "loop_condition w")
    case True
    consider "UNREACHABLE w \<and> \<not> unreachableSignaled (timer w)"
      | "FORBIDDEN w \<and> \<not> forbiddenSignaled (timer w)" "\<not> (UNREACHABLE w \<and> \<not> unreachableSignaled (timer w))"
      | "TLS_PARAMETERS_MISSING w \<and> \<not> tlsParametersMissingSignaled (timer w)"
        "\<not> (UNREACHABLE w \<and> \<not> unreachableSignaled (timer w))"
        "\<not> (FORBIDDEN w \<and> \<not> forbiddenSignaled (timer w))"
      | "\<not> (UNREACHABLE w \<and> \<not> unreachableSignaled (timer w))"
        "\<not> (FORBIDDEN w \<and> \<not> forbiddenSignaled (timer w))"
        "\<not> (TLS_PARAMETERS_MISSING w \<and> \<not> tlsParametersMissingSignaled (timer w))"
      by blast
    then show ?thesis
    proof cases
      case 1
      let ?u = "w\<lparr>timer := (timer w)\<lparr>unreachableSignaled := True\<rparr>\<rparr>"
      have "outer_step lib w = signal_error lib ''no connection to measurement peer'' 7 TimerLeft ?u"
        using True 1 by (simp add: outer_step_def)
      then show ?thesis
        using True assms err [of _ _ ?u] 1 by (simp add: sends_simps error_flags_def)
    next
      case 2
      let ?u = "w\<lparr>timer := (timer w)\<lparr>forbiddenSignaled := True\<rparr>\<rparr>"
      have "outer_step lib w = signal_error lib ''forbidden'' 4 TimerLeft ?u"
        using True 2 by (simp only: outer_step_def not_True_eq_False if_False if_True simp_thms)
      then show ?thesis
        using True assms err [of _ _ ?u] 2(1) by (simp add: sends_simps error_flags_def)
    next
      case 3
      let ?u = "w\<lparr>timer := (timer w)\<lparr>tlsParametersMissingSignaled := True\<rparr>\<rparr>"
      have "outer_step lib w = signal_error lib ''TLS parameters missing'' 8 TimerLeft ?u"
        using True 3 by (simp only: outer_step_def not_True_eq_False if_False if_True simp_thms)
      then show ?thesis
        using True assms err [of _ _ ?u] 3(1) by (simp add: sends_simps error_flags_def)
    next
      case 4
      have "outer_step lib w =
          (if \<not> TIMER_RUNNING w then
             (if sync_counter w = mInstances (timer w) then
                res_map (set_pc TimerDelay) (callback lib ''info'' ''starting measurement'' 0 '''' w)
              else Inr (set_pc TimerOuter w))
           else Inr (set_pc TimerBody (w\<lparr>timer := (timer w)\<lparr>current_index := 0\<rparr>\<rparr>)))"
        using True 4 by (simp only: outer_step_def not_True_eq_False if_False simp_thms)
      then show ?thesis
        using True assms start
        by (auto simp: res_map_Inr_iff res_map_Inr_iff [THEN eq_iff_swap] sends_simps split: if_split_asm)
    qed
  qed (use assms in \<open>simp add: outer_step_def\<close>)
qed

lemma delay_step_cases:
  assumes "delay_step lib w = Inr v"
  shows "sends w [(''info'', ''measurement started'')] v" "timer_pc (timer v) = TimerOuter"
    "TIMER_RUNNING v"
proof -
  obtain u where u: "callback lib ''info'' ''measurement started'' 0 '''' w = Inr u"
    and v: "v = set_pc TimerOuter (u\<lparr>TIMER_RUNNING := True, clock_pos := Suc (clock_pos u),
                  timer := (timer u)\<lparr>time1 := clock u (clock_pos u)\<rparr>\<rparr>)"
    using assms by (auto simp: delay_step_def res_map_Inr_iff get_timestamp_def Let_def)
  show "sends w [(''info'', ''measurement started'')] v" "timer_pc (timer v) = TimerOuter"
    "TIMER_RUNNING v"
    using callback_sends [OF u] by (simp_all add: v sends_def set_pc_def)
qed

lemma body_step_cases:
  assumes "body_step lib w = Inr v"
  shows "(\<exists>msg. sends w [(''error'', msg)] v) \<and> timer_pc (timer v) = TimerOuter \<and>
      TIMER_STOPPED v \<and> STREAMS_DROPPED w \<and> TIMER_RUNNING v = TIMER_RUNNING w
    \<or> (sends w [(''report'', ''measurement report'')] v \<or> sends w [] v) \<and>
      timer_pc (timer v) = TimerInner \<and> TIMER_RUNNING v = TIMER_RUNNING w \<and>
      TIMER_INDEX v = TIMER_INDEX (advance_timer w) \<and>
      MEASUREMENT_DURATION v = MEASUREMENT_DURATION w"
proof (cases "STREAMS_DROPPED w \<and> \<not> streamsDroppedSignaled (timer w)")
  case True
  let ?u = "w\<lparr>timer := (timer w)\<lparr>streamsDroppedSignaled := True\<rparr>\<rparr>"
  have "signal_error lib ''measurement streams dropped'' 9 TimerOuter ?u = Inr v"
    using assms True by (simp add: body_step_def)
  from signal_error_effect [OF this] show ?thesis using True by (auto simp: sends_simps)
next
  case False
  let ?w1 = "advance_timer w"
  let ?u = "?w1\<lparr>timer := (timer w)\<lparr>current_index := TIMER_INDEX ?w1\<rparr>\<rparr>"
  have a: "body_step lib w = (if TIMER_INDEX ?w1 \<noteq> current_index (timer w)
      then res_map (set_pc TimerInner) (callback lib ''report'' ''measurement report'' 0 '''' ?u)
      else Inr (set_pc TimerInner ?w1))"
    using False by (auto simp: body_step_def Let_def)
  have s: "sends w es x" if "sends ?u es x" for es x
    using that by (simp add: sends_def)
  show ?thesis
  proof (cases "TIMER_INDEX ?w1 \<noteq> current_index (timer w)")
    case True
    then obtain x where x: "callback lib ''report'' ''measurement report'' 0 '''' ?u = Inr x"
      "v = set_pc TimerInner x"
      using assms by (auto simp: a res_map_Inr_iff)
    show ?thesis
      using s [OF callback_sends [OF x(1)]] cb.send_frame [OF x(1)] by (simp add: x(2) sends_simps)
  next
    case False
    then have v: "v = set_pc TimerInner ?w1" using assms by (simp add: a)
    show ?thesis by (simp add: v sends_simps)
  qed
qed

lemma left_step_cases:
  assumes "left_step lib w = Inr v"
  shows "timer_pc (timer v) = TimerDone \<and>
    (if RUNNING w \<and> \<not> hasError w then sends w [(''finish'', ''measurement completed'')] v
     else sends w [] v) \<and> \<not> TIMER_ACTIVE v"
  using assms callback_sends
  by (fastforce simp: left_step_def res_map_Inr_iff sends_simps split: if_split_asm)

section \<open>The protocol of a test case\<close>

text \<open>
  What the timer may send for one test case, as an automaton over the trace: the two start
  messages, then reports, and at most one \<open>error\<close> or \<open>finish\<close>, which is the last message.
\<close>

datatype proto = Idle | Starting | Started | Failed | Finished

fun proto_step :: "string \<times> string \<Rightarrow> proto \<Rightarrow> proto option" where
  "proto_step (cmd, msg) Idle =
     (if (cmd, msg) = (''info'', ''starting measurement'') then Some Starting
      else if cmd = ''error'' then Some Failed
      else if cmd = ''finish'' then Some Finished else None)"
| "proto_step (cmd, msg) Starting =
     (if (cmd, msg) = (''info'', ''measurement started'') then Some Started else None)"
| "proto_step (cmd, msg) Started =
     (if cmd = ''report'' then Some Started
      else if cmd = ''error'' then Some Failed
      else if cmd = ''finish'' then Some Finished else None)"
| "proto_step (cmd, msg) Failed = None"
| "proto_step (cmd, msg) Finished = None"

fun proto_run :: "(string \<times> string) list \<Rightarrow> proto \<Rightarrow> proto option" where
  "proto_run [] p = Some p"
| "proto_run (e # es) p = (case proto_step e p of None \<Rightarrow> None | Some q \<Rightarrow> proto_run es q)"

lemma proto_run_append:
  "proto_run (es @ es') p = (case proto_run es p of None \<Rightarrow> None | Some q \<Rightarrow> proto_run es' q)"
  by (induction es arbitrary: p) (auto split: option.splits)

text \<open>What the messages say about the state, per position of the thread.\<close>

definition proto_at :: "proto \<Rightarrow> 'c world \<Rightarrow> bool" where
  "proto_at p w \<longleftrightarrow>
     (case timer_pc (timer w) of
        TimerOuter \<Rightarrow> p = Idle \<and> \<not> TIMER_RUNNING w \<or> p = Started \<and> TIMER_RUNNING w
                    \<or> p = Failed \<and> TIMER_STOPPED w \<and> hasError w
      | TimerDelay \<Rightarrow> p = Starting \<and> \<not> TIMER_RUNNING w
      | TimerBody \<Rightarrow> p = Started \<and> TIMER_RUNNING w
      | TimerInner \<Rightarrow> p = Started \<and> TIMER_RUNNING w
      | TimerLeft \<Rightarrow> p = Idle \<or> p = Started \<or> p = Failed \<and> hasError w
      | TimerDone \<Rightarrow> p \<noteq> Starting)"

lemma proto_at_others: "proto_at p w \<Longrightarrow> others_step w v \<Longrightarrow> proto_at p v"
  by (auto simp: proto_at_def others_step_def split: timer_pc.splits)

lemma error_flags_hasError: "error_discipline w \<Longrightarrow> error_flags w \<Longrightarrow> hasError w"
  by (simp add: error_discipline_def)

lemma sends_error: "sends w es v \<Longrightarrow> error_discipline w \<Longrightarrow> error_flags w \<Longrightarrow> hasError v"
  by (simp add: sends_def error_discipline_def)

text \<open>The two positions with several branches, then all of them.\<close>

lemma proto_outer:
  assumes p: "proto_at p w" and d: "error_discipline w" and TimerOuter: "timer_pc (timer w) = TimerOuter"
    and o: "outer_step lib w = Inr v"
  shows "\<exists>es q. trace v = trace w @ es \<and> proto_run es p = Some q \<and> proto_at q v \<and> error_discipline v"
  using outer_step_cases [OF o]
proof (elim disjE conjE exE)
  assume "v = set_pc TimerLeft w"
  then show ?thesis using p d TimerOuter by (intro exI [of _ "[]"]) (auto simp: proto_at_def)
next
  fix msg assume a: "loop_condition w" "sends w [(''error'', msg)] v" "timer_pc (timer v) = TimerLeft"
    "TIMER_STOPPED v" "error_flags w" "TIMER_RUNNING v = TIMER_RUNNING w"
  have "p = Idle \<or> p = Started" using p a(1) TimerOuter by (auto simp: proto_at_def loop_condition_def)
  then show ?thesis
    using a(2,3) d sends_error [OF a(2) d a(5)]
    by (intro exI [of _ "[(''error'', msg)]"] exI [of _ Failed]) (auto simp: proto_at_def sends_def)
next
  assume a: "loop_condition w" "\<not> TIMER_RUNNING w" "sends w [(''info'', ''starting measurement'')] v"
    "timer_pc (timer v) = TimerDelay" "\<not> TIMER_RUNNING v"
  have "p = Idle" using p a(1,2) TimerOuter by (auto simp: proto_at_def loop_condition_def)
  then show ?thesis
    using a(3-) d by (intro exI [of _ "[(''info'', ''starting measurement'')]"] exI [of _ Starting])
      (auto simp: proto_at_def sends_def)
next
  assume "v = set_pc TimerOuter w"
  then show ?thesis using p d TimerOuter by (intro exI [of _ "[]"]) (auto simp: proto_at_def)
next
  assume a: "loop_condition w" "TIMER_RUNNING w"
    "v = set_pc TimerBody (w\<lparr>timer := (timer w)\<lparr>current_index := 0\<rparr>\<rparr>)"
  have "p = Started" using p a(1,2) TimerOuter by (auto simp: proto_at_def loop_condition_def)
  then show ?thesis using a d by (intro exI [of _ "[]"]) (auto simp: proto_at_def set_pc_def)
qed

lemma proto_body:
  assumes ps: "p = Started" "TIMER_RUNNING w" and d: "error_discipline w" and o: "body_step lib w = Inr v"
  shows "\<exists>es q. trace v = trace w @ es \<and> proto_run es p = Some q \<and> proto_at q v \<and> error_discipline v"
  using body_step_cases [OF o]
proof (elim disjE conjE exE)
  fix msg assume a: "sends w [(''error'', msg)] v" "timer_pc (timer v) = TimerOuter"
    "TIMER_STOPPED v" "STREAMS_DROPPED w"
  then show ?thesis
    using d ps sends_error [OF a(1) d]
    by (intro exI [of _ "[(''error'', msg)]"] exI [of _ Failed])
      (auto simp: proto_at_def sends_def error_flags_def)
next
  assume "sends w [(''report'', ''measurement report'')] v" "timer_pc (timer v) = TimerInner"
    "TIMER_RUNNING v = TIMER_RUNNING w"
  then show ?thesis
    using d ps by (intro exI [of _ "[(''report'', ''measurement report'')]"] exI [of _ Started])
      (auto simp: proto_at_def sends_def)
next
  assume "sends w [] v" "timer_pc (timer v) = TimerInner" "TIMER_RUNNING v = TIMER_RUNNING w"
  then show ?thesis
    using d ps by (intro exI [of _ "[]"] exI [of _ Started]) (auto simp: proto_at_def sends_def)
qed

lemma proto_at_timer:
  assumes p: "proto_at p w" and d: "error_discipline w" and s: "timer_step lib w = Inr v"
  shows "\<exists>es q. trace v = trace w @ es \<and> proto_run es p = Some q \<and> proto_at q v \<and> error_discipline v"
proof (cases "timer_pc (timer w)")
  case TimerOuter
  have o: "outer_step lib w = Inr v" using s TimerOuter by (simp add: timer_step_def)
  show ?thesis by (rule proto_outer [OF p d TimerOuter o])
next
  case TimerDelay
  then have o: "delay_step lib w = Inr v" using s by (simp add: timer_step_def)
  show ?thesis
    using delay_step_cases [OF o] p d TimerDelay
    by (intro exI [of _ "[(''info'', ''measurement started'')]"] exI [of _ Started])
      (auto simp: proto_at_def sends_def)
next
  case TimerBody
  then have o: "body_step lib w = Inr v" and ps: "p = Started" "TIMER_RUNNING w"
    using s p by (simp_all add: timer_step_def proto_at_def)
  show ?thesis by (rule proto_body [OF ps d o])
next
  case TimerInner
  then have "v = inner_step w" "p = Started" "TIMER_RUNNING w"
    using s p by (simp_all add: timer_step_def proto_at_def)
  then show ?thesis
    using d by (intro exI [of _ "[]"] exI [of _ Started]) (auto simp: inner_step_def proto_at_def)
next
  case TimerLeft
  then have o: "left_step lib w = Inr v" and ps: "p = Idle \<or> p = Started \<or> p = Failed \<and> hasError w"
    using s p by (simp_all add: timer_step_def proto_at_def)
  show ?thesis
  proof (cases "RUNNING w \<and> \<not> hasError w")
    case True
    then show ?thesis
      using left_step_cases [OF o] ps d
      by (intro exI [of _ "[(''finish'', ''measurement completed'')]"] exI [of _ Finished])
        (auto simp: proto_at_def sends_def)
  next
    case False
    then show ?thesis
      using left_step_cases [OF o] ps d
      by (intro exI [of _ "[]"] exI [of _ p]) (auto simp: proto_at_def sends_def)
  qed
next
  case TimerDone
  then show ?thesis
    using s p d by (intro exI [of _ "[]"]) (auto simp: timer_step_def)
qed

lemma proto_exec:
  assumes "timer_exec lib n w v" "proto_at p w" "error_discipline w"
  shows "\<exists>es q. trace v = trace w @ es \<and> proto_run es p = Some q \<and> proto_at q v \<and> error_discipline v"
  using assms
proof (induction rule: timer_exec.induct)
  case (start w)
  then show ?case by (intro exI [of _ "[]"]) simp
next
  case (others n w u v)
  then obtain es q where "trace u = trace w @ es" "proto_run es p = Some q" "proto_at q u"
    "error_discipline u" by blast
  then show ?case
    using others.hyps(2) proto_at_others [of q u v]
    by (intro exI [of _ es] exI [of _ q]) (auto simp: others_step_def)
next
  case (timer n w u v)
  then obtain es q where e: "trace u = trace w @ es" "proto_run es p = Some q" "proto_at q u"
    "error_discipline u" by blast
  obtain es' q' where "trace v = trace u @ es'" "proto_run es' q = Some q'" "proto_at q' v"
    "error_discipline v" using proto_at_timer [OF e(3,4) timer.hyps(2)] by blast
  then show ?case
    using e by (intro exI [of _ "es @ es'"] exI [of _ q']) (simp add: proto_run_append)
qed

lemma proto_new: "proto_at Idle (CTimer_new n delay w)"
  "error_discipline (CTimer_new n delay w) = error_discipline w"
  "trace (CTimer_new n delay w) = trace w"
  by (simp_all add: CTimer_new_def proto_at_def error_discipline_def error_flags_def)

text \<open>Whatever the other threads do, the messages of one test case follow the protocol: the
  two start messages in order, reports only after them, and at most one \<open>error\<close> or
  \<open>finish\<close>, after which nothing more is sent; an \<open>error\<close> excludes a \<open>finish\<close>.\<close>

lemma timer_protocol:
  assumes "timer_exec lib n (CTimer_new instances delay w) v" and "error_discipline w"
  shows "\<exists>es q. trace v = trace w @ es \<and> proto_run es Idle = Some q"
  using proto_exec [OF assms(1) proto_new(1)] assms(2) by (auto simp: proto_new)

text \<open>One step sends one message or none, the first start message only from the outer loop.\<close>

definition starts :: "'c world \<Rightarrow> 'c world \<Rightarrow> bool" where
  "starts w v \<longleftrightarrow> sync_counter w = mInstances (timer w) \<and> \<not> TIMER_RUNNING w \<and> RUNNING w \<and>
     \<not> TIMER_STOPPED w \<and> timer_pc (timer v) = TimerDelay"

lemma timer_step_sends:
  assumes s: "timer_step lib w = Inr v"
  shows "sends w [] v \<or> (\<exists>m. m \<noteq> (''info'', ''starting measurement'') \<and> sends w [m] v) \<or>
    sends w [(''info'', ''starting measurement'')] v \<and> starts w v"
proof (cases "timer_pc (timer w)")
  case TimerOuter
  then have o: "outer_step lib w = Inr v" using s by (simp add: timer_step_def)
  have e: "(''error'', msg) \<noteq> (''info'', ''starting measurement'')" for msg by simp
  show ?thesis
    using outer_step_cases [OF o]
  proof (elim disjE conjE exE)
    fix msg assume "sends w [(''error'', msg)] v"
    then show ?thesis using e by blast
  qed (simp_all add: sends_simps starts_def loop_condition_def)
next
  case TimerBody
  then have "body_step lib w = Inr v" using s by (simp add: timer_step_def)
  moreover have "(''error'', msg) \<noteq> (''info'', ''starting measurement'')"
    "(''report'', msg) \<noteq> (''info'', ''starting measurement'')" for msg by simp_all
  ultimately show ?thesis using body_step_cases [of lib w v] by blast
next
  case TimerInner
  then have "v = inner_step w" using s by (simp add: timer_step_def)
  then show ?thesis by (simp add: inner_step_def sends_simps)
next
  case TimerLeft
  then have l: "left_step lib w = Inr v" using s by (simp add: timer_step_def)
  show ?thesis
  proof (cases "RUNNING w \<and> \<not> hasError w")
    case True
    then have "sends w [(''finish'', ''measurement completed'')] v"
      using left_step_cases [OF l] by simp
    then show ?thesis by (intro disjI2 disjI1 exI) (rule conjI, simp_all)
  next
    case False
    then show ?thesis using left_step_cases [OF l] by simp
  qed
next
  case TimerDelay
  then have "delay_step lib w = Inr v" using s by (simp add: timer_step_def)
  from delay_step_cases(1) [OF this] show ?thesis
    by (intro disjI2 disjI1 exI) (rule conjI, simp_all)
next
  case TimerDone
  then show ?thesis using s by (simp add: timer_step_def)
qed

text \<open>C23: \<open>starting measurement\<close> is sent only in a step that finds exactly as many streams
  ready as the test case has, before the measurement runs and without a stop or a pending first
  error.\<close>

theorem timer_starts_in_sync:
  assumes "timer_step lib w = Inr v" and "(''info'', ''starting measurement'') \<in> set (drop (length (trace w)) (trace v))"
  shows "sync_counter w = mInstances (timer w) \<and> \<not> TIMER_RUNNING w \<and> RUNNING w
         \<and> \<not> TIMER_STOPPED w \<and> timer_pc (timer v) = TimerDelay
         \<and> trace v = trace w @ [(''info'', ''starting measurement'')]"
proof -
  have new: "(''info'', ''starting measurement'') \<in> set es" if "sends w es v" for es
    using assms(2) that by (simp add: sends_def)
  have "sends w [(''info'', ''starting measurement'')] v \<and> starts w v"
    using timer_step_sends [OF assms(1)]
  proof (elim disjE conjE exE)
    fix m assume "m \<noteq> (''info'', ''starting measurement'')" "sends w [m] v"
    then show ?thesis using new [of "[m]"] by simp
  qed (use new [of "[]"] in simp_all)
  then show ?thesis by (simp add: starts_def sends_def)
qed

section \<open>Stopping\<close>

text \<open>How many steps of its own the thread still needs once the loops' condition is false.\<close>

fun steps_left :: "timer_pc \<Rightarrow> nat" where
  "steps_left TimerDone = 0"
| "steps_left TimerLeft = 1"
| "steps_left TimerOuter = 2"
| "steps_left TimerInner = 3"
| "steps_left TimerDelay = 3"
| "steps_left TimerBody = 4"

lemma steps_left_decrease:
  assumes "timer_step lib w = Inr v" "\<not> loop_condition w"
  shows "steps_left (timer_pc (timer v)) \<le> steps_left (timer_pc (timer w)) - 1 \<and> \<not> loop_condition v"
proof -
  obtain es where s: "sends w es v" using timer_step_sends [OF assms(1)] by blast
  have "steps_left (timer_pc (timer v)) \<le> steps_left (timer_pc (timer w)) - 1"
    using assms delay_step_cases [of lib w v] body_step_cases [of lib w v] left_step_cases [of lib w v]
    by (auto simp: timer_step_def inner_step_def outer_step_def split: timer_pc.splits)
  then show ?thesis using sends_loop [OF s assms(2)] by simp
qed

lemma others_loop: "others_step w v \<Longrightarrow> \<not> loop_condition w \<Longrightarrow> \<not> loop_condition v"
  by (auto simp: others_step_def loop_condition_def)

text \<open>C18: Once the measurement is stopped (globally, by the timer's end or by the flag of the
  thread), at most four more steps end the timer's thread, whatever the other threads do
  in between.\<close>

theorem timer_terminates:
  assumes "timer_exec lib n w v" "\<not> loop_condition w" "4 \<le> n"
  shows "timer_pc (timer v) = TimerDone"
proof -
  have "steps_left (timer_pc (timer v)) \<le> steps_left (timer_pc (timer w)) - n \<and> \<not> loop_condition v"
    using assms(1,2)
  proof (induction rule: timer_exec.induct)
    case (others n w u v)
    then show ?case using others_loop [of u v] by (simp add: others_step_def)
  next
    case (timer n w u v)
    then have "\<not> loop_condition u" "steps_left (timer_pc (timer u)) \<le> steps_left (timer_pc (timer w)) - n"
      by simp_all
    then show ?case using steps_left_decrease [OF timer.hyps(2)] by linarith
  qed simp
  moreover have "steps_left (timer_pc (timer w)) \<le> 4" by (cases "timer_pc (timer w)") simp_all
  ultimately have "steps_left (timer_pc (timer v)) = 0" using assms(3) by simp
  then show ?thesis by (cases "timer_pc (timer v)") simp_all
qed

lemma callback_info_returns:
  assumes "cmd \<noteq> ''report''" "cmd \<noteq> ''finish''"
  shows "callback lib cmd msg code descr w \<noteq> Inl f"
  using assms by (simp add: callback_def Let_def)

lemma signal_error_returns: "signal_error lib msg code pc w \<noteq> Inl f"
  using callback_info_returns [of "''error''" lib msg code msg w]
  by (auto simp: signal_error_def res_map_def split: sum.splits)

text \<open>A step of the timer throws only where \<open>callback\<close> evaluates results: in the body of the
  inner loop when the half second changed, and in the final \<open>finish\<close> of a measurement that runs
  without error.\<close>

lemma timer_step_throws:
  assumes "timer_step lib w = Inl f"
  shows "timer_pc (timer w) = TimerBody \<and> TIMER_INDEX (advance_timer w) \<noteq> current_index (timer w)
       \<or> timer_pc (timer w) = TimerLeft \<and> RUNNING w \<and> \<not> hasError w"
  using assms
  by (auto simp: callback_info_returns signal_error_returns timer_step_def outer_step_def delay_step_def body_step_def left_step_def
      res_map_def Let_def split: timer_pc.splits if_splits sum.splits)

section \<open>The half seconds\<close>

text \<open>\<open>TIMER_INDEX\<close> counts half seconds; while the timer runs it stays below the number of
  slots that the streams prepare.\<close>

lemma advance_timer_index:
  fixes w :: "'c world"
  defines "diff \<equiv> clock w (clock_pos w) - time1 (timer w)"
  assumes d: "uint (MEASUREMENT_DURATION w) < 1000000000"
  shows "if uint (MEASUREMENT_DURATION w) \<le> uint diff div 1000000
         then TIMER_STOPPED (advance_timer w) \<and> TIMER_INDEX (advance_timer w) = TIMER_INDEX w
         else TIMER_INDEX (advance_timer w) = uint diff div 500000 \<and>
           TIMER_STOPPED (advance_timer w) = TIMER_STOPPED w \<and>
           TIMER_INDEX (advance_timer w) < 2 * uint (MEASUREMENT_DURATION w)"
proof -
  have le: "(MEASUREMENT_DURATION w \<le> diff div 1000000) =
      (uint (MEASUREMENT_DURATION w) \<le> uint diff div 1000000)"
    by (simp add: word_le_def uint_div)
  have i: "uint (diff div 500000) = uint diff div 500000" by (simp add: uint_div)
  have r: "uint diff div 500000 < 2 * uint (MEASUREMENT_DURATION w)"
    if "\<not> uint (MEASUREMENT_DURATION w) \<le> uint diff div 1000000"
  proof -
    have "uint diff div 1000000 + 1 \<le> uint (MEASUREMENT_DURATION w)" using that by linarith
    then show ?thesis by linarith
  qed
  have p: "0 \<le> uint diff div 500000" by (simp add: pos_imp_zdiv_nonneg_iff)
  show ?thesis
  proof (cases "uint (MEASUREMENT_DURATION w) \<le> uint diff div 1000000")
    case True
    then show ?thesis
      using le by (simp add: advance_timer_def get_timestamp_def Let_def diff_def)
  next
    case False
    have "i32 (uint diff div 500000) = uint diff div 500000"
      using r [OF False] p d by (intro i32_id) linarith+
    then show ?thesis
      using False le i r [OF False]
      by (simp add: advance_timer_def get_timestamp_def Let_def diff_def)
  qed
qed

definition index_ok :: "'a globals_scheme \<Rightarrow> bool" where
  "index_ok w \<longleftrightarrow> 0 \<le> TIMER_INDEX w \<and>
     (TIMER_INDEX w = 0 \<or> TIMER_INDEX w < 2 * uint (MEASUREMENT_DURATION w))"

lemma callback_index:
  assumes "callback lib cmd msg code descr u = Inr v"
  shows "TIMER_INDEX v = TIMER_INDEX u" "MEASUREMENT_DURATION v = MEASUREMENT_DURATION u"
  using cb.send_frame(4,6) [OF assms] .

lemma signal_error_index:
  assumes "signal_error lib msg code pc u = Inr v"
  shows "TIMER_INDEX v = TIMER_INDEX u \<and> MEASUREMENT_DURATION v = MEASUREMENT_DURATION u"
  using assms by (auto simp: signal_error_def res_map_Inr_iff callback_index)

lemma timer_step_index:
  assumes s: "timer_step lib w = Inr v"
  shows "(TIMER_INDEX v = TIMER_INDEX w \<or> TIMER_INDEX v = TIMER_INDEX (advance_timer w)) \<and>
    MEASUREMENT_DURATION v = MEASUREMENT_DURATION w"
proof (cases "timer_pc (timer w)")
  case TimerOuter
  then have "outer_step lib w = Inr v" using s by (simp add: timer_step_def)
  then show ?thesis
    by (auto simp: outer_step_def res_map_Inr_iff callback_index dest!: signal_error_index
        split: if_split_asm)
next
  case TimerDelay
  then have "delay_step lib w = Inr v" using s by (simp add: timer_step_def)
  then show ?thesis
    by (auto simp: delay_step_def res_map_Inr_iff get_timestamp_def Let_def callback_index)
next
  case TimerBody
  then have "body_step lib w = Inr v" using s by (simp add: timer_step_def)
  then show ?thesis
    by (auto simp: body_step_def res_map_Inr_iff Let_def callback_index dest!: signal_error_index
        split: if_split_asm)
next
  case TimerInner
  then have "v = inner_step w" using s by (simp add: timer_step_def)
  then show ?thesis by (simp add: inner_step_def)
next
  case TimerLeft
  then have "left_step lib w = Inr v" using s by (simp add: timer_step_def)
  then show ?thesis
    by (auto simp: left_step_def res_map_Inr_iff callback_index split: if_split_asm)
next
  case TimerDone
  then show ?thesis using s by (simp add: timer_step_def)
qed

text \<open>\<open>TIMER_INDEX\<close> is 0 or one of the half seconds of the measurement, and a step of the
  timer keeps it so, as long as the measurement lasts less than a billion seconds.\<close>

lemma timer_index_invariant:
  assumes "timer_step lib w = Inr v" "index_ok w" "uint (MEASUREMENT_DURATION w) < 1000000000"
  shows "index_ok v \<and> MEASUREMENT_DURATION v = MEASUREMENT_DURATION w"
proof -
  have same: "index_ok v \<and> MEASUREMENT_DURATION v = MEASUREMENT_DURATION w"
    if "TIMER_INDEX v = TIMER_INDEX w" "MEASUREMENT_DURATION v = MEASUREMENT_DURATION w"
    using that assms(2) by (simp add: index_ok_def)
  have adv: "index_ok v \<and> MEASUREMENT_DURATION v = MEASUREMENT_DURATION w"
    if "TIMER_INDEX v = TIMER_INDEX (advance_timer w)" "MEASUREMENT_DURATION v = MEASUREMENT_DURATION w"
    using that assms(2) advance_timer_index [OF assms(3)]
    by (auto simp: index_ok_def pos_imp_zdiv_nonneg_iff split: if_splits)
  show ?thesis using timer_step_index [OF assms(1)] same adv by blast
qed

section \<open>Witnesses\<close>

lemma sample_start:
  "\<exists>v. timer_step (lib0 Android) (CTimer_new 1 0 (world0\<lparr>syncing_threads := [(7, 1)]\<rparr>)) = Inr v
     \<and> (''info'', ''starting measurement'') \<in> set (trace v)"
proof -
  let ?w = "CTimer_new 1 0 (world0\<lparr>syncing_threads := [(7, 1)]\<rparr>)"
  obtain u where u: "callback (lib0 Android) ''info'' ''starting measurement'' 0 '''' ?w = Inr u"
    by (cases "callback (lib0 Android) ''info'' ''starting measurement'' 0 '''' ?w")
      (simp_all add: callback_info_returns)
  have "timer_step (lib0 Android) ?w = Inr (set_pc TimerDelay u)"
    using u by (simp add: timer_step_def outer_step_def loop_condition_def sync_counter_def CTimer_new_def)
  then show ?thesis using cb.send_trace [OF u] by simp
qed

lemma timer_starts_in_sync_witness:
  "\<exists>v. timer_step (lib0 Android) (CTimer_new 1 0 (world0\<lparr>syncing_threads := [(7, 1)]\<rparr>)) = Inr v
     \<and> timer_pc (timer v) = TimerDelay"
proof -
  obtain v where v: "timer_step (lib0 Android) (CTimer_new 1 0 (world0\<lparr>syncing_threads := [(7, 1)]\<rparr>)) = Inr v"
    "(''info'', ''starting measurement'') \<in> set (trace v)" using sample_start by blast
  have "trace (CTimer_new 1 0 (world0\<lparr>syncing_threads := [(7, 1)]\<rparr>)) = []"
    by (simp add: proto_new)
  then show ?thesis using timer_starts_in_sync [OF v(1)] v by (intro exI [of _ v]) simp
qed

lemma timer_terminates_witness:
  "\<exists>v. timer_exec (lib0 Ios) 4 (world0\<lparr>RUNNING := False\<rparr>) v \<and> timer_pc (timer v) = TimerDone"
proof -
  let ?w = "world0\<lparr>RUNNING := False\<rparr>"
  let ?u = "set_pc TimerLeft ?w"
  let ?v = "set_pc TimerDone (?u\<lparr>TIMER_ACTIVE := False\<rparr>)"
  have s: "timer_step (lib0 Ios) ?w = Inr ?u"
    by (simp add: timer_step_def outer_step_def loop_condition_def ctimer0_def)
  have s2: "timer_step (lib0 Ios) ?u = Inr ?v"
    by (simp add: timer_step_def left_step_def)
  have s3: "timer_step (lib0 Ios) ?v = Inr ?v" by (simp add: timer_step_def)
  have "timer_exec (lib0 Ios) (Suc (Suc (Suc (Suc 0)))) ?w ?v"
    using timer_exec.timer [OF timer_exec.timer [OF timer_exec.timer [OF timer_exec.timer
          [OF timer_exec.start s] s2] s3] s3] .
  then have e: "timer_exec (lib0 Ios) 4 ?w ?v" by (simp add: numeral_eq_Suc)
  have "\<not> loop_condition ?w" by (simp add: loop_condition_def)
  from timer_terminates [OF e this] show ?thesis using e by blast
qed

end
