(* ===== verification/Evaluation.thy ===== *)
theory Evaluation
  imports Results Sample
begin

text \<open>
  The properties of the evaluation of a download or upload (theory \<open>Results\<close>): the counts add
  up, the number of half seconds, when the evaluation succeeds and what it publishes, and when
  it throws.
\<close>

section \<open>Numbers in messages\<close>

text \<open>Every number that the client prints into a message with \<open>std::to_string\<close> is read back by
  \<open>std::stoll\<close> as the same number when it fits a \<open>long long\<close>, and raises
  \<open>std::out_of_range\<close> otherwise; this is what decides whether the sums of a step are built.\<close>

lemma number_round_trip:
  "stoll_at (stream_object sid v d s r step ms current start) ''bytes'' =
     (if uint v < 2 ^ 63 then Inr (uint v) else Inl OutOfRange)"
  by (simp add: stoll_at_def stream_object_def obj_at_def stoll_to_string_u64)

section \<open>Sums of the slots\<close>

lemma sum_bytes_telescope:
  "sum_bytes (take n vs) = sum_list (map (\<lambda>j. slot_bytes vs (int j)) [1..<Suc n])"
proof (induction n)
  case (Suc n)
  have "nat (int (Suc n)) = Suc n" "nat (int (Suc n) - 1) = n" by simp_all
  with sum_bytes_step [of "int (Suc n)" vs]
  have "sum_bytes (take (Suc n) vs) = sum_bytes (take n vs) + slot_bytes vs (int (Suc n))" by simp
  moreover have "[1..<Suc (Suc n)] = [1..<Suc n] @ [Suc n]" by simp
  ultimately show ?case using Suc.IH by (simp del: upt_Suc)
qed simp

text \<open>The scan of a stream's map is additive: the bytes up to a half second are the sum of
  the bytes of each half second up to it, scanned one by one, also when counts wrap around; behind
  the last entry the total is the sum of everything the stream counted.\<close>

lemma distinct_bytes_telescope:
  assumes "1 \<le> n" "int n \<le> ms" "tn = ''download'' \<or> tn = ''upload''"
  shows "fst (snd (scan_results tn first (int n) ms 1 rs (m, 0, 0))) =
      sum_list (map (\<lambda>j. snd (snd (scan_results tn first (int j) ms 1 rs (m, 0, 0)))) [1..<Suc n])
    \<and> (length rs \<le> n \<longrightarrow> fst (snd (scan_results tn first (int n) ms 1 rs (m, 0, 0))) =
        sum_bytes (kept_slots tn first rs))"
proof -
  have b: "fst (snd (scan_results tn first (int n) ms 1 rs (m, 0, 0))) =
      sum_bytes (take n (kept_slots tn first rs))"
    using assms by (subst scan_step) simp_all
  have d: "map (\<lambda>j. snd (snd (scan_results tn first (int j) ms 1 rs (m, 0, 0)))) [1..<Suc n] =
      map (\<lambda>j. slot_bytes (kept_slots tn first rs) (int j)) [1..<Suc n]"
    using assms by (intro map_cong) (auto simp: scan_step)
  have "length (kept_slots tn first rs) \<le> length rs" by (simp add: kept_slots_def)
  then show ?thesis unfolding d b using sum_bytes_telescope [of n "kept_slots tn first rs"] by auto
qed

text \<open>The number of reported half seconds is the elapsed time in half seconds, at most the
  configured duration; for an upload the two additional seconds are not reported.\<close>

lemma reported_half_seconds:
  assumes "speed_test w" "0 \<le> TIMER_DURATION w" "TIMER_DURATION w < 2147483648"
    and "uint (step_seconds w) < 1073741824"
  shows "max_steps_of w = min (TIMER_DURATION w div 500000) (2 * uint (step_seconds w))"
  using max_steps_range assms by blast

section \<open>When the evaluation succeeds\<close>

lemma uint_div8_le: "uint (v div 8 :: u64) \<le> uint v"
proof -
  have "uint (v div 8) = uint v div 8" by (simp add: uint_div)
  then show ?thesis using uint_ge_0 [of v] by linarith
qed

lemma uint_sum_bytes:
  "sum_list (map uint vs) < 9223372036854775808 \<Longrightarrow>
     uint (sum_bytes (take n vs)) \<le> sum_list (map uint vs)"
proof (induction vs arbitrary: n)
  case (Cons v vs)
  have nn: "0 \<le> sum_list (map uint vs)" by (rule sum_list_nonneg) auto
  show ?case
  proof (cases n)
    case (Suc m)
    have s: "sum_list (map uint vs) < 9223372036854775808"
      using Cons.prems by (simp, smt (verit) uint_ge_0)
    have r: "uint (sum_bytes (take m vs)) \<le> sum_list (map uint vs)" by (rule Cons.IH [OF s])
    have d: "uint (v div 8) \<le> uint v" by (rule uint_div8_le)
    have "uint (v div 8) + uint (sum_bytes (take m vs)) \<le> uint v + sum_list (map uint vs)"
      using d r by simp
    then have "uint (v div 8 + sum_bytes (take m vs)) = uint (v div 8) + uint (sum_bytes (take m vs))"
      using Cons.prems by (intro uint_plus_u64) simp
    then show ?thesis using d r by (simp add: Suc)
  qed (use nn in simp)
qed simp

lemma uint_slot_bytes:
  "sum_list (map uint vs) < 9223372036854775808 \<Longrightarrow> uint (slot_bytes vs step) \<le> sum_list (map uint vs)"
proof -
  have "uint v \<le> sum_list (map uint vs)" if "v \<in> set vs" for v
    using that by (intro member_le_sum_list) (auto simp: sum_list_nonneg)
  moreover have "0 \<le> sum_list (map uint vs)" by (rule sum_list_nonneg) auto
  moreover have "uint (v div 8) \<le> uint v" for v :: u64 by (rule uint_div8_le)
  ultimately show ?thesis
    unfolding slot_bytes_def by (smt (verit) nth_mem uint_0_eq)
qed

lemma uint_steps_ns:
  "0 \<le> n \<Longrightarrow> n < 10000000000 \<Longrightarrow> uint (steps_ns n) = n * 500000000"
  by (simp add: steps_ns_def i64_id uint_u64)

text \<open>\<open>x * 1000 - steps_ns n\<close> for a time \<open>x\<close> that is not before \<open>n\<close> half seconds.\<close>

lemma uint_time_minus:
  assumes "0 \<le> n" "n * 500000 \<le> uint x" "uint x < 9223372036854775"
  shows "uint (x * 1000 - steps_ns n) = uint x * 1000 - n * 500000000"
proof -
  have m: "uint (x * 1000) = uint x * 1000" using assms(3) by (subst uint_mult_u64) simp_all
  have n: "n < 18446744074" using assms by simp
  have s: "uint (steps_ns n) = n * 500000000"
    using assms(1) n by (simp add: steps_ns_def i64_id uint_u64)
  have "uint (steps_ns n) \<le> uint (x * 1000)" unfolding m s using assms(2) by simp
  then show ?thesis by (simp add: uint_minus_u64 m s)
qed

lemma stream_reads:
  assumes v: "stream_view w p = Some (data, start, resp)"
    and step: "1 \<le> step" "step \<le> ms"
    and clock: "uint current < 9223372036854775" "uint start + ms * 500000 \<le> uint current"
    and since: "0 \<le> TIMESTAMP_MEASUREMENT_START w"
      "TIMESTAMP_MEASUREMENT_START w + ms * 500000000 \<le> uint current * 1000"
    and counts: "sum_list (map uint (slots_of w p)) + uint (datasize_slow_start data) < 9223372036854775808"
  shows "stream_readable w ms step current p
    \<and> uint (relative_total_of w ms step current p) =
        (uint current - uint start) * 1000 - (ms - step) * 500000000
    \<and> uint (relative_start_of w ms step current) =
        uint current * 1000 - TIMESTAMP_MEASUREMENT_START w - (ms - step) * 500000000"
proof -
  let ?vs = "slots_of w p"
  have nn: "0 \<le> sum_list (map uint ?vs)" by (rule sum_list_nonneg) auto
  have c: "sum_list (map uint ?vs) < 9223372036854775808"
    using counts by (smt (verit) uint_ge_0)
  have b: "uint (bytes_of w step p) \<le> sum_list (map uint ?vs)"
    unfolding bytes_of_def by (rule uint_sum_bytes [OF c])
  have d: "uint (distinct_of w step p) \<le> sum_list (map uint ?vs)"
    unfolding distinct_of_def by (rule uint_slot_bytes [OF c])
  have s: "uint (slow_start_of w p) \<le> uint (datasize_slow_start data)"
    by (simp add: slow_start_of_def v uint_div8_le)
  have sb: "uint (slow_start_of w p + bytes_of w step p) = uint (slow_start_of w p) + uint (bytes_of w step p)"
    using b s counts by (intro uint_plus_u64) linarith
  have cs: "uint (current - start) = uint current - uint start"
    using clock(2) step by (intro uint_minus_u64) simp
  have rt: "uint (relative_total_of w ms step current p) =
      (uint current - uint start) * 1000 - (ms - step) * 500000000"
  proof -
    have "relative_total_of w ms step current p = (current - start) * 1000 - steps_ns (ms - step)"
      by (simp add: relative_total_of_def v)
    moreover have "uint ((current - start) * 1000 - steps_ns (ms - step)) =
        uint (current - start) * 1000 - (ms - step) * 500000000"
    proof (rule uint_time_minus)
      have z: "0 \<le> uint start" by simp
      show "0 \<le> ms - step" using step by simp
      show "(ms - step) * 500000 \<le> uint (current - start)"
        unfolding cs using clock(2) step(1) by (simp add: left_diff_distrib)
      show "uint (current - start) < 9223372036854775"
        unfolding cs using clock(1) z by linarith
    qed
    ultimately show ?thesis by (simp add: cs)
  qed
  have m: "uint (current * 1000) = uint current * 1000" using clock(1) by (subst uint_mult_u64) simp_all
  have t: "uint (u64 (TIMESTAMP_MEASUREMENT_START w)) = TIMESTAMP_MEASUREMENT_START w"
    using since clock step by (intro uint_u64) linarith+
  have d1: "uint (current * 1000 - u64 (TIMESTAMP_MEASUREMENT_START w)) =
      uint current * 1000 - TIMESTAMP_MEASUREMENT_START w"
    using since step by (subst uint_minus_u64) (simp_all add: m t)
  have n: "uint (steps_ns (ms - step)) = (ms - step) * 500000000"
  proof -
    have "ms < 18446744074" using clock uint_ge_0 [of start] by linarith
    then show ?thesis using step by (simp add: steps_ns_def i64_id uint_u64)
  qed
  have rs: "uint (relative_start_of w ms step current) =
      uint current * 1000 - TIMESTAMP_MEASUREMENT_START w - (ms - step) * 500000000"
    using since step by (simp add: relative_start_of_def uint_minus_u64 d1 n)
  have lt: "uint (bytes_of w step p) < 2 ^ 63" "uint (distinct_of w step p) < 2 ^ 63"
    "uint (slow_start_of w p) < 2 ^ 63" "uint (slow_start_of w p + bytes_of w step p) < 2 ^ 63"
    using b d s sb counts nn c by simp_all
  have "uint (relative_total_of w ms step current p) < 2 ^ 63"
    "uint (relative_start_of w ms step current) < 2 ^ 63"
  proof -
    have z: "0 \<le> uint start" by simp
    have "(uint current - uint start) * 1000 - (ms - step) * 500000000 < 9223372036854775808"
      "uint current * 1000 - TIMESTAMP_MEASUREMENT_START w - (ms - step) * 500000000 < 9223372036854775808"
      unfolding left_diff_distrib using clock(1) step(2) since(1) z by linarith+
    then show "uint (relative_total_of w ms step current p) < 2 ^ 63"
      "uint (relative_start_of w ms step current) < 2 ^ 63" unfolding rt rs by simp_all
  qed
  then show ?thesis using lt rt rs by (simp add: stream_readable_def v)
qed

text \<open>C20: No exception in the evaluation of a stream: with a clock that does not run backwards
  past the reported half seconds, a clock below 292 years and fewer than \<open>2^63\<close> counted bits,
  every number fits the \<open>long long\<close> that \<open>std::stoll\<close> reads back, and the times are the
  exact differences.\<close>

theorem stream_evaluates:
  assumes v: "stream_view w p = Some (data, start, resp)" and test: "speed_test w"
    and step: "1 \<le> step" "step \<le> ms"
    and clock: "uint current < 9223372036854775" "uint start + ms * 500000 \<le> uint current"
    and since: "0 \<le> TIMESTAMP_MEASUREMENT_START w"
      "TIMESTAMP_MEASUREMENT_START w + ms * 500000000 \<le> uint current * 1000"
    and counts: "sum_list (map uint (slots_of w p)) + uint (datasize_slow_start data) < 9223372036854775808"
  shows "\<exists>a' obj w'. calc_thread lib cmd current ms step p (a, per, w) = Inr (a', per @ [obj], w') \<and>
      bytes_aggregate a' = bytes_aggregate a + sum_bytes (take (nat step) (slots_of w p)) \<and>
      uint (duration_ns_total a') = (uint current - uint start) * 1000 - (ms - step) * 500000000 \<and>
      uint (relative_time_ns_measurement_start a') =
        uint current * 1000 - TIMESTAMP_MEASUREMENT_START w - (ms - step) * 500000000"
proof -
  note r = stream_reads [OF v step clock since counts]
  have "stream_view w p \<noteq> None" using v by simp
  from calc_thread_sums(1) [OF test step this, of current lib cmd a per] r obtain obj w1 where
    "calc_thread lib cmd current ms step p (a, per, w) = Inr (acc_after w ms step current p a, per @ [obj], w1)"
    by blast
  then show ?thesis using r
    by (intro exI conjI) (assumption, simp_all add: acc_after_def bytes_of_def)
qed

text \<open>C8: Under the same conditions for every reading of the clock, an evaluation publishes one
  object per half second, in order; the object's \<open>bytes_distinct\<close> is the sum of the streams'
  counts in that half second. Streams that are all dropped raise the error flags, others do not.\<close>

theorem evaluation_publishes:
  assumes "speed_test w" "1 \<le> max_steps_of w" "all_readable w (max_steps_of w) ps" "avg_fits lib"
  shows "\<exists>v. calculateMeasurementResultsDownloadUpload lib cmd ps w = Inr v \<and>
      length (published v) = nat (max_steps_of w) \<and>
      (\<forall>j < nat (max_steps_of w). string_value (json_at (published v ! j) ''bytes_distinct'') =
         to_string_u64 (sum_list (map (distinct_of w (int j + 1)) ps))) \<and>
      hasError v = (hasError w \<or> none_counts w ps) \<and>
      STREAMS_DROPPED v = (STREAMS_DROPPED w \<or> none_counts w ps)"
proof -
  obtain v where v: "calculateMeasurementResultsDownloadUpload lib cmd ps w = Inr v"
    "length (published v) = nat (max_steps_of w)"
    "\<forall>j < nat (max_steps_of w).
       is_step_object lib cmd w (max_steps_of w) (int j + 1) ps (published v ! j)"
    "hasError v = (hasError w \<or> none_counts w ps)"
    "STREAMS_DROPPED v = (STREAMS_DROPPED w \<or> none_counts w ps)"
    using calculate_result [OF assms] by blast
  then show ?thesis using is_step_objectD(1) by (metis (no_types, lifting))
qed

text \<open>C39: The evaluation has no result when there is none yet to report: with less than half a
  second elapsed it reads behind the end of the empty result list, and a number of a stream that
  is no \<open>long long\<close> ends it with the exception \<open>std::out_of_range\<close>.\<close>

theorem evaluation_fails:
  shows "(max_steps_of w < 1 \<longrightarrow>
      calculateMeasurementResultsDownloadUpload lib cmd ps w = Inl IndexBeyondEnd)
    \<and> (speed_test w \<and> 1 \<le> max_steps_of w \<and> (\<forall>p\<in>set ps. stream_view w p \<noteq> None) \<and>
       (\<exists>p\<in>set ps. \<not> stream_readable w (max_steps_of w) 1 (clock w (clock_pos w)) p) \<longrightarrow>
      calculateMeasurementResultsDownloadUpload lib cmd ps w = Inl OutOfRange)"
  using calculate_no_step calculate_throws by blast

section \<open>Witnesses\<close>

text \<open>A download of three seconds with one stream and two filled half seconds.\<close>

definition eval_world :: "unit world" where
  "eval_world = world0\<lparr>conf_sTestName := ''download'', TIMER_DURATION := 1200000,
     clock := (\<lambda>_. 5000000), dl_heap := [3 \<mapsto> download0\<lparr>measurementTimeStart := 1000000,
       mResponse := 8, mDownload := data0\<lparr>results := [(0, 800), (1, 160)], datasize_slow_start := 80\<rparr>\<rparr>]\<rparr>"

lemma eval_world_view:
  "stream_view eval_world 3 = Some (data0\<lparr>results := [(0, 800), (1, 160)], datasize_slow_start := 80\<rparr>, 1000000, 8)"
  by (simp add: eval_world_def stream_view_def sample_threads)

lemma eval_world_slots: "slots_of eval_world 3 = [800, 160]"
  by (simp add: slots_of_def eval_world_view kept_slots_def) (simp add: eval_world_def)

lemma eval_world_steps: "max_steps_of eval_world = 2"
  by (simp add: max_steps_of_def eval_world_def clip_steps_def signed_modulo_int_def
      signed_divide_int_def sgn_if word_less_def)

lemma stream_evaluates_witness:
  "\<exists>a' obj w'. calc_thread (lib0 Android) ''report'' 5000000 2 1 3 (new_acc (lib0 Android), [], eval_world) =
       Inr (a', [obj], w') \<and>
     bytes_aggregate a' = 100 \<and> uint (duration_ns_total a') = 3500000000"
proof -
  have t: "TIMESTAMP_MEASUREMENT_START eval_world = 0" "speed_test eval_world"
    by (simp_all add: eval_world_def speed_test_def)
  have "bytes_aggregate (new_acc (lib0 Android)) = 0" by (simp add: new_acc_def)
  then obtain a' obj w' where
    "calc_thread (lib0 Android) ''report'' 5000000 2 1 3 (new_acc (lib0 Android), [], eval_world) =
       Inr (a', [] @ [obj], w')"
    "bytes_aggregate a' = 100" "uint (duration_ns_total a') = 3500000000"
    using stream_evaluates [OF eval_world_view t(2), of 1 2 5000000 "lib0 Android" "''report''"
      "new_acc (lib0 Android)" "[]"]
    by (auto simp: eval_world_slots t(1))
  then show ?thesis by auto
qed

lemma evaluation_publishes_witness:
  "\<exists>v. calculateMeasurementResultsDownloadUpload (lib0 Android) ''report'' [3] eval_world = Inr v \<and>
     length (published v) = 2 \<and>
     string_value (json_at (published v ! 1) ''bytes_distinct'') = to_string_u64 20 \<and> \<not> hasError v"
proof -
  have "stream_readable eval_world 2 step (clock eval_world n) 3" if "1 \<le> step" "step \<le> 2" for step n
  proof -
    have t: "TIMESTAMP_MEASUREMENT_START eval_world = 0" "clock eval_world n = 5000000"
      by (simp_all add: eval_world_def)
    from stream_reads [OF eval_world_view that, of 5000000] show ?thesis
      by (simp add: eval_world_slots t)
  qed
  then have r: "all_readable eval_world (max_steps_of eval_world) [3]"
    by (simp add: all_readable_def eval_world_steps)
  have a: "speed_test eval_world" "1 \<le> max_steps_of eval_world" "avg_fits (lib0 Android)"
    by (simp_all add: eval_world_steps avg_fits_def) (simp add: eval_world_def speed_test_def)
  have "\<not> none_counts eval_world [3]" by (simp add: none_counts_def counts_of_def eval_world_view)
  moreover have "distinct_of eval_world 2 3 = 20" 
    by (simp add: distinct_of_def slot_bytes_def eval_world_slots)
  moreover have "\<not> hasError eval_world" by (simp add: eval_world_def)
  ultimately show ?thesis
    using evaluation_publishes [OF a(1,2) r a(3), of "''report''"]
    by (simp add: eval_world_steps) (metis One_nat_def lessI numeral_2_eq_2 of_nat_1 one_add_one)
qed

lemma evaluation_fails_witness:
  "calculateMeasurementResultsDownloadUpload (lib0 Ios) ''report'' [3] (eval_world\<lparr>TIMER_DURATION := 400000\<rparr>)
     = Inl IndexBeyondEnd"
proof -
  have "max_steps_of (eval_world\<lparr>TIMER_DURATION := 400000\<rparr>) < 1"
    by (simp add: max_steps_of_def eval_world_def clip_steps_def signed_modulo_int_def
        signed_divide_int_def sgn_if word_less_def)
  then show ?thesis
    using evaluation_fails [of "eval_world\<lparr>TIMER_DURATION := 400000\<rparr>" "lib0 Ios" "''report''" "[3]"] by blast
qed

end
