(* ===== verification/Streams.thy ===== *)
theory Streams
  imports World Sample
begin

text \<open>
  What the \<open>run\<close> functions of the IP, download and upload threads share
  (\<open>src/src/tests/ip.cpp\<close>, \<open>download.cpp\<close>, \<open>upload.cpp\<close>): name resolution and
  connection, the mark in \<open>syncing_threads\<close>, the initialisation loops of the result maps, and
  the thread that sends the upload data (\<open>upload_sender.cpp\<close>). What the network and the
  missing library answer is an argument: \<open>conn_env\<close> for the set-up, \<open>rx_env\<close> for one
  receive, \<open>tx_env\<close> for one send.
\<close>

section \<open>Connecting\<close>

record conn_env =
  env_pid :: u64
  env_socktype :: "int option"
  env_host :: string
  env_socket6 :: int
  env_socket4 :: int
  env_response :: int
  env_http_duration :: u64

text \<open>
  \<open>env_socktype\<close> is \<open>None\<close> for the null pointer of \<open>getIpsFromHostname\<close>; \<open>reset\<close> is what
  the class initialises between the mark and the sockets.
\<close>

definition sync_mark :: "u64 \<Rightarrow> int \<Rightarrow> 'a globals_scheme \<Rightarrow> 'a globals_scheme" where
  "sync_mark p v w = w\<lparr>syncing_threads := imap_put (i32 (uint p)) v (syncing_threads w)\<rparr>"

definition unreachable :: "'a globals_scheme \<Rightarrow> 'a globals_scheme" where
  "unreachable w = w\<lparr>UNREACHABLE := True, hasError := True\<rparr>"

definition resolved :: "conn_env \<Rightarrow> bool" where
  "resolved e \<longleftrightarrow> (case env_socktype e of None \<Rightarrow> False | Some s \<Rightarrow> s = 1 \<or> s = 2)"

definition connect_stream ::
  "'c lib \<Rightarrow> ('a stream_thread_scheme \<Rightarrow> 'a stream_thread_scheme) \<Rightarrow> conn_env \<Rightarrow>
     'a stream_thread_scheme \<Rightarrow> 'c world \<Rightarrow> 'a stream_thread_scheme \<times> 'c world" where
  "connect_stream lib reset e t w =
     (let t0 = t\<lparr>pid := env_pid e, ipv6validated := False\<rparr>
      in if \<not> resolved e then (t0\<lparr>run_pc := RunReturned (- 1)\<rparr>, unreachable w)
         else
           let t1 = t0\<lparr>mServer := env_host e, ipv6validated := (validateIp lib (env_host e) = 6)\<rparr>;
               (now, w1) = get_timestamp w;
               t2 = reset (t1\<lparr>measurementTimeStart := now, measurementTimeEnd := 0,
                              measurementTimeDuration := 0\<rparr>);
               w2 = sync_mark (pid t2) 0 w1
           in if (if ipv6validated t2 then env_socket6 e else env_socket4 e) < 0
              then (t2\<lparr>run_pc := RunReturned (- 1)\<rparr>, unreachable w2)
              else (t2\<lparr>run_pc := RunGuard, dataReceived := False\<rparr>, w2))"

text \<open>
  A negative answer of the reference server (download and upload): the flag, then \<open>hasError\<close>; nothing
  but logging is in between, and the two assignments are one step.
\<close>

definition rejected :: "int \<Rightarrow> 'a globals_scheme \<Rightarrow> 'a globals_scheme" where
  "rejected response w =
     (let w1 = (if response = - 1 then w\<lparr>UNREACHABLE := True\<rparr> else w);
          w2 = (if response = - 2 then w1\<lparr>FORBIDDEN := True\<rparr> else w1)
      in w2\<lparr>hasError := True\<rparr>)"

section \<open>Receiving\<close>

text \<open>
  What \<open>receive\<close> does: its result, which is the number of bytes it has written unless it is
  negative, the number of TLS records, and the bytes. The rest of the buffer is zero.
\<close>

record rx_env =
  rx_ret :: int
  rx_tls_records :: int
  rx_buffer :: string

text \<open>
  The buffer as the C string that \<open>std::string\<close> and \<open>Json::parse\<close> read: up to the first NUL, which
  is missing when the bytes have none and fill all \<open>MAX_PACKET_SIZE\<close> bytes.
\<close>

definition received :: "rx_env \<Rightarrow> string" where
  "received rx = take (nat (rx_ret rx)) (rx_buffer rx)"

definition terminated :: "'c lib \<Rightarrow> rx_env \<Rightarrow> bool" where
  "terminated lib rx \<longleftrightarrow> CHR 0x00 \<in> set (received rx) \<or> int (length (received rx)) < MAX_PACKET_SIZE lib"

definition c_text :: "rx_env \<Rightarrow> string" where
  "c_text rx = takeWhile (\<lambda>c. c \<noteq> CHR 0x00) (received rx)"

definition c_string :: "'c lib \<Rightarrow> rx_env \<Rightarrow> fault + string" where
  "c_string lib rx = (if terminated lib rx then Inr (c_text rx) else Inl BufferOverrun)"

text \<open>The first return of \<open>receive\<close> marks the stream as ready.\<close>

definition first_receive :: "'t test_thread_scheme \<Rightarrow> 'a globals_scheme \<Rightarrow> 'a globals_scheme" where
  "first_receive t w = (if dataReceived t then w else sync_mark (pid t) 1 w)"

text \<open>
  \<open>for (int i = a; i <= bound; i += step) results[i] = 0\<close> with an unsigned bound. The counter
  is converted to \<open>unsigned long long\<close> in the comparison; if it overflows, the behaviour is
  undefined. Both callers have a positive step.
\<close>

function fill_zero :: "int \<Rightarrow> u64 \<Rightarrow> int \<Rightarrow> imap \<Rightarrow> fault + imap" where
  "fill_zero step bound i m =
     (if 0 < step \<and> u64 i \<le> bound then
        (if 2147483648 \<le> i + step then Inl SignedOverflow
         else fill_zero step bound (i + step) (imap_put i 0 m))
      else Inr m)"
  by pat_completeness auto
termination
  by (relation "measure (\<lambda>(step, bound, i, m). nat (2147483648 - i))") auto

declare fill_zero.simps [simp del]

section \<open>The upload sender\<close>

text \<open>
  \<open>CUploadSender::run\<close>: what the loop sees in one iteration is \<open>tx_env\<close> (the loop condition,
  the answer of \<open>send\<close>, the stop flag); \<open>nPointer\<close> is its state. The result is the list of
  offsets from which \<open>MAX_PACKET_SIZE\<close> bytes are sent, and the pointer at the end.
\<close>

record tx_env =
  tx_running :: bool
  tx_ret :: int
  tx_fStop :: bool

definition wrap_pointer :: "'c lib \<Rightarrow> u64 \<Rightarrow> u64 \<Rightarrow> u64" where
  "wrap_pointer lib buf n =
     (if buf < n + u64 (MAX_PACKET_SIZE lib) then n + u64 (MAX_PACKET_SIZE lib) - buf else n)"

fun sender_loop :: "'c lib \<Rightarrow> u64 \<Rightarrow> u64 \<Rightarrow> tx_env list \<Rightarrow> u64 list \<times> u64" where
  "sender_loop lib buf n [] = ([], n)"
| "sender_loop lib buf n (e # es) =
     (if \<not> tx_running e then ([], n)
      else
        let offset = wrap_pointer lib buf n;
            after = offset + u64 (MAX_PACKET_SIZE lib)
        in if tx_ret e = - 1 \<or> tx_ret e = 0 \<or> tx_fStop e then ([offset], after)
           else (let (offsets, n') = sender_loop lib buf after es in (offset # offsets, n')))"

definition CUploadSender_run :: "'c lib \<Rightarrow> u64 \<Rightarrow> tx_env list \<Rightarrow> u64 list \<times> u64" where
  "CUploadSender_run lib buf es = sender_loop lib buf 1 es"

section \<open>The initialisation loop\<close>

text \<open>The loop ends with a zero under every key it visits, and touches no other key.\<close>

lemma fill_zero_result:
  assumes "0 < step" "0 \<le> i" "i < 2147483648" "uint bound + step < 2147483648" "imap_inv m"
  shows "\<exists>m'. fill_zero step bound i m = Inr m' \<and> imap_inv m' \<and>
    (\<forall>k. map_of m' k = (if i \<le> k \<and> k \<le> uint bound \<and> step dvd k - i then Some 0 else map_of m k))"
  using assms
proof (induction step bound i m rule: fill_zero.induct)
  case (1 step bound i m)
  have u: "uint (u64 i) = i" using "1.prems" by (intro uint_u64) simp_all
  then have le: "(u64 i \<le> bound) = (i \<le> uint bound)" by (simp add: word_le_def)
  show ?case
  proof (cases "i \<le> uint bound")
    case True
    then have n: "i + step < 2147483648" using "1.prems"(4) by simp
    have inv: "imap_inv (imap_put i 0 m)" using "1.prems"(5) by (rule im.inv_put)
    obtain m' where m': "fill_zero step bound (i + step) (imap_put i 0 m) = Inr m'" "imap_inv m'"
      "\<And>k. map_of m' k = (if i + step \<le> k \<and> k \<le> uint bound \<and> step dvd k - (i + step) then Some 0
         else map_of (imap_put i 0 m) k)"
      using "1.IH" True n "1.prems" inv le by fastforce
    have e: "(i + step \<le> k \<and> k \<le> uint bound \<and> step dvd k - (i + step) \<or> k = i) =
        (i \<le> k \<and> k \<le> uint bound \<and> step dvd k - i)" for k
    proof -
      have "step dvd k - (i + step) \<longleftrightarrow> step dvd k - i"
        by (metis (no_types) diff_diff_eq dvd_minus_self dvd_diff_commute dvd_refl dvd_diff diff_add_cancel dvd_add_right_iff)
      moreover have "i + step \<le> k" if "step dvd k - i" "i \<le> k" "k \<noteq> i"
        using zdvd_imp_le [OF that(1)] that(2,3) by simp
      ultimately show ?thesis using True "1.prems"(1) by auto
    qed
    have "fill_zero step bound i m = Inr m'"
      using True n le m'(1) "1.prems"(1) by (simp add: fill_zero.simps [of step bound i])
    moreover have "map_of m' k = (if i \<le> k \<and> k \<le> uint bound \<and> step dvd k - i then Some 0 else map_of m k)" for k
      using e [of k] m'(3) [of k] im.get_put [OF "1.prems"(5), of i 0 k] by (auto split: if_splits)
    ultimately show ?thesis using m'(2) by blast
  next
    case False
    then have "fill_zero step bound i m = Inr m" using le by (simp add: fill_zero.simps [of step bound i])
    then show ?thesis using False "1.prems"(5) by auto
  qed
qed

section \<open>The sender stays in its buffer\<close>

definition in_buffer :: "'c lib \<Rightarrow> u64 \<Rightarrow> u64 \<Rightarrow> bool" where
  "in_buffer lib buf offset \<longleftrightarrow> 1 \<le> uint offset \<and> uint offset + MAX_PACKET_SIZE lib \<le> uint buf"

lemma wrap_pointer_in_buffer:
  assumes "0 < MAX_PACKET_SIZE lib" "2 * MAX_PACKET_SIZE lib \<le> uint buf" "uint buf < 2 ^ 63"
    "1 \<le> uint n" "uint n \<le> uint buf"
  shows "in_buffer lib buf (wrap_pointer lib buf n)"
    "uint (wrap_pointer lib buf n + u64 (MAX_PACKET_SIZE lib)) =
       uint (wrap_pointer lib buf n) + MAX_PACKET_SIZE lib"
proof -
  let ?m = "MAX_PACKET_SIZE lib"
  have m: "uint (u64 ?m) = ?m" using assms(1,2,3) by (intro uint_u64) simp_all
  have s: "uint (n + u64 ?m) = uint n + ?m"
    using assms m by (subst uint_plus_u64) simp_all
  show b: "in_buffer lib buf (wrap_pointer lib buf n)"
  proof (cases "uint buf < uint n + ?m")
    case True
    then have "uint (n + u64 ?m - buf) = uint n + ?m - uint buf"
      by (subst uint_minus_u64) (simp_all add: s)
    then show ?thesis using True assms by (simp add: wrap_pointer_def in_buffer_def word_less_def s)
  next
    case False
    then show ?thesis using assms by (simp add: wrap_pointer_def in_buffer_def word_less_def s)
  qed
  show "uint (wrap_pointer lib buf n + u64 ?m) = uint (wrap_pointer lib buf n) + ?m"
    using b assms(3) m by (subst uint_plus_u64) (simp_all add: in_buffer_def)
qed

lemma sender_loop_in_buffer:
  assumes "0 < MAX_PACKET_SIZE lib" "2 * MAX_PACKET_SIZE lib \<le> uint buf" "uint buf < 2 ^ 63"
    "1 \<le> uint n" "uint n \<le> uint buf"
  shows "\<forall>x\<in>set (fst (sender_loop lib buf n es)). in_buffer lib buf x"
  using assms(4,5)
proof (induction es arbitrary: n)
  case (Cons e es)
  let ?o = "wrap_pointer lib buf n"
  let ?a = "?o + u64 (MAX_PACKET_SIZE lib)"
  note w = wrap_pointer_in_buffer [OF assms(1-3) Cons.prems]
  have "1 \<le> uint ?a" "uint ?a \<le> uint buf" using w assms(1) by (simp_all add: in_buffer_def)
  from Cons.IH [OF this] show ?case using w(1) by (auto simp: Let_def split: prod.splits)
qed simp

text \<open>How many iterations send a packet: all up to the first that stops.\<close>

fun sends_until :: "tx_env list \<Rightarrow> nat" where
  "sends_until [] = 0"
| "sends_until (e # es) =
     (if \<not> tx_running e then 0
      else if tx_ret e = - 1 \<or> tx_ret e = 0 \<or> tx_fStop e then 1 else Suc (sends_until es))"

lemma sender_loop_count: "length (fst (sender_loop lib buf n es)) = sends_until es"
  by (induction es arbitrary: n) (auto simp: Let_def case_prod_beta)

text \<open>C26: The sender reads only inside the buffer of random data, when the buffer holds at least
  two packets: every packet starts behind the first byte and ends within the buffer. It
  sends one packet per iteration until the loop's condition, the connection or the stop flag
  ends it.\<close>

theorem sender_in_bounds:
  assumes "0 < MAX_PACKET_SIZE lib" "2 * MAX_PACKET_SIZE lib \<le> uint buf" "uint buf < 2 ^ 63"
  shows "(\<forall>x\<in>set (fst (CUploadSender_run lib buf es)).
            1 \<le> uint x \<and> uint x + MAX_PACKET_SIZE lib \<le> uint buf)
         \<and> length (fst (CUploadSender_run lib buf es)) = sends_until es"
  using sender_loop_in_buffer [OF assms, of 1 es] assms(1,2)
  by (simp add: CUploadSender_run_def in_buffer_def sender_loop_count)

lemma sender_in_bounds_witness:
  "length (fst (CUploadSender_run (lib0 Ios) 11234570 [\<lparr>tx_running = True, tx_ret = 4096, tx_fStop = False\<rparr>])) = 1
   \<and> uint (hd (fst (CUploadSender_run (lib0 Ios) 11234570 [\<lparr>tx_running = True, tx_ret = 4096, tx_fStop = False\<rparr>])))
       + 4096 \<le> 11234570"
proof -
  let ?ps = "fst (CUploadSender_run (lib0 Ios) 11234570 [\<lparr>tx_running = True, tx_ret = 4096, tx_fStop = False\<rparr>])"
  have b: "\<forall>x\<in>set ?ps. 1 \<le> uint x \<and> uint x + 4096 \<le> 11234570" and l: "length ?ps = 1"
    using sender_in_bounds [of "lib0 Ios" 11234570 "[\<lparr>tx_running = True, tx_ret = 4096, tx_fStop = False\<rparr>]"]
    by simp_all
  from l have "?ps \<noteq> []" by auto
  with b l show ?thesis by (meson hd_in_set)
qed

section \<open>The contract of the threads\<close>

text \<open>
  \<open>run\<close> of every test thread is a sequence of steps of its own, one per call that blocks or
  loop iteration. The answers of the network in one step are a \<open>thread_env\<close>.
\<close>

record thread_env =
  te_conn :: conn_env
  te_rx :: rx_env

definition returned :: "run_pc \<Rightarrow> bool" where
  "returned c \<longleftrightarrow> (case c of RunReturned _ \<Rightarrow> True | _ \<Rightarrow> False)"

text \<open>
  What a test thread may do to the shared state: it leaves the timer, the callback's data and
  the other objects alone, takes back no error, no stop and no flag, and raises
  \<open>hasError\<close> whenever it raises one of the error flags.
\<close>

definition erase_worker :: "'c world \<Rightarrow> 'c world" where
  "erase_worker w = w\<lparr>clock_pos := 0, syncing_threads := [], RUNNING := False, hasError := False,
     UNREACHABLE := False, FORBIDDEN := False, TLS_PARAMETERS_MISSING := False,
     TIMER_STOPPED := False, TIMER_INDEX_UPLOAD_FIRST := 0, MEASUREMENT_DURATION := 0\<rparr>"

definition worker_effect :: "'c world \<Rightarrow> 'c world \<Rightarrow> bool" where
  "worker_effect w v \<longleftrightarrow> erase_worker v = erase_worker w \<and> clock_pos w \<le> clock_pos v \<and>
     (RUNNING v \<longrightarrow> RUNNING w) \<and> (hasError w \<longrightarrow> hasError v) \<and>
     (TIMER_STOPPED w \<longrightarrow> TIMER_STOPPED v) \<and> (UNREACHABLE w \<longrightarrow> UNREACHABLE v) \<and>
     (FORBIDDEN w \<longrightarrow> FORBIDDEN v) \<and> (TLS_PARAMETERS_MISSING w \<longrightarrow> TLS_PARAMETERS_MISSING v) \<and>
     (error_discipline w \<longrightarrow> error_discipline v)"

lemma worker_effect_refl [simp]: "worker_effect w w"
  by (simp add: worker_effect_def)

lemma worker_effect_trans: "worker_effect u v \<Longrightarrow> worker_effect v w \<Longrightarrow> worker_effect u w"
  by (auto simp: worker_effect_def)

lemma worker_effect_frame:
  assumes "worker_effect w v"
  shows "timer v = timer w" "trace v = trace w" "TIMER_RUNNING v = TIMER_RUNNING w"
    "TIMER_INDEX v = TIMER_INDEX w" "STREAMS_DROPPED v = STREAMS_DROPPED w" "main_pc v = main_pc w"
    "PERFORMED_IP v = PERFORMED_IP w" "PERFORMED_RTT v = PERFORMED_RTT w"
    "PERFORMED_DOWNLOAD v = PERFORMED_DOWNLOAD w" "PERFORMED_UPLOAD v = PERFORMED_UPLOAD w"
    "out v = out w" "dl_heap v = dl_heap w" "ul_heap v = ul_heap w"
proof -
  have e: "erase_worker v = erase_worker w" using assms by (simp add: worker_effect_def)
  show "timer v = timer w" "trace v = trace w" "TIMER_RUNNING v = TIMER_RUNNING w"
    "TIMER_INDEX v = TIMER_INDEX w" "STREAMS_DROPPED v = STREAMS_DROPPED w" "main_pc v = main_pc w"
    "PERFORMED_IP v = PERFORMED_IP w" "PERFORMED_RTT v = PERFORMED_RTT w"
    "PERFORMED_DOWNLOAD v = PERFORMED_DOWNLOAD w" "PERFORMED_UPLOAD v = PERFORMED_UPLOAD w"
    "out v = out w" "dl_heap v = dl_heap w" "ul_heap v = ul_heap w"
    using arg_cong [OF e, of timer] arg_cong [OF e, of trace] arg_cong [OF e, of TIMER_RUNNING]
      arg_cong [OF e, of TIMER_INDEX] arg_cong [OF e, of STREAMS_DROPPED] arg_cong [OF e, of main_pc]
      arg_cong [OF e, of PERFORMED_IP] arg_cong [OF e, of PERFORMED_RTT]
      arg_cong [OF e, of PERFORMED_DOWNLOAD] arg_cong [OF e, of PERFORMED_UPLOAD]
      arg_cong [OF e, of out] arg_cong [OF e, of dl_heap] arg_cong [OF e, of ul_heap]
    by (simp_all add: erase_worker_def)
qed

lemma erase_worker_simps [simp]:
  "erase_worker (w\<lparr>clock_pos := n\<rparr>) = erase_worker w"
  "erase_worker (w\<lparr>syncing_threads := m\<rparr>) = erase_worker w"
  "erase_worker (w\<lparr>RUNNING := b\<rparr>) = erase_worker w"
  "erase_worker (w\<lparr>hasError := b\<rparr>) = erase_worker w"
  "erase_worker (w\<lparr>UNREACHABLE := b\<rparr>) = erase_worker w"
  "erase_worker (w\<lparr>FORBIDDEN := b\<rparr>) = erase_worker w"
  "erase_worker (w\<lparr>TLS_PARAMETERS_MISSING := b\<rparr>) = erase_worker w"
  "erase_worker (w\<lparr>TIMER_STOPPED := b\<rparr>) = erase_worker w"
  "erase_worker (w\<lparr>TIMER_INDEX_UPLOAD_FIRST := i\<rparr>) = erase_worker w"
  "erase_worker (w\<lparr>MEASUREMENT_DURATION := d\<rparr>) = erase_worker w"
  by (simp_all add: erase_worker_def)

text \<open>The atomic effects that the threads are made of.\<close>

lemma worker_effect_parts [simp, intro]:
  "worker_effect w (w\<lparr>clock_pos := Suc (clock_pos w)\<rparr>)"
  "worker_effect w (sync_mark p v w)"
  "worker_effect w (unreachable w)"
  "worker_effect w (rejected r w)"
  "worker_effect w (first_receive t w)"
  "worker_effect w (w\<lparr>hasError := True\<rparr>)"
  "worker_effect w (w\<lparr>hasError := True, RUNNING := False\<rparr>)"
  "worker_effect w (w\<lparr>TIMER_STOPPED := True\<rparr>)"
  "worker_effect w (w\<lparr>TIMER_INDEX_UPLOAD_FIRST := i\<rparr>)"
  "worker_effect w (w\<lparr>MEASUREMENT_DURATION := d\<rparr>)"
  "worker_effect w (w\<lparr>TLS_PARAMETERS_MISSING := True, hasError := True\<rparr>)"
  by (auto simp: worker_effect_def error_discipline_def error_flags_def sync_mark_def unreachable_def
      rejected_def first_receive_def Let_def)

text \<open>
  A thread among the others: between two steps of its own, \<open>R\<close> says what the rest may do to the
  object and the shared state.
\<close>

inductive interleaved ::
  "('e \<Rightarrow> 's \<Rightarrow> fault + 's) \<Rightarrow> ('s \<Rightarrow> 's \<Rightarrow> bool) \<Rightarrow> nat \<Rightarrow> 's \<Rightarrow> 's \<Rightarrow> bool" for step R where
  start: "interleaved step R 0 s s"
| others: "interleaved step R n s u \<Longrightarrow> R u v \<Longrightarrow> interleaved step R n s v"
| own: "interleaved step R n s u \<Longrightarrow> step e u = Inr v \<Longrightarrow> interleaved step R (Suc n) s v"

text \<open>How many steps of its own a stopped thread still makes.\<close>

fun steps_to_return :: "run_pc \<Rightarrow> nat" where
  "steps_to_return (RunReturned r) = 0"
| "steps_to_return RunGuard = 1"
| "steps_to_return RunReceive = 2"
| "steps_to_return RunEntry = 3"

lemma steps_to_return_0: "steps_to_return c = 0 \<longleftrightarrow> returned c"
  by (cases c) (simp_all add: returned_def)

text \<open>The others neither restart a stopped measurement nor move the thread.\<close>

definition stays_stopped :: "('t \<Rightarrow> run_pc) \<Rightarrow> 't \<times> 'c world \<Rightarrow> 't \<times> 'c world \<Rightarrow> bool" where
  "stays_stopped pc s s' \<longleftrightarrow> pc (fst s') = pc (fst s) \<and> (RUNNING (snd s') \<longrightarrow> RUNNING (snd s))"

locale worker =
  fixes step :: "'e \<Rightarrow> 't \<times> 'c world \<Rightarrow> fault + 't \<times> 'c world"
    and pc :: "'t \<Rightarrow> run_pc"
  assumes effect: "step e (t, w) = Inr (t', v) \<Longrightarrow> worker_effect w v"
    and returned_stays: "returned (pc t) \<Longrightarrow> step e (t, w) = Inr (t', v) \<Longrightarrow> returned (pc t')"
    and guard_returns: "pc t = RunGuard \<Longrightarrow> \<not> RUNNING w \<Longrightarrow> step e (t, w) = Inr (t', v) \<Longrightarrow> returned (pc t')"
    and receive_ends: "pc t = RunReceive \<Longrightarrow> step e (t, w) = Inr (t', v) \<Longrightarrow> pc t' = RunGuard \<or> returned (pc t')"
    and entry_ends: "pc t = RunEntry \<Longrightarrow> step e (t, w) = Inr (t', v) \<Longrightarrow> pc t' = RunGuard \<or> returned (pc t')"
begin

lemma keeps_discipline:
  "step e (t, w) = Inr (t', v) \<Longrightarrow> error_discipline w \<Longrightarrow> error_discipline v"
  using effect by (simp add: worker_effect_def)

lemma run_effect:
  assumes "interleaved step (\<lambda>s s'. worker_effect (snd s) (snd s')) n s s'"
  shows "worker_effect (snd s) (snd s')"
  using assms
proof (induction rule: interleaved.induct)
  case (others n s u v)
  then show ?case by (blast intro: worker_effect_trans)
next
  case (own n s u e v)
  then show ?case using effect [of e "fst u" "snd u" "fst v" "snd v"] by (auto intro: worker_effect_trans)
qed simp

lemma step_decreases:
  assumes "step e s = Inr s'" "\<not> RUNNING (snd s)"
  shows "steps_to_return (pc (fst s')) \<le> steps_to_return (pc (fst s)) - 1 \<and> \<not> RUNNING (snd s')"
proof -
  obtain t w t' v where s: "s = (t, w)" "s' = (t', v)" by (cases s; cases s')
  have st: "step e (t, w) = Inr (t', v)" using assms s by simp
  have g: "returned c \<Longrightarrow> steps_to_return c = 0" for c by (simp add: steps_to_return_0)
  have "steps_to_return (pc t') \<le> steps_to_return (pc t) - 1"
  proof (cases "pc t")
    case RunEntry
    then show ?thesis using entry_ends [OF _ st] g by fastforce
  next
    case RunGuard
    then show ?thesis using guard_returns [OF _ _ st] g assms(2) s by fastforce
  next
    case RunReceive
    then show ?thesis using receive_ends [OF _ st] g by fastforce
  next
    case (RunReturned r)
    then show ?thesis using returned_stays [OF _ st] g by (simp add: returned_def)
  qed
  moreover have "\<not> RUNNING v" using effect [OF st] assms(2) s by (auto simp: worker_effect_def)
  ultimately show ?thesis using s by simp
qed

text \<open>A stopped thread returns within three steps of its own.\<close>

lemma stops:
  assumes "interleaved step (stays_stopped pc) n s s'" "\<not> RUNNING (snd s)" "3 \<le> n"
  shows "returned (pc (fst s'))"
proof -
  have "steps_to_return (pc (fst s')) \<le> steps_to_return (pc (fst s)) - n \<and> \<not> RUNNING (snd s')"
    using assms(1,2)
  proof (induction rule: interleaved.induct)
    case (others n s u v)
    then show ?case by (auto simp: stays_stopped_def)
  next
    case (own n s u e v)
    then show ?case using step_decreases [OF own.hyps(2)] by fastforce
  qed simp
  moreover have "steps_to_return c \<le> 3" for c by (cases c) simp_all
  ultimately show ?thesis using assms(3) by (metis diff_is_0_eq le_trans le_zero_eq steps_to_return_0)
qed

end

lemma connect_stream_effect:
  assumes "connect_stream lib reset e t w = (t', v)"
  shows "worker_effect w v" "run_pc t' = RunGuard \<or> returned (run_pc t')"
proof -
  have s: "worker_effect w (sync_mark p 0 (w\<lparr>clock_pos := Suc (clock_pos w)\<rparr>))" for p
    by (rule worker_effect_trans [OF worker_effect_parts(1) worker_effect_parts(2)])
  show "worker_effect w v" "run_pc t' = RunGuard \<or> returned (run_pc t')"
    using assms s worker_effect_trans [OF s worker_effect_parts(3)]
    by (auto simp: connect_stream_def get_timestamp_def Let_def returned_def split: if_splits)
qed

lemma worker_effect_rejected: "worker_effect w v \<Longrightarrow> worker_effect w (rejected r v)"
  by (rule worker_effect_trans [OF _ worker_effect_parts(4)])

end
