(* ===== verification/Download.thy ===== *)
theory Download
  imports Streams
begin

text \<open>
  The class \<open>Download\<close> (\<open>src/src/tests/download.cpp\<close>): one stream of the download test.
  \<open>download_setup\<close> is \<open>run\<close> up to the loop, \<open>download_guard\<close> the loop's condition,
  \<open>download_receive\<close> the loop body from the return of \<open>receive\<close> on. Between these steps the
  other threads may change the globals.
\<close>

definition Download_new :: "'c lib \<Rightarrow> 'c \<Rightarrow> string \<Rightarrow> int \<Rightarrow> download \<Rightarrow> download" where
  "Download_new lib xml provider nTlsOverhead raw =
     raw\<lparr>run_pc := RunEntry, m_fStop := False,
         mServerName := readString lib xml provider ''DNS_HOSTNAME'' ''example.com'',
         mServer := readString lib xml provider ''IP'' ''1.1.1.1'',
         mClient := ''0.0.0.0'',
         mPort := i32 (readLong lib xml provider ''PORT'' 443),
         mTls := i32 (readLong lib xml provider ''TLS'' 1),
         mTlsOverhead := nTlsOverhead, mDownload := new_data lib\<rparr>"

definition download_setup ::
  "'c lib \<Rightarrow> conn_env \<Rightarrow> download \<Rightarrow> 'c world \<Rightarrow> fault + download \<times> 'c world" where
  "download_setup lib e d w =
     (let (d1, w1) = connect_stream lib
            (\<lambda>t. t\<lparr>nHttpResponseDuration := 0, nHttpResponseReportValue := 0\<rparr>) e d w
      in if run_pc d1 \<noteq> RunGuard then Inr (d1, w1)
         else if env_response e < 0 then
           Inr (d1\<lparr>run_pc := RunReturned 0\<rparr>, rejected (env_response e) w1)
         else
           res_map (\<lambda>m. (d1\<lparr>nHttpResponseDuration := env_http_duration e,
                   mDownload := (mDownload d1)\<lparr>datasize_total := 0, datasize_slow_start := 0,
                                              results := m\<rparr>\<rparr>, w1))
             (fill_zero 1 (MEASUREMENT_DURATION w1 * 2) 0 (results (mDownload d1))))"

definition download_guard :: "'a globals_scheme \<Rightarrow> download \<Rightarrow> download" where
  "download_guard w d =
     (if RUNNING w \<and> TIMER_ACTIVE w \<and> \<not> TIMER_STOPPED w \<and> \<not> m_fStop d
      then d\<lparr>run_pc := RunReceive\<rparr> else d\<lparr>run_pc := RunReturned 0\<rparr>)"

text \<open>The bits of one packet: the payload and the TLS records' overhead, times 8, as \<open>int\<close>.\<close>

definition packet_bits :: "rx_env \<Rightarrow> download \<Rightarrow> int" where
  "packet_bits rx d = i32 (i32 (rx_ret rx + i32 (rx_tls_records rx * mTlsOverhead d)) * 8)"

definition count_packet :: "'a globals_scheme \<Rightarrow> int \<Rightarrow> measurement_data \<Rightarrow> measurement_data" where
  "count_packet w bits m =
     (let m1 = m\<lparr>datasize_total := datasize_total m + u64 bits\<rparr>
      in if TIMER_RUNNING w \<and> \<not> hasError w then
           let m2 = m1\<lparr>results := imap_add (TIMER_INDEX w) (u64 bits) (results m1)\<rparr>
           in if datasize_slow_start m2 = 0 \<and> TIMER_INDEX w = 0
              then m2\<lparr>datasize_slow_start := datasize_total m2 - u64 bits\<rparr> else m2
         else m1)"

definition download_receive ::
  "rx_env \<Rightarrow> download \<Rightarrow> 'a globals_scheme \<Rightarrow> download \<times> 'a globals_scheme" where
  "download_receive rx d w =
     (let w1 = first_receive d w;
          d1 = d\<lparr>mResponse := rx_ret rx, dataReceived := True\<rparr>
      in if rx_ret rx = - 1 \<or> rx_ret rx = 0 then (d1\<lparr>run_pc := RunReturned 0\<rparr>, w1)
         else (d1\<lparr>mResponse := packet_bits rx d1,
                  mDownload := count_packet w1 (packet_bits rx d1) (mDownload d1),
                  run_pc := RunGuard\<rparr>, w1))"


section \<open>The thread\<close>

text \<open>One step of \<open>Download::run\<close>.\<close>

definition download_step ::
  "'c lib \<Rightarrow> thread_env \<Rightarrow> download \<times> 'c world \<Rightarrow> fault + download \<times> 'c world" where
  "download_step lib e s =
     (case s of (d, w) \<Rightarrow>
        (case run_pc d of
           RunEntry \<Rightarrow> download_setup lib (te_conn e) d w
         | RunGuard \<Rightarrow> Inr (download_guard w d, w)
         | RunReceive \<Rightarrow> Inr (download_receive (te_rx e) d w)
         | RunReturned _ \<Rightarrow> Inr (d, w)))"

lemma download_setup_effect:
  assumes "download_setup lib e d w = Inr (d', v)"
  shows "worker_effect w v" "run_pc d' = RunGuard \<or> returned (run_pc d')"
proof -
  obtain d1 w1 where c: "connect_stream lib
      (\<lambda>t. t\<lparr>nHttpResponseDuration := 0, nHttpResponseReportValue := 0\<rparr>) e d w = (d1, w1)"
    by (cases "connect_stream lib
      (\<lambda>t. t\<lparr>nHttpResponseDuration := 0, nHttpResponseReportValue := 0\<rparr>) e d w")
  note ce = connect_stream_effect [OF c]
  show "worker_effect w v" "run_pc d' = RunGuard \<or> returned (run_pc d')"
    using assms ce worker_effect_rejected [OF ce(1)]
    by (auto simp: download_setup_def c res_map_Inr_iff returned_def split: if_splits)
qed

lemma download_receive_effect:
  "worker_effect w (snd (download_receive rx d w))"
  "run_pc (fst (download_receive rx d w)) = RunGuard \<or> returned (run_pc (fst (download_receive rx d w)))"
  by (auto simp: download_receive_def Let_def returned_def)

interpretation dl: worker "download_step lib" run_pc
proof
  fix e t w t' v
  assume s: "download_step lib e (t, w) = Inr (t', v)"
  show "worker_effect w v"
    using s download_setup_effect(1) download_receive_effect(1) [of w "te_rx e" t]
    by (auto simp: download_step_def split: run_pc.splits)
  show "returned (run_pc t')" if "returned (run_pc t)"
    using s that by (auto simp: download_step_def returned_def split: run_pc.splits)
  show "returned (run_pc t')" if "run_pc t = RunGuard" "\<not> RUNNING w"
    using s that by (auto simp: download_step_def download_guard_def returned_def)
  show "run_pc t' = RunGuard \<or> returned (run_pc t')" if "run_pc t = RunReceive"
    using s that download_receive_effect(2) [of "te_rx e" t w] by (simp add: download_step_def)
  show "run_pc t' = RunGuard \<or> returned (run_pc t')" if "run_pc t = RunEntry"
    using s that download_setup_effect(2) by (simp add: download_step_def)
qed

section \<open>What is counted\<close>

text \<open>A packet is one \<open>receive\<close> with the globals the thread sees then.\<close>

definition accepted :: "rx_env \<Rightarrow> bool" where
  "accepted rx \<longleftrightarrow> rx_ret rx \<noteq> - 1 \<and> rx_ret rx \<noteq> 0"

definition counted :: "'a globals_scheme \<Rightarrow> bool" where
  "counted w \<longleftrightarrow> TIMER_RUNNING w \<and> \<not> hasError w"

definition download_packets :: "(rx_env \<times> 'a globals_scheme) list \<Rightarrow> download \<Rightarrow> download" where
  "download_packets ps d = fold (\<lambda>(rx, w) d. fst (download_receive rx d w)) ps d"

lemma download_receive_data:
  "mDownload (fst (download_receive rx d w)) =
     (if accepted rx then count_packet (first_receive d w) (packet_bits rx d) (mDownload d) else mDownload d)"
  "mTlsOverhead (fst (download_receive rx d w)) = mTlsOverhead d"
  by (auto simp: download_receive_def accepted_def packet_bits_def Let_def)

lemma first_receive_frame [simp]:
  "TIMER_RUNNING (first_receive t w) = TIMER_RUNNING w" "hasError (first_receive t w) = hasError w"
  "TIMER_INDEX (first_receive t w) = TIMER_INDEX w" "RUNNING (first_receive t w) = RUNNING w"
  "MEASUREMENT_DURATION (first_receive t w) = MEASUREMENT_DURATION w"
  by (simp_all add: first_receive_def sync_mark_def)

lemma count_packet_data:
  "datasize_total (count_packet w bits m) = datasize_total m + u64 bits"
  "results (count_packet w bits m) =
     (if counted w then imap_add (TIMER_INDEX w) (u64 bits) (results m) else results m)"
  by (simp_all add: count_packet_def counted_def Let_def)

text \<open>\<open>packet_bits\<close> depends on the thread only through the overhead per TLS record.\<close>

definition bits_of :: "int \<Rightarrow> rx_env \<Rightarrow> u64" where
  "bits_of overhead rx = u64 (i32 (i32 (rx_ret rx + i32 (rx_tls_records rx * overhead)) * 8))"

definition sum_bits :: "int \<Rightarrow> (rx_env \<times> 'a globals_scheme) list \<Rightarrow> u64" where
  "sum_bits overhead ps = sum_list (map (\<lambda>(rx, w). bits_of overhead rx) ps)"

text \<open>C12: Nothing is lost and nothing is counted twice: after any sequence of packets the total is
  the sum of the bits of all accepted packets, and the half second slots together hold the bits
  of those received while the timer ran without error (all sums modulo \<open>2^64\<close>).\<close>

theorem download_conserves:
  assumes "imap_inv (results (mDownload d))"
  shows "datasize_total (mDownload (download_packets ps d)) =
      datasize_total (mDownload d) + sum_bits (mTlsOverhead d) (filter (\<lambda>(rx, w). accepted rx) ps)
    \<and> imap_total (results (mDownload (download_packets ps d))) =
      imap_total (results (mDownload d)) +
      sum_bits (mTlsOverhead d) (filter (\<lambda>(rx, w). accepted rx \<and> counted w) ps)
    \<and> imap_inv (results (mDownload (download_packets ps d)))"
  using assms
proof (induction ps arbitrary: d)
  case Nil
  then show ?case by (simp add: download_packets_def sum_bits_def)
next
  case (Cons p ps)
  obtain rx w where p: "p = (rx, w)" by (cases p)
  let ?d = "fst (download_receive rx d w)"
  have b: "u64 (packet_bits rx d) = bits_of (mTlsOverhead d) rx"
    by (simp add: packet_bits_def bits_of_def)
  have c: "counted (first_receive d w) = counted w" by (simp add: counted_def)
  have data: "datasize_total (mDownload ?d) =
      datasize_total (mDownload d) + (if accepted rx then bits_of (mTlsOverhead d) rx else 0)"
    "imap_total (results (mDownload ?d)) = imap_total (results (mDownload d)) +
       (if accepted rx \<and> counted w then bits_of (mTlsOverhead d) rx else 0)"
    "imap_inv (results (mDownload ?d))"
    using Cons.prems
    by (simp_all add: download_receive_data count_packet_data c b imap_total_add imap_add_inv)
  have s: "download_packets ((rx, w) # ps) d = download_packets ps ?d"
    by (simp add: download_packets_def)
  show ?case
    using Cons.IH [OF data(3)] data
    unfolding p s by (simp add: download_receive_data(2) sum_bits_def add.assoc)
qed

section \<open>The slots\<close>

definition prepared :: "u64 \<Rightarrow> imap \<Rightarrow> bool" where
  "prepared duration m \<longleftrightarrow> imap_inv m \<and> {0..2 * uint duration} \<subseteq> dom (map_of m)"

text \<open>C25: A download that gets past its set-up has a zeroed slot for every half second of the
  measurement (and one more), zero totals, and stands before its loop; the set-up of a
  measurement of less than \<open>2^29\<close> seconds never overflows its counter.\<close>

theorem download_setup_prepares:
  assumes "uint (MEASUREMENT_DURATION w) < 536870912" "results (mDownload d) = []"
  shows "\<exists>d' v. download_setup lib e d w = Inr (d', v) \<and>
    (run_pc d' = RunGuard \<longrightarrow>
       prepared (MEASUREMENT_DURATION w) (results (mDownload d')) \<and>
       (\<forall>k. map_of (results (mDownload d')) k =
          (if 0 \<le> k \<and> k \<le> 2 * uint (MEASUREMENT_DURATION w) then Some 0 else None)) \<and>
       datasize_total (mDownload d') = 0 \<and> datasize_slow_start (mDownload d') = 0)"
proof -
  obtain d1 w1 where c: "connect_stream lib
      (\<lambda>t. t\<lparr>nHttpResponseDuration := 0, nHttpResponseReportValue := 0\<rparr>) e d w = (d1, w1)"
    by (cases "connect_stream lib
      (\<lambda>t. t\<lparr>nHttpResponseDuration := 0, nHttpResponseReportValue := 0\<rparr>) e d w")
  have f: "MEASUREMENT_DURATION w1 = MEASUREMENT_DURATION w \<and> mDownload d1 = mDownload d"
    using c by (auto simp: connect_stream_def get_timestamp_def Let_def unreachable_def sync_mark_def
        split: if_splits)
  have b: "uint (MEASUREMENT_DURATION w * 2) = 2 * uint (MEASUREMENT_DURATION w)"
    using assms(1) by (subst uint_mult_u64) simp_all
  obtain m where m: "fill_zero 1 (MEASUREMENT_DURATION w * 2) 0 [] = Inr m" "imap_inv m"
    "\<forall>k. map_of m k = (if 0 \<le> k \<and> k \<le> 2 * uint (MEASUREMENT_DURATION w) then Some 0 else None)"
    using fill_zero_result [OF _ _ _ _ im.inv_empty, of 1 0 "MEASUREMENT_DURATION w * 2"] assms(1)
    by (auto simp: b)
  have "prepared (MEASUREMENT_DURATION w) m" using m by (auto simp: prepared_def)
  then show ?thesis
    using m f assms(2) by (auto simp: download_setup_def c)
qed

text \<open>C24: Counting never adds a slot: as long as \<open>TIMER_INDEX\<close> is a half second of the
  measurement, the slots of a prepared download stay the prepared ones, whatever is
  received.\<close>

theorem download_keeps_slots:
  assumes "prepared (MEASUREMENT_DURATION w) (results (mDownload d))"
    and "0 \<le> TIMER_INDEX w" "TIMER_INDEX w < 2 * uint (MEASUREMENT_DURATION w) \<or> TIMER_INDEX w = 0"
  shows "dom (map_of (results (mDownload (fst (download_receive rx d w))))) =
           dom (map_of (results (mDownload d)))
    \<and> prepared (MEASUREMENT_DURATION w) (results (mDownload (fst (download_receive rx d w))))"
proof -
  have "0 \<le> uint (MEASUREMENT_DURATION w)" by simp
  then have "TIMER_INDEX w \<in> {0..2 * uint (MEASUREMENT_DURATION w)}" using assms(2,3) by auto
  then have k: "TIMER_INDEX w \<in> dom (map_of (results (mDownload d)))"
    using assms(1) by (auto simp: prepared_def)
  have i: "imap_inv (results (mDownload d))" using assms(1) by (simp add: prepared_def)
  have "dom (map_of (imap_add (TIMER_INDEX w) x (results (mDownload d)))) = dom (map_of (results (mDownload d)))" for x
    using k i by (auto simp: imap_add_def im.get_put split: if_splits)
  then have d: "dom (map_of (results (mDownload (fst (download_receive rx d w))))) =
      dom (map_of (results (mDownload d)))"
    by (simp add: download_receive_data count_packet_data)
  moreover have "imap_inv (results (mDownload (fst (download_receive rx d w))))"
    using i by (simp add: download_receive_data count_packet_data imap_add_inv)
  ultimately show ?thesis using assms(1) by (simp add: prepared_def)
qed

section \<open>Witnesses\<close>

lemma download_conserves_witness:
  "datasize_total (mDownload (download_packets
     [(\<lparr>rx_ret = 100, rx_tls_records = 0, rx_buffer = ''''\<rparr>, world0),
      (\<lparr>rx_ret = 50, rx_tls_records = 0, rx_buffer = ''''\<rparr>, world0\<lparr>TIMER_RUNNING := True\<rparr>)] download0)) = 1200"
proof -
  let ?ps = "[(\<lparr>rx_ret = 100, rx_tls_records = 0, rx_buffer = ''''\<rparr>, world0),
      (\<lparr>rx_ret = 50, rx_tls_records = 0, rx_buffer = ''''\<rparr>, world0\<lparr>TIMER_RUNNING := True\<rparr>)]"
  have "imap_inv (results (mDownload download0))" by (simp add: sample_defs imap_inv_def)
  from download_conserves [OF this, of ?ps] show ?thesis
    by (simp add: sum_bits_def bits_of_def accepted_def i32_def) (simp add: sample_defs)
qed

definition conn0 :: conn_env where
  "conn0 = \<lparr>env_pid = 7, env_socktype = Some 1, env_host = ''h'', env_socket6 = 3, env_socket4 = 3,
     env_response = 200, env_http_duration = 5\<rparr>"

lemma download_setup_prepares_witness:
  "\<exists>d' v. download_setup (lib0 Ios) conn0 download0 world0 = Inr (d', v) \<and>
     run_pc d' = RunGuard \<and> prepared 10 (results (mDownload d'))"
proof -
  have "uint (MEASUREMENT_DURATION world0) < 536870912" "results (mDownload download0) = []"
    by (simp_all add: sample_threads data0_def)
  from download_setup_prepares [OF this, of "lib0 Ios" conn0] obtain d' v where
    d: "download_setup (lib0 Ios) conn0 download0 world0 = Inr (d', v)"
      "run_pc d' = RunGuard \<longrightarrow> prepared 10 (results (mDownload d'))" by auto
  have "run_pc d' = RunGuard"
    using d(1) by (auto simp: download_setup_def connect_stream_def resolved_def conn0_def
        get_timestamp_def Let_def res_map_Inr_iff)
  then show ?thesis using d by blast
qed

lemma download_keeps_slots_witness:
  "dom (map_of (results (mDownload (fst (download_receive
      \<lparr>rx_ret = 50, rx_tls_records = 0, rx_buffer = ''''\<rparr>
      (download0\<lparr>mDownload := data0\<lparr>results := [(0, 0), (1, 0), (2, 0)]\<rparr>\<rparr>)
      (world0\<lparr>MEASUREMENT_DURATION := 1, TIMER_RUNNING := True, TIMER_INDEX := 1\<rparr>)))))) = {0, 1, 2}"
proof -
  let ?d = "download0\<lparr>mDownload := data0\<lparr>results := [(0, 0), (1, 0), (2, 0)]\<rparr>\<rparr>"
  let ?w = "world0\<lparr>MEASUREMENT_DURATION := 1, TIMER_RUNNING := True, TIMER_INDEX := 1\<rparr>"
  have "{0..2::int} = {0, 1, 2}" by auto
  then have "prepared (MEASUREMENT_DURATION ?w) (results (mDownload ?d))"
    by (simp add: prepared_def imap_inv_def)
  from download_keeps_slots [OF this] show ?thesis by auto
qed

end
