(* ===== verification/Upload.thy ===== *)
theory Upload
  imports Streams
begin

text \<open>
  The class \<open>Upload\<close> (\<open>src/src/tests/upload.cpp\<close>): one stream of the upload test. The
  server reports what it received as lines of comma separated fields; \<open>upload_line\<close> is the
  body of the loop over the lines. An exception of the standard library ends the thread through
  the handler at the end of \<open>run\<close>, with what was stored before it kept: the line functions
  return the failure beside the state they leave.
\<close>

definition Upload_new :: "'c lib \<Rightarrow> 'c \<Rightarrow> string \<Rightarrow> upload \<Rightarrow> upload" where
  "Upload_new lib xml provider raw =
     raw\<lparr>run_pc := RunEntry, m_fStop := False,
         mServerName := readString lib xml provider ''DNS_HOSTNAME'' ''example.com'',
         mServer := readString lib xml provider ''IP'' ''1.1.1.1'',
         mClient := ''0.0.0.0'',
         mPort := i32 (readLong lib xml provider ''PORT'' 443),
         mTls := i32 (readLong lib xml provider ''TLS'' 1),
         mUpload := new_data lib\<rparr>"

definition upload_setup :: "'c lib \<Rightarrow> conn_env \<Rightarrow> upload \<Rightarrow> 'c world \<Rightarrow> upload \<times> 'c world" where
  "upload_setup lib e u w =
     (let (u1, w1) = connect_stream lib
            (\<lambda>t. t\<lparr>nDataRecv := 0, nTimeRecv := 0, nTimeRecvExa := 0, nTimeRecvFirst := 0,
                  nHttpResponseDuration := 0, nHttpResponseReportValue := 0\<rparr>) e u w
      in if run_pc u1 \<noteq> RunGuard then (u1, w1)
         else if env_response e < 0 then
           (u1\<lparr>run_pc := RunReturned 0\<rparr>, rejected (env_response e) w1)
         else
           (u1\<lparr>nHttpResponseDuration := env_http_duration e,
               sender_stopped := False,
               mUpload := (mUpload u1)\<lparr>datasize_total := 0, datasize_slow_start := 0\<rparr>\<rparr>, w1))"

text \<open>Behind the loop the sender is told to stop and \<open>run\<close> waits for it.\<close>

definition upload_end :: "upload \<Rightarrow> upload" where
  "upload_end u = u\<lparr>sender_stopped := True, run_pc := RunReturned 0\<rparr>"

definition upload_guard :: "'a globals_scheme \<Rightarrow> upload \<Rightarrow> upload" where
  "upload_guard w u =
     (if RUNNING w \<and> TIMER_ACTIVE w \<and> \<not> TIMER_STOPPED w
      then u\<lparr>run_pc := RunReceive\<rparr> else upload_end u)"

section \<open>One line of a report\<close>

text \<open>\<open>s.substr(s.length() - 6)\<close>: with fewer than 6 characters the position wraps around.\<close>

definition last_six :: "string \<Rightarrow> fault + string" where
  "last_six s = (if length s < 6 then Inl OutOfRange else Inr (drop (length s - 6) s))"

text \<open>
  The fields are read when there are more than two of them; field 3, the fourth, is read
  without a further test.
\<close>

definition read_fields :: "'c lib \<Rightarrow> string list \<Rightarrow> upload \<Rightarrow> fault option \<times> upload" where
  "read_fields lib fs u =
     (if 2 < length fs then
        let u1 = u\<lparr>nDataRecv := toULL lib (fs ! 0), nTimeRecv := toULL lib (fs ! 2)\<rparr>
        in if length fs \<le> 3 then (Some IndexBeyondEnd, u1)
           else (case last_six (fs ! 3) of
               Inl e \<Rightarrow> (Some e, u1)
             | Inr s \<Rightarrow>
                 (let u2 = u1\<lparr>nTimeRecvExa := toULL lib s, nDataRecv := nDataRecv u1 * 8\<rparr>
                  in (None, u2\<lparr>mUpload := (mUpload u2)\<lparr>datasize_total :=
                                 datasize_total (mUpload u2) + nDataRecv u2\<rparr>\<rparr>)))
      else (None, u))"

text \<open>The first stream to report after the start fixes the first time slot for all.\<close>

definition fix_first_slot :: "u64 \<Rightarrow> 'a globals_scheme \<Rightarrow> 'a globals_scheme" where
  "fix_first_slot exa w =
     (if TIMER_RUNNING w \<and> TIMER_INDEX_UPLOAD_FIRST w = 0
      then w\<lparr>TIMER_INDEX_UPLOAD_FIRST := i32 (uint exa)\<rparr> else w)"

definition at_first_slot :: "'a globals_scheme \<Rightarrow> u64 \<Rightarrow> bool" where
  "at_first_slot w exa \<longleftrightarrow> TIMER_INDEX_UPLOAD_FIRST w \<noteq> 0 \<and> u64 (TIMER_INDEX_UPLOAD_FIRST w) = exa"

definition zero_slots :: "'a globals_scheme \<Rightarrow> u64 \<Rightarrow> imap \<Rightarrow> fault + imap" where
  "zero_slots w exa m =
     (if at_first_slot w exa
      then fill_zero 5 (u64 (TIMER_INDEX_UPLOAD_FIRST w) + MEASUREMENT_DURATION w * 2 * 5)
             (TIMER_INDEX_UPLOAD_FIRST w) m
      else Inr m)"

definition count_report :: "'a globals_scheme \<Rightarrow> u64 \<Rightarrow> u64 \<Rightarrow> measurement_data \<Rightarrow> measurement_data" where
  "count_report w exa bits m =
     (if hasError w then m
      else
        let k = i32 (uint exa)
        in case map_of (results m) k of
             None \<Rightarrow> m\<lparr>results := imap_put k bits (results m)\<rparr>
           | Some _ \<Rightarrow>
               (let m1 = m\<lparr>results := imap_add k bits (results m)\<rparr>
                in if datasize_slow_start m1 = 0 \<and> u64 (TIMER_INDEX_UPLOAD_FIRST w) = exa
                   then m1\<lparr>datasize_slow_start := datasize_total m1 - bits\<rparr> else m1))"

definition upload_line ::
  "'c lib \<Rightarrow> string \<Rightarrow> upload \<times> 'a globals_scheme \<Rightarrow> fault option \<times> upload \<times> 'a globals_scheme" where
  "upload_line lib line s =
     (case s of (u, w) \<Rightarrow>
        (case read_fields lib (tokenize lib line '','') u of
           (Some e, u1) \<Rightarrow> (Some e, u1, w)
         | (None, u1) \<Rightarrow>
             (let w1 = fix_first_slot (nTimeRecvExa u1) w
              in case zero_slots w1 (nTimeRecvExa u1) (results (mUpload u1)) of
                   Inl e \<Rightarrow> (Some e, u1, w1)
                 | Inr m \<Rightarrow>
                     (None,
                      u1\<lparr>mUpload := count_report w1 (nTimeRecvExa u1) (nDataRecv u1)
                                      ((mUpload u1)\<lparr>results := m\<rparr>)\<rparr>,
                      w1))))"

fun upload_lines ::
  "'c lib \<Rightarrow> string list \<Rightarrow> upload \<times> 'a globals_scheme \<Rightarrow> fault option \<times> upload \<times> 'a globals_scheme" where
  "upload_lines lib [] s = (None, s)"
| "upload_lines lib (line # lines) s =
     (case upload_line lib line s of
        (Some e, s1) \<Rightarrow> (Some e, s1)
      | (None, s1) \<Rightarrow> upload_lines lib lines s1)"

section \<open>One receive\<close>

definition caught :: "fault \<Rightarrow> bool" where
  "caught f \<longleftrightarrow> f = OutOfRange \<or> f = InvalidArgument"

text \<open>
  The handler \<open>catch (std::exception &)\<close>; undefined behaviour is not caught.
\<close>

definition upload_receive ::
  "'c lib \<Rightarrow> rx_env \<Rightarrow> upload \<Rightarrow> 'a globals_scheme \<Rightarrow> fault + upload \<times> 'a globals_scheme" where
  "upload_receive lib rx u w =
     (let w1 = first_receive u w;
          u1 = u\<lparr>mResponse := rx_ret rx, dataReceived := True\<rparr>
      in if rx_ret rx = - 1 \<or> rx_ret rx = 0 then Inr (upload_end u1, w1)
         else
           res_bind (c_string lib rx) (\<lambda>s.
             case upload_lines lib (tokenize lib s '';'') (u1, w1) of
               (None, u2, w2) \<Rightarrow> Inr (u2\<lparr>run_pc := RunGuard\<rparr>, w2)
             | (Some f, u2, w2) \<Rightarrow>
                 (if caught f
                  then Inr (u2\<lparr>run_pc := RunReturned 0\<rparr>, w2\<lparr>hasError := True, RUNNING := False\<rparr>)
                  else Inl f)))"

text \<open>The lines of a report that can be read.\<close>

definition report_lines :: "'c lib \<Rightarrow> rx_env \<Rightarrow> string list" where
  "report_lines lib rx = tokenize lib (c_text rx) '';''"

lemma upload_receive_terminated:
  assumes "terminated lib rx" "rx_ret rx \<noteq> - 1" "rx_ret rx \<noteq> 0"
  shows "upload_receive lib rx u w =
    (case upload_lines lib (report_lines lib rx)
         (u\<lparr>mResponse := rx_ret rx, dataReceived := True\<rparr>, first_receive u w) of
       (None, u2, w2) \<Rightarrow> Inr (u2\<lparr>run_pc := RunGuard\<rparr>, w2)
     | (Some f, u2, w2) \<Rightarrow>
         (if caught f then Inr (u2\<lparr>run_pc := RunReturned 0\<rparr>, w2\<lparr>hasError := True, RUNNING := False\<rparr>)
          else Inl f))"
  using assms by (simp add: upload_receive_def c_string_def report_lines_def Let_def)


section \<open>The thread\<close>

text \<open>One step of \<open>Upload::run\<close>.\<close>

definition upload_step ::
  "'c lib \<Rightarrow> thread_env \<Rightarrow> upload \<times> 'c world \<Rightarrow> fault + upload \<times> 'c world" where
  "upload_step lib e s =
     (case s of (u, w) \<Rightarrow>
        (case run_pc u of
           RunEntry \<Rightarrow> Inr (upload_setup lib (te_conn e) u w)
         | RunGuard \<Rightarrow> Inr (upload_guard w u, w)
         | RunReceive \<Rightarrow> upload_receive lib (te_rx e) u w
         | RunReturned _ \<Rightarrow> Inr (u, w)))"

lemma upload_setup_effect:
  assumes "upload_setup lib e u w = (u', v)"
  shows "worker_effect w v" "run_pc u' = RunGuard \<or> returned (run_pc u')"
proof -
  let ?reset = "\<lambda>t. t\<lparr>nDataRecv := 0, nTimeRecv := 0, nTimeRecvExa := 0, nTimeRecvFirst := 0,
                  nHttpResponseDuration := 0, nHttpResponseReportValue := 0\<rparr>"
  obtain u1 w1 where c: "connect_stream lib ?reset e u w = (u1, w1)"
    by (cases "connect_stream lib ?reset e u w")
  note ce = connect_stream_effect [OF c]
  show "worker_effect w v" "run_pc u' = RunGuard \<or> returned (run_pc u')"
    using assms ce worker_effect_rejected [OF ce(1)]
    by (auto simp: upload_setup_def c returned_def split: if_splits)
qed

lemma fix_first_slot_cases:
  "fix_first_slot exa w = (if TIMER_RUNNING w \<and> TIMER_INDEX_UPLOAD_FIRST w = 0
     then w\<lparr>TIMER_INDEX_UPLOAD_FIRST := i32 (uint exa)\<rparr> else w)"
  by (simp add: fix_first_slot_def)

lemma upload_line_effect:
  assumes "upload_line lib line (u, w) = (f, u', v)"
  shows "v = w \<or> v = w\<lparr>TIMER_INDEX_UPLOAD_FIRST := TIMER_INDEX_UPLOAD_FIRST v\<rparr>"
  using assms
  by (auto simp: upload_line_def fix_first_slot_cases Let_def
      split: prod.splits option.splits sum.splits if_splits)

lemma upload_lines_effect:
  assumes "upload_lines lib lines (u, w) = (f, u', v)"
  shows "worker_effect w v"
  using assms
proof (induction lines arbitrary: u w)
  case (Cons line lines)
  obtain g u1 w1 where l: "upload_line lib line (u, w) = (g, u1, w1)"
    by (cases "upload_line lib line (u, w)")
  have "worker_effect w w1"
    using upload_line_effect [OF l] worker_effect_parts(9) [of w "TIMER_INDEX_UPLOAD_FIRST w1"]
    by (metis worker_effect_refl)
  then show ?case
    using Cons.prems Cons.IH [of u1 w1] worker_effect_trans [of w w1 v]
    by (cases g) (auto simp: l)
qed simp

lemma upload_receive_effect:
  assumes "upload_receive lib rx u w = Inr (u', v)"
  shows "worker_effect w v" "run_pc u' = RunGuard \<or> returned (run_pc u')"
proof -
  let ?u1 = "u\<lparr>mResponse := rx_ret rx, dataReceived := True\<rparr>"
  let ?ls = "tokenize lib (c_text rx) '';''"
  obtain f u2 w2 where l: "upload_lines lib ?ls (?u1, first_receive u w) = (f, u2, w2)"
    by (cases "upload_lines lib ?ls (?u1, first_receive u w)")
  have e: "worker_effect w w2"
    using worker_effect_trans [OF worker_effect_parts(5) upload_lines_effect [OF l]] .
  have e2: "worker_effect w (w2\<lparr>hasError := True, RUNNING := False\<rparr>)"
    using worker_effect_trans [OF e worker_effect_parts(7)] .
  show "worker_effect w v" "run_pc u' = RunGuard \<or> returned (run_pc u')"
    using assms e e2
    by (auto simp: upload_receive_def c_string_def l Let_def upload_end_def returned_def
        split: if_splits option.splits)
qed

interpretation ul: worker "upload_step lib" run_pc
proof
  fix e t w t' v
  assume s: "upload_step lib e (t, w) = Inr (t', v)"
  show "worker_effect w v"
    using s upload_setup_effect(1) [of lib "te_conn e" t w t' v] upload_receive_effect(1) 
    by (auto simp: upload_step_def split: run_pc.splits)
  show "returned (run_pc t')" if "returned (run_pc t)"
    using s that by (auto simp: upload_step_def returned_def split: run_pc.splits)
  show "returned (run_pc t')" if "run_pc t = RunGuard" "\<not> RUNNING w"
    using s that by (auto simp: upload_step_def upload_guard_def upload_end_def returned_def)
  show "run_pc t' = RunGuard \<or> returned (run_pc t')" if "run_pc t = RunReceive"
    using s that upload_receive_effect(2) by (simp add: upload_step_def)
  show "run_pc t' = RunGuard \<or> returned (run_pc t')" if "run_pc t = RunEntry"
    using s that upload_setup_effect(2) [of lib "te_conn e" t w t' v] by (simp add: upload_step_def)
qed

section \<open>Lines of a report\<close>

definition fields_of :: "'c lib \<Rightarrow> string \<Rightarrow> string list" where
  "fields_of lib line = tokenize lib line '',''"

definition line_bits :: "'c lib \<Rightarrow> string \<Rightarrow> u64" where
  "line_bits lib line = toULL lib (fields_of lib line ! 0) * 8"

definition line_slot :: "'c lib \<Rightarrow> string \<Rightarrow> u64" where
  "line_slot lib line = (let s = fields_of lib line ! 3 in toULL lib (drop (length s - 6) s))"

definition good_line :: "'c lib \<Rightarrow> string \<Rightarrow> bool" where
  "good_line lib line \<longleftrightarrow> 3 < length (fields_of lib line) \<and> 6 \<le> length (fields_of lib line ! 3)"

lemma read_fields_good:
  assumes "good_line lib line"
  shows "\<exists>u'. read_fields lib (fields_of lib line) u = (None, u') \<and>
    nDataRecv u' = line_bits lib line \<and> nTimeRecvExa u' = line_slot lib line \<and>
    mUpload u' = (mUpload u)\<lparr>datasize_total := datasize_total (mUpload u) + line_bits lib line\<rparr> \<and>
    run_pc u' = run_pc u"
  using assms
  by (auto simp: good_line_def read_fields_def line_bits_def line_slot_def last_six_def Let_def)

text \<open>A report line with exactly three fields passes the test for more than two of them and
  then reads the fourth, which does not exist: undefined behaviour.\<close>

lemma three_fields_out_of_bounds:
  assumes "length (fields_of lib line) = 3"
  shows "\<exists>s'. upload_line lib line s = (Some IndexBeyondEnd, s')"
  using assms by (cases s) (simp add: upload_line_def fields_of_def read_fields_def Let_def)

text \<open>A line whose time field is shorter than the six characters read from its end raises
  \<open>std::out_of_range\<close>; the handler turns it into an error that stops the measurement, and the
  thread returns with the lines before it counted.\<close>

lemma short_time_stops:
  assumes "report_lines lib rx = line # lines" "terminated lib rx"
    and "3 < length (fields_of lib line)" "length (fields_of lib line ! 3) < 6"
    and "rx_ret rx \<noteq> - 1" "rx_ret rx \<noteq> 0"
  shows "\<exists>u' v. upload_receive lib rx u w = Inr (u', v) \<and> run_pc u' = RunReturned 0 \<and>
    hasError v \<and> \<not> RUNNING v \<and> results (mUpload u') = results (mUpload u)"
proof -
  let ?u1 = "u\<lparr>mResponse := rx_ret rx, dataReceived := True\<rparr>"
  obtain u' where r: "read_fields lib (fields_of lib line) ?u1 = (Some OutOfRange, u')"
    "mUpload u' = mUpload u"
    using assms(3,4) by (simp add: read_fields_def last_six_def Let_def)
  then have "upload_lines lib (line # lines) (?u1, first_receive u w) =
      (Some OutOfRange, u', first_receive u w)"
    by (simp add: upload_line_def fields_of_def)
  then show ?thesis
    using assms(1,2,5,6) r(2) by (simp add: upload_receive_terminated caught_def)
qed

text \<open>What a line does whose fields have been read, away from the first slot.\<close>

lemma counted_line:
  assumes r: "read_fields lib (fields_of lib line) u = (None, u1)"
    and "results (mUpload u1) = m" "imap_inv m" "\<not> hasError w"
    and "\<not> at_first_slot (fix_first_slot (nTimeRecvExa u1) w) (nTimeRecvExa u1)"
  shows "\<exists>u' v. upload_line lib line (u, w) = (None, u', v) \<and>
    datasize_total (mUpload u') = datasize_total (mUpload u1) \<and>
    results (mUpload u') = imap_add (i32 (uint (nTimeRecvExa u1))) (nDataRecv u1) m"
proof -
  let ?w = "fix_first_slot (nTimeRecvExa u1) w"
  have e: "\<not> hasError ?w" using assms(4) by (simp add: fix_first_slot_def)
  let ?m = "count_report ?w (nTimeRecvExa u1) (nDataRecv u1) (mUpload u1)"
  have l: "upload_line lib line (u, w) = (None, u1\<lparr>mUpload := ?m\<rparr>, ?w)"
    using r assms(5) by (simp add: upload_line_def fields_of_def [symmetric] zero_slots_def Let_def)
  have rs: "results ?m = imap_add (i32 (uint (nTimeRecvExa u1))) (nDataRecv u1) m"
  proof (cases "map_of m (i32 (uint (nTimeRecvExa u1)))")
    case None
    then show ?thesis
      using e assms(2) by (simp add: count_report_def Let_def imap_add_def imap_at_def)
  next
    case (Some x)
    then show ?thesis using e assms(2) by (simp add: count_report_def Let_def)
  qed
  have "datasize_total ?m = datasize_total (mUpload u1)"
    by (simp add: count_report_def Let_def split: option.split)
  then show ?thesis using l rs by simp
qed

text \<open>A good line in an upload that runs adds eight times its first number to the total and
  to the slot its time selects, and to no other slot, unless it is a report for the first
  slot.\<close>

lemma good_line_counts:
  assumes "good_line lib line" "\<not> hasError w" "imap_inv (results (mUpload u))"
    and "\<not> at_first_slot (fix_first_slot (line_slot lib line) w) (line_slot lib line)"
  shows "\<exists>u' v. upload_line lib line (u, w) = (None, u', v) \<and>
    datasize_total (mUpload u') = datasize_total (mUpload u) + line_bits lib line \<and>
    (\<forall>k. imap_at (results (mUpload u')) k = imap_at (results (mUpload u)) k +
       (if k = i32 (uint (line_slot lib line)) then line_bits lib line else 0)) \<and>
    imap_total (results (mUpload u')) = imap_total (results (mUpload u)) + line_bits lib line \<and>
    imap_inv (results (mUpload u'))"
proof -
  obtain u1 where r: "read_fields lib (fields_of lib line) u = (None, u1)"
    "nDataRecv u1 = line_bits lib line" "nTimeRecvExa u1 = line_slot lib line"
    "mUpload u1 = (mUpload u)\<lparr>datasize_total := datasize_total (mUpload u) + line_bits lib line\<rparr>"
    using read_fields_good [OF assms(1)] by blast
  obtain u' v where "upload_line lib line (u, w) = (None, u', v)"
    "datasize_total (mUpload u') = datasize_total (mUpload u) + line_bits lib line"
    "results (mUpload u') =
       imap_add (i32 (uint (line_slot lib line))) (line_bits lib line) (results (mUpload u))"
    using counted_line [OF r(1) refl, of w] assms(2-4) r(2-4) by auto
  then show ?thesis
    by (simp add: imap_at_add [OF assms(3)] imap_total_add [OF assms(3)] imap_add_inv [OF assms(3)])
qed

text \<open>A line with at most two fields is not skipped: the bits of the line read before it are
  counted once more in that line's slot, though not in the total.\<close>

lemma short_line_recounts:
  assumes "length (fields_of lib line) \<le> 2" "\<not> hasError w" "imap_inv (results (mUpload u))"
    and "\<not> at_first_slot (fix_first_slot (nTimeRecvExa u) w) (nTimeRecvExa u)"
  shows "\<exists>u' v. upload_line lib line (u, w) = (None, u', v) \<and>
    datasize_total (mUpload u') = datasize_total (mUpload u) \<and>
    imap_at (results (mUpload u')) (i32 (uint (nTimeRecvExa u))) =
      imap_at (results (mUpload u)) (i32 (uint (nTimeRecvExa u))) + nDataRecv u"
proof -
  have "read_fields lib (fields_of lib line) u = (None, u)"
    using assms(1) by (simp add: read_fields_def)
  from counted_line [OF this refl assms(3,2,4)] show ?thesis
    by (auto simp: imap_at_add [OF assms(3)])
qed

text \<open>The bound of the loop that clears the slots, without wrap-around.\<close>

definition small_slots :: "'a globals_scheme \<Rightarrow> bool" where
  "small_slots w \<longleftrightarrow> 0 \<le> TIMER_INDEX_UPLOAD_FIRST w \<and> TIMER_INDEX_UPLOAD_FIRST w < 1073741824 \<and>
     uint (MEASUREMENT_DURATION w) < 53687091"

lemma slots_end:
  assumes "small_slots w"
  shows "uint (u64 (TIMER_INDEX_UPLOAD_FIRST w)) = TIMER_INDEX_UPLOAD_FIRST w"
    "uint (u64 (TIMER_INDEX_UPLOAD_FIRST w) + MEASUREMENT_DURATION w * 2 * 5) =
       TIMER_INDEX_UPLOAD_FIRST w + 10 * uint (MEASUREMENT_DURATION w)"
proof -
  show uf: "uint (u64 (TIMER_INDEX_UPLOAD_FIRST w)) = TIMER_INDEX_UPLOAD_FIRST w"
    using assms by (intro uint_u64) (simp_all add: small_slots_def)
  have "uint (10 * MEASUREMENT_DURATION w) = 10 * uint (MEASUREMENT_DURATION w)"
    using assms by (subst uint_mult_u64) (simp_all add: small_slots_def)
  then show "uint (u64 (TIMER_INDEX_UPLOAD_FIRST w) + MEASUREMENT_DURATION w * 2 * 5) =
      TIMER_INDEX_UPLOAD_FIRST w + 10 * uint (MEASUREMENT_DURATION w)"
    using assms by (subst uint_plus_u64) (simp_all add: uf small_slots_def)
qed

text \<open>A report for the first time slot clears all slots of the stream before it is counted.\<close>

lemma first_slot_line:
  assumes "good_line lib line" "\<not> hasError w" "imap_inv (results (mUpload u))"
    and v_def: "v = fix_first_slot (line_slot lib line) w"
    and "at_first_slot v (line_slot lib line)" "0 < TIMER_INDEX_UPLOAD_FIRST v" "small_slots v"
  shows "\<exists>u'. upload_line lib line (u, w) = (None, u', v) \<and> imap_inv (results (mUpload u')) \<and>
    (\<forall>k. map_of (results (mUpload u')) k =
       (if k = TIMER_INDEX_UPLOAD_FIRST v then Some (line_bits lib line)
        else if TIMER_INDEX_UPLOAD_FIRST v \<le> k \<and>
          k \<le> TIMER_INDEX_UPLOAD_FIRST v + 10 * uint (MEASUREMENT_DURATION v) \<and>
          5 dvd k - TIMER_INDEX_UPLOAD_FIRST v then Some 0
        else map_of (results (mUpload u)) k))"
proof -
  let ?f = "TIMER_INDEX_UPLOAD_FIRST v"
  let ?exa = "line_slot lib line"
  let ?b = "u64 ?f + MEASUREMENT_DURATION v * 2 * 5"
  obtain u1 where r: "read_fields lib (fields_of lib line) u = (None, u1)"
    "nDataRecv u1 = line_bits lib line" "nTimeRecvExa u1 = ?exa"
    "mUpload u1 = (mUpload u)\<lparr>datasize_total := datasize_total (mUpload u) + line_bits lib line\<rparr>"
    using read_fields_good [OF assms(1)] by blast
  have e: "\<not> hasError v" using assms(2) by (simp add: v_def fix_first_slot_def)
  note uf = slots_end(1) [OF assms(7)] and b = slots_end(2) [OF assms(7)]
  have f: "?f < 1073741824" "uint (MEASUREMENT_DURATION v) < 53687091"
    using assms(7) by (simp_all add: small_slots_def)
  have k: "i32 (uint ?exa) = ?f"
    using assms(5,6) f uf i32_id [of ?f] by (auto simp: at_first_slot_def)
  obtain m where m: "fill_zero 5 ?b ?f (results (mUpload u)) = Inr m" "imap_inv m"
    "\<And>k. map_of m k = (if ?f \<le> k \<and> k \<le> uint ?b \<and> 5 dvd k - ?f then Some 0
       else map_of (results (mUpload u)) k)"
    using fill_zero_result [of 5 ?f ?b "results (mUpload u)"] assms(3,6) f b by auto
  let ?m = "count_report v ?exa (line_bits lib line) ((mUpload u1)\<lparr>results := m\<rparr>)"
  have l: "upload_line lib line (u, w) = (None, u1\<lparr>mUpload := ?m\<rparr>, v)"
    using r assms(5) m(1)
    by (simp add: upload_line_def fields_of_def [symmetric] zero_slots_def v_def [symmetric] Let_def)
  have z: "map_of m ?f = Some 0" using m(3) [of ?f] b by simp
  then have z0: "imap_at m ?f = 0" by (simp add: imap_at_def)
  have rs: "results ?m = imap_put ?f (line_bits lib line) m"
    using e z z0 by (simp add: count_report_def Let_def k imap_add_def)
  show ?thesis
    by (intro exI [of _ "u1\<lparr>mUpload := ?m\<rparr>"] conjI allI)
      (simp_all add: l rs im.inv_put [OF m(2)] im.get_put [OF m(2)] m(3) [unfolded b])
qed

text \<open>So a second one loses what the slots held.\<close>

lemma first_slot_report_resets:
  assumes "good_line lib line" "\<not> hasError w" "imap_inv (results (mUpload u))"
    and "at_first_slot w (line_slot lib line)"
    and "0 < TIMER_INDEX_UPLOAD_FIRST w" "small_slots w"
  shows "\<exists>u' v. upload_line lib line (u, w) = (None, u', v) \<and>
    (\<forall>j < 2 * uint (MEASUREMENT_DURATION w) + 1. 0 \<le> j \<longrightarrow>
       imap_at (results (mUpload u')) (TIMER_INDEX_UPLOAD_FIRST w + 5 * j) =
         (if j = 0 then line_bits lib line else 0))"
proof -
  have "w = fix_first_slot (line_slot lib line) w" using assms(5) by (simp add: fix_first_slot_def)
  from first_slot_line [OF assms(1-3) this assms(4-6)] show ?thesis
    by (auto simp: imap_at_def)
qed

section \<open>Reports without undefined behaviour\<close>

lemma fill_zero_returns:
  assumes "0 < step" "0 \<le> i" "i < 2147483648" "uint bound + step < 2147483648"
  shows "\<exists>m'. fill_zero step bound i m = Inr m'"
  using assms
proof (induction step bound i m rule: fill_zero.induct)
  case (1 step bound i m)
  have "uint (u64 i) = i" using "1.prems" by (intro uint_u64) simp_all
  then have le: "(u64 i \<le> bound) = (i \<le> uint bound)" by (simp add: word_le_def)
  show ?case
  proof (cases "i \<le> uint bound")
    case True
    then have n: "i + step < 2147483648" using "1.prems"(4) by simp
    then show ?thesis
      using "1.IH" True "1.prems" le by (simp add: fill_zero.simps [of step bound i])
  next
    case False
    then show ?thesis using le by (simp add: fill_zero.simps [of step bound i])
  qed
qed

definition harmless_line :: "'c lib \<Rightarrow> string \<Rightarrow> bool" where
  "harmless_line lib line \<longleftrightarrow> length (fields_of lib line) \<noteq> 3 \<and>
     (good_line lib line \<longrightarrow> uint (line_slot lib line) < 1073741824)"

lemma zero_slots_returns:
  assumes "small_slots w"
  shows "\<exists>m'. zero_slots w exa m = Inr m'"
  using fill_zero_returns [of 5 "TIMER_INDEX_UPLOAD_FIRST w"
      "u64 (TIMER_INDEX_UPLOAD_FIRST w) + MEASUREMENT_DURATION w * 2 * 5" m]
    slots_end(2) [OF assms] assms
  by (simp add: zero_slots_def small_slots_def)

definition small_times :: "upload \<Rightarrow> 'a globals_scheme \<Rightarrow> bool" where
  "small_times u w \<longleftrightarrow> small_slots w \<and> uint (nTimeRecvExa u) < 1073741824"

lemma small_slots_fix:
  "small_slots w \<Longrightarrow> uint exa < 1073741824 \<Longrightarrow> small_slots (fix_first_slot exa w)"
proof -
  assume a: "small_slots w" "uint exa < 1073741824"
  have "i32 (uint exa) = uint exa"
    by (rule i32_id) (use a(2) uint_ge_0 [of exa] in linarith)+
  then show ?thesis using a by (simp add: small_slots_def fix_first_slot_def)
qed

lemma harmless_line_result:
  assumes "harmless_line lib line" "small_times u w" "upload_line lib line (u, w) = (f, u', v)"
  shows "(\<forall>e. f = Some e \<longrightarrow> caught e) \<and> (f = None \<longrightarrow> small_times u' v)"
proof -
  obtain g u1 where r: "read_fields lib (fields_of lib line) u = (g, u1)"
    by (cases "read_fields lib (fields_of lib line) u")
  show ?thesis
  proof (cases g)
    case (Some e)
    have "e = OutOfRange"
      using r Some assms(1)
      by (auto simp: read_fields_def last_six_def harmless_line_def Let_def split: if_splits)
    then show ?thesis using assms(3) r Some by (auto simp: upload_line_def fields_of_def caught_def)
  next
    case None
    have "nTimeRecvExa u1 = nTimeRecvExa u \<or> nTimeRecvExa u1 = line_slot lib line \<and> good_line lib line"
      using r None
      by (auto simp: read_fields_def last_six_def line_slot_def good_line_def Let_def split: if_splits)
    then have x: "uint (nTimeRecvExa u1) < 1073741824"
      using assms(1,2) by (auto simp: harmless_line_def small_times_def)
    have sw: "small_slots (fix_first_slot (nTimeRecvExa u1) w)"
      using assms(2) x by (simp add: small_slots_fix small_times_def)
    obtain m where "zero_slots (fix_first_slot (nTimeRecvExa u1) w) (nTimeRecvExa u1)
        (results (mUpload u1)) = Inr m" using zero_slots_returns [OF sw] by blast
    then show ?thesis
      using assms(3) r None x sw by (auto simp: upload_line_def fields_of_def Let_def small_times_def)
  qed
qed

lemma harmless_lines_result:
  assumes "\<forall>line\<in>set lines. harmless_line lib line" "small_times u w"
    "upload_lines lib lines (u, w) = (f, u', v)"
  shows "\<forall>e. f = Some e \<longrightarrow> caught e"
  using assms
proof (induction lines arbitrary: u w)
  case (Cons line lines)
  obtain g u1 w1 where l: "upload_line lib line (u, w) = (g, u1, w1)"
    by (cases "upload_line lib line (u, w)")
  show ?case
    using harmless_line_result [OF _ Cons.prems(2) l] Cons.prems Cons.IH [of u1 w1]
    by (cases g) (auto simp: l)
qed simp


lemma upload_lines_faults:
  assumes "upload_lines lib ls s = (Some f, s')"
  shows "f = OutOfRange \<or> f = IndexBeyondEnd \<or> f = SignedOverflow"
proof -
  have fz: "fill_zero step bound i m = Inl e \<Longrightarrow> e = SignedOverflow" for step bound i m e
    by (induction step bound i m rule: fill_zero.induct)
      (auto simp: fill_zero.simps split: if_splits)
  have one: "e = OutOfRange \<or> e = IndexBeyondEnd \<or> e = SignedOverflow"
    if "upload_line lib l t = (Some e, t')" for l t t' e
    using that fz
    by (auto simp: upload_line_def read_fields_def last_six_def zero_slots_def Let_def
        split: prod.splits option.splits sum.splits if_splits)
  show ?thesis
    using assms
  proof (induction ls arbitrary: s)
    case (Cons l ls)
    obtain g s1 where l: "upload_line lib l s = (g, s1)" by (cases "upload_line lib l s")
    then show ?case using Cons one [of l s] by (cases g) auto
  qed simp
qed

section \<open>Witnesses\<close>

text \<open>A report of 1000 bytes at the tick 000005.\<close>

definition line0 :: string where "line0 = ''1000,0,5,x000005''"

lemma line0_fields: "fields_of (lib0 t) line0 = [''1000'', ''0'', ''5'', ''x000005'']"
  by (simp add: fields_of_def line0_def)

lemma line0_good: "good_line (lib0 t) line0" "line_slot (lib0 t) line0 = 5" "line_bits (lib0 t) line0 = 8000"
  by (simp_all add: good_line_def line_slot_def line_bits_def line0_fields dec_value_def digit_val_def)


end
