(* ===== verification/IpTest.thy ===== *)
theory IpTest
  imports Streams
begin

text \<open>
  The class \<open>Ip\<close> (\<open>src/src/tests/ip.cpp\<close>): the test that asks the reference server for the
  client's address and, with TLS, for the parameters of the TLS connection.
\<close>

definition Ip_new :: "'c lib \<Rightarrow> 'c \<Rightarrow> string \<Rightarrow> ip_test \<Rightarrow> ip_test" where
  "Ip_new lib xml provider raw =
     raw\<lparr>run_pc := RunEntry, m_fStop := False,
         mServerName := readString lib xml provider ''DNS_HOSTNAME'' ''example.com'',
         mServer := readString lib xml provider ''IP'' ''1.1.1.1'',
         mClient := ''0.0.0.0'',
         mPort := i32 (readLong lib xml provider ''PORT'' 443),
         mTls := i32 (readLong lib xml provider ''TLS'' 1),
         ipResults := []\<rparr>"

definition ip_setup :: "'c lib \<Rightarrow> conn_env \<Rightarrow> ip_test \<Rightarrow> 'c world \<Rightarrow> ip_test \<times> 'c world" where
  "ip_setup lib e t w =
     (let (t1, w1) = connect_stream lib id e t w
      in if run_pc t1 \<noteq> RunGuard then (t1, w1)
         else if env_response e < 0 then
           (t1\<lparr>run_pc := RunReturned 0\<rparr>,
            if env_response e = - 1 then unreachable w1 else w1\<lparr>hasError := True\<rparr>)
         else (t1, w1))"

definition ip_guard :: "'a globals_scheme \<Rightarrow> ip_test \<Rightarrow> ip_test" where
  "ip_guard w t =
     (if RUNNING w \<and> TIMER_ACTIVE w \<and> \<not> TIMER_STOPPED w \<and> \<not> m_fStop t
      then t\<lparr>run_pc := RunReceive\<rparr> else t\<lparr>run_pc := RunReturned 0\<rparr>)"

definition tls_complete :: "'c lib \<Rightarrow> json \<Rightarrow> bool" where
  "tls_complete lib j \<longleftrightarrow>
     string_value (json_at j ''tls_version'') \<noteq> '''' \<and>
     string_value (json_at j ''tls_cipher_suite'') \<noteq> '''' \<and>
     string_value (json_at j ''tls_overhead'') \<noteq> '''' \<and>
     0 < toInt lib (string_value (json_at j ''tls_overhead''))"

definition put_string :: "string \<Rightarrow> json \<Rightarrow> jobject \<Rightarrow> jobject" where
  "put_string k j m = obj_put k (JStr (string_value (json_at j k))) m"

definition ip_report ::
  "'c lib \<Rightarrow> json \<Rightarrow> ip_test \<times> 'a globals_scheme \<Rightarrow> ip_test \<times> 'a globals_scheme" where
  "ip_report lib j s =
     (case s of (t, w) \<Rightarrow>
        let r1 = put_string ''client'' j (ipResults t);
            (r2, w2) =
              (if mTls t = 1 then
                 (if tls_complete lib j then
                    (put_string ''tls_overhead'' j
                       (put_string ''tls_cipher_suite'' j (put_string ''tls_version'' j r1)), w)
                  else (r1, w\<lparr>TLS_PARAMETERS_MISSING := True, hasError := True\<rparr>))
               else (r1, w))
        in (t\<lparr>ipResults := obj_put ''client_ip_version''
                (JStr (if ipv6validated t then ''v6'' else ''v4'')) r2,
              run_pc := RunReturned 0\<rparr>, w2))"

definition ip_receive ::
  "'c lib \<Rightarrow> rx_env \<Rightarrow> ip_test \<Rightarrow> 'a globals_scheme \<Rightarrow> fault + ip_test \<times> 'a globals_scheme" where
  "ip_receive lib rx t w =
     (let w1 = first_receive t w;
          t1 = t\<lparr>mResponse := rx_ret rx, dataReceived := True\<rparr>
      in if rx_ret rx = - 1 \<or> rx_ret rx = 0 then Inr (t1\<lparr>run_pc := RunReturned 0\<rparr>, w1)
         else
           res_map (\<lambda>s.
             let j = fst (json_parse lib s)
             in if string_value (json_at j ''cmd'') = ''ip_report'' then ip_report lib j (t1, w1)
                else (t1\<lparr>run_pc := RunGuard\<rparr>, w1))
             (c_string lib rx))"


section \<open>The thread\<close>

text \<open>One step of \<open>Ip::run\<close>.\<close>

definition ip_step ::
  "'c lib \<Rightarrow> thread_env \<Rightarrow> ip_test \<times> 'c world \<Rightarrow> fault + ip_test \<times> 'c world" where
  "ip_step lib e s =
     (case s of (t, w) \<Rightarrow>
        (case run_pc t of
           RunEntry \<Rightarrow> Inr (ip_setup lib (te_conn e) t w)
         | RunGuard \<Rightarrow> Inr (ip_guard w t, w)
         | RunReceive \<Rightarrow> ip_receive lib (te_rx e) t w
         | RunReturned _ \<Rightarrow> Inr (t, w)))"

lemma ip_setup_effect:
  assumes "ip_setup lib e t w = (t', v)"
  shows "worker_effect w v" "run_pc t' = RunGuard \<or> returned (run_pc t')"
proof -
  obtain t1 w1 where c: "connect_stream lib id e t w = (t1, w1)"
    by (cases "connect_stream lib id e t w")
  note ce = connect_stream_effect [OF c]
  show "worker_effect w v" "run_pc t' = RunGuard \<or> returned (run_pc t')"
    using assms ce worker_effect_trans [OF ce(1) worker_effect_parts(3)]
      worker_effect_trans [OF ce(1) worker_effect_parts(6)]
    by (auto simp: ip_setup_def c returned_def split: if_splits)
qed

lemma ip_report_effect:
  "worker_effect w (snd (ip_report lib j (t, w)))" "returned (run_pc (fst (ip_report lib j (t, w))))"
  by (auto simp: ip_report_def Let_def returned_def)

lemma ip_receive_effect:
  assumes "ip_receive lib rx t w = Inr (t', v)"
  shows "worker_effect w v" "run_pc t' = RunGuard \<or> returned (run_pc t')"
proof -
  let ?j = "fst (json_parse lib (c_text rx))"
  let ?s = "(t\<lparr>mResponse := rx_ret rx, dataReceived := True\<rparr>, first_receive t w)"
  have e: "worker_effect w (snd (ip_report lib ?j ?s))" "returned (run_pc (fst (ip_report lib ?j ?s)))"
    using worker_effect_trans [OF worker_effect_parts(5) ip_report_effect(1)] ip_report_effect(2)
    by blast+
  have "(t', v) =
      (if rx_ret rx = - 1 \<or> rx_ret rx = 0 then ((fst ?s)\<lparr>run_pc := RunReturned 0\<rparr>, snd ?s)
       else if string_value (json_at ?j ''cmd'') = ''ip_report'' then ip_report lib ?j ?s
       else ((fst ?s)\<lparr>run_pc := RunGuard\<rparr>, snd ?s))"
    using assms by (auto simp: ip_receive_def c_string_def Let_def split: if_splits)
  then show "worker_effect w v" "run_pc t' = RunGuard \<or> returned (run_pc t')"
    using e by (auto simp: returned_def split: if_splits dest: arg_cong [where f = fst] arg_cong [where f = snd])
qed

interpretation ipt: worker "ip_step lib" run_pc
proof
  fix e t w t' v
  assume s: "ip_step lib e (t, w) = Inr (t', v)"
  show "worker_effect w v"
    using s ip_setup_effect(1) [of lib "te_conn e" t w t' v] ip_receive_effect(1) [of lib "te_rx e" t w t' v]
    by (auto simp: ip_step_def split: run_pc.splits)
  show "returned (run_pc t')" if "returned (run_pc t)"
    using s that by (auto simp: ip_step_def returned_def split: run_pc.splits)
  show "returned (run_pc t')" if "run_pc t = RunGuard" "\<not> RUNNING w"
    using s that by (auto simp: ip_step_def ip_guard_def returned_def)
  show "run_pc t' = RunGuard \<or> returned (run_pc t')" if "run_pc t = RunReceive"
    using s that ip_receive_effect(2) [of lib "te_rx e" t w t' v] by (simp add: ip_step_def)
  show "run_pc t' = RunGuard \<or> returned (run_pc t')" if "run_pc t = RunEntry"
    using s that ip_setup_effect(2) [of lib "te_conn e" t w t' v] by (simp add: ip_step_def)
qed

text \<open>The server's report ends the test with the client's address and the IP version; with TLS
  the three TLS parameters are taken over when they are complete, otherwise
  \<open>TLS_PARAMETERS_MISSING\<close> is raised together with \<open>hasError\<close>; without TLS they are ignored.\<close>

lemma ip_report_taken:
  assumes "fst (json_parse lib (c_text rx)) = j" "terminated lib rx"
    and "string_value (json_at j ''cmd'') = ''ip_report''" "rx_ret rx \<noteq> - 1" "rx_ret rx \<noteq> 0"
    and "ip_receive lib rx t w = Inr (t', v)"
  shows "run_pc t' = RunReturned 0
    \<and> obj_at (ipResults t') ''client'' = JStr (string_value (json_at j ''client''))
    \<and> obj_at (ipResults t') ''client_ip_version'' = JStr (if ipv6validated t then ''v6'' else ''v4'')
    \<and> (obj_at (ipResults t') ''tls_overhead'' =
         (if mTls t = 1 \<and> tls_complete lib j then JStr (string_value (json_at j ''tls_overhead''))
          else obj_at (ipResults t) ''tls_overhead''))
    \<and> TLS_PARAMETERS_MISSING v = (TLS_PARAMETERS_MISSING w \<or> mTls t = 1 \<and> \<not> tls_complete lib j)
    \<and> hasError v = (hasError w \<or> mTls t = 1 \<and> \<not> tls_complete lib j)"
proof -
  have r: "ip_report lib j (t\<lparr>mResponse := rx_ret rx, dataReceived := True\<rparr>, first_receive t w) = (t', v)"
    using assms by (simp add: ip_receive_def c_string_def Let_def)
  have f: "TLS_PARAMETERS_MISSING (first_receive t w) = TLS_PARAMETERS_MISSING w"
    "hasError (first_receive t w) = hasError w"
    by (simp_all add: first_receive_def sync_mark_def)
  show ?thesis
    using r f by (cases "mTls t = 1"; cases "tls_complete lib j") (auto simp: ip_report_def put_string_def)
qed

end
