(* ===== verification/PingTest.thy ===== *)
theory PingTest
  imports Streams
begin

text \<open>
  The class \<open>Ping\<close> (\<open>src/src/tests/ping.cpp\<close>): the UDP round trip test. \<open>ping_setup\<close> is
  \<open>run\<close> up to the loop, \<open>ping_guard\<close> the loop's condition with the first half of the body up
  to the blocking \<open>recvfrom\<close>, \<open>ping_receive\<close> the rest of the body.
\<close>

definition ECHO :: int where "ECHO = 64"

definition Ping_new :: "'c lib \<Rightarrow> 'c \<Rightarrow> string \<Rightarrow> ping \<Rightarrow> ping" where
  "Ping_new lib xml provider raw =
     (let q = i32 (i32 (readLong lib xml provider ''PING_QUERY'' 30) + 1)
      in raw\<lparr>run_pc := RunEntry, m_fStop := False,
            mServerName := readString lib xml provider ''DNS_HOSTNAME'' ''example.com'',
            mServer := readString lib xml provider ''PING_DESTINATION'' ''1.1.1.1'',
            mClient := ''0.0.0.0'',
            mPingQuery := q, nPingTarget := i32 (q - 1),
            mPingPort := i32 (readLong lib xml provider ''PING_PORT'' 80),
            mTimeDiff := 1, mPingResult := new_data lib\<rparr>)"

record ping_env =
  ping_pid :: u64
  ping_socktype :: "int option"
  ping_host :: string
  ping_socket6 :: int
  ping_socket4 :: int

definition ping_resolved :: "ping_env \<Rightarrow> bool" where
  "ping_resolved e \<longleftrightarrow> (case ping_socktype e of None \<Rightarrow> False | Some s \<Rightarrow> s = 1 \<or> s = 2)"

text \<open>
  \<open>::MEASUREMENT_DURATION = (int)mPingQuery * 1.5 * 1.1\<close>: a product of doubles, truncated.
  Exactly, the factor is 33/20; the constant 1.1 is a little larger as a double, which never
  lifts the truncated product of an \<open>int\<close> to the next integer.
\<close>

definition ping_duration :: "int \<Rightarrow> u64" where
  "ping_duration q = u64 ((q * 33) sdiv 20)"

definition ping_setup :: "'c lib \<Rightarrow> ping_env \<Rightarrow> ping \<Rightarrow> 'c world \<Rightarrow> ping \<times> 'c world" where
  "ping_setup lib e t w =
     (let (now, w1) = get_timestamp w;
          t1 = t\<lparr>pid := ping_pid e, measurementTimeStart := now, measurementTimeEnd := 0,
                measurementTimeDuration := 0, nSize := ECHO, nErrors := 0, nMissing := 0,
                nReplies := 0, ping_i := 1\<rparr>;
          w2 = sync_mark (pid t1) 0 w1
      in if \<not> ping_resolved e then (t1\<lparr>run_pc := RunReturned (- 1)\<rparr>, unreachable w2)
         else
           let t2 = t1\<lparr>mServer := ping_host e\<rparr>;
               w3 = w2\<lparr>MEASUREMENT_DURATION := ping_duration (mPingQuery t2)\<rparr>
           in if (if validateIp lib (mServer t2) = 6 then ping_socket6 e else ping_socket4 e) < 0
              then (t2\<lparr>run_pc := RunReturned (- 1)\<rparr>, w3)
              else (t2\<lparr>run_pc := RunGuard, dataReceived := False, firstResponse := True\<rparr>, w3))"

definition ping_guard :: "ping \<times> 'a globals_scheme \<Rightarrow> ping \<times> 'a globals_scheme" where
  "ping_guard s =
     (case s of (t, w) \<Rightarrow>
        if RUNNING w \<and> ping_i t \<le> mPingQuery t
        then (t\<lparr>run_pc := RunReceive, dataReceived := True\<rparr>, first_receive t w)
        else (t\<lparr>run_pc := RunReturned 0\<rparr>, w\<lparr>TIMER_STOPPED := True\<rparr>))"

text \<open>One exchange: the readings of the clock, the answer of \<open>recvfrom\<close>, the two buffers.\<close>

record echo_env =
  echo_ret :: int
  echo_time1 :: u64
  echo_time2 :: u64
  echo_time3 :: u64
  echo_sent :: string
  echo_got :: string

definition mirrored :: "echo_env \<Rightarrow> bool" where
  "mirrored e \<longleftrightarrow> take (nat (echo_ret e)) (echo_got e) = take (nat (echo_ret e)) (echo_sent e)"

definition record_reply :: "u64 \<Rightarrow> u64 \<Rightarrow> int \<Rightarrow> measurement_data \<Rightarrow> measurement_data" where
  "record_reply diff stamp i m =
     m\<lparr>results :=
         (case map_of (results m) i of
            None \<Rightarrow> imap_put i diff (results m)
          | Some _ \<Rightarrow> imap_add i diff (results m)),
       results_timestamp := imap_put i stamp (results_timestamp m)\<rparr>"

definition ping_receive :: "echo_env \<Rightarrow> ping \<Rightarrow> 'a globals_scheme \<Rightarrow> ping" where
  "ping_receive e t w =
     (let t1 =
        (if firstResponse t then t\<lparr>firstResponse := False\<rparr>
         else if echo_ret e \<noteq> - 1 then
           (let t1 = t\<lparr>mTimeDiff := echo_time2 e - echo_time1 e\<rparr>
            in if \<not> mirrored e then t1\<lparr>nErrors := i32 (nErrors t1 + 1)\<rparr>
               else t1\<lparr>nReplies := i32 (nReplies t1 + 1),
                       mPingResult := record_reply (mTimeDiff t1)
                         (echo_time3 e * 1000 - u64 (TIMESTAMP_MEASUREMENT_START w)) (ping_i t1)
                         (mPingResult t1)\<rparr>)
         else t\<lparr>nMissing := i32 (nMissing t + 1)\<rparr>)
      in t1\<lparr>ping_i := i32 (ping_i t1 + 1), run_pc := RunGuard\<rparr>)"


section \<open>The thread\<close>

text \<open>One step of \<open>Ping::run\<close>.\<close>

record ping_step_env =
  pe_conn :: ping_env
  pe_echo :: echo_env

definition ping_step ::
  "'c lib \<Rightarrow> ping_step_env \<Rightarrow> ping \<times> 'c world \<Rightarrow> fault + ping \<times> 'c world" where
  "ping_step lib e s =
     (case s of (t, w) \<Rightarrow>
        (case run_pc t of
           RunEntry \<Rightarrow> Inr (ping_setup lib (pe_conn e) t w)
         | RunGuard \<Rightarrow> Inr (ping_guard (t, w))
         | RunReceive \<Rightarrow> Inr (ping_receive (pe_echo e) t w, w)
         | RunReturned _ \<Rightarrow> Inr (t, w)))"

lemma ping_setup_effect:
  assumes "ping_setup lib e t w = (t', v)"
  shows "worker_effect w v" "run_pc t' = RunGuard \<or> returned (run_pc t')"
proof -
  have s: "worker_effect w (sync_mark p 0 (w\<lparr>clock_pos := Suc (clock_pos w)\<rparr>))" for p
    by (rule worker_effect_trans [OF worker_effect_parts(1) worker_effect_parts(2)])
  show "worker_effect w v" "run_pc t' = RunGuard \<or> returned (run_pc t')"
    using assms worker_effect_trans [OF s worker_effect_parts(3)]
      worker_effect_trans [OF s worker_effect_parts(10)]
    by (auto simp: ping_setup_def get_timestamp_def Let_def returned_def split: if_splits)
qed

lemma ping_receive_pc: "run_pc (ping_receive e t w) = RunGuard"
  by (simp add: ping_receive_def Let_def)

interpretation pg: worker "ping_step lib" run_pc
proof
  fix e t w t' v
  assume s: "ping_step lib e (t, w) = Inr (t', v)"
  show "worker_effect w v"
    using s ping_setup_effect(1) [of lib "pe_conn e" t w t' v]
    by (auto simp: ping_step_def ping_guard_def split: run_pc.splits if_splits)
  show "returned (run_pc t')" if "returned (run_pc t)"
    using s that by (auto simp: ping_step_def returned_def split: run_pc.splits)
  show "returned (run_pc t')" if "run_pc t = RunGuard" "\<not> RUNNING w"
    using s that by (auto simp: ping_step_def ping_guard_def returned_def)
  show "run_pc t' = RunGuard \<or> returned (run_pc t')" if "run_pc t = RunReceive"
    using s that by (auto simp: ping_step_def ping_receive_pc)
  show "run_pc t' = RunGuard \<or> returned (run_pc t')" if "run_pc t = RunEntry"
    using s that ping_setup_effect(2) [of lib "pe_conn e" t w t' v] by (simp add: ping_step_def)
qed

section \<open>The counters\<close>

text \<open>
  The first exchange only warms up; each later one is exactly one of reply, error and missing,
  and a reply is stored under its number. \<open>progressed\<close> is the state of the counters in the
  loop; \<open>ping_inv\<close> covers the thread from its construction on.
\<close>

definition keys :: "imap \<Rightarrow> int list" where
  "keys m = map fst m"

definition progressed :: "ping \<Rightarrow> bool" where
  "progressed t \<longleftrightarrow>
     0 \<le> nReplies t \<and> 0 \<le> nErrors t \<and> 0 \<le> nMissing t \<and>
     (if firstResponse t then ping_i t = 1 \<and> nReplies t + nErrors t + nMissing t = 0
      else 2 \<le> ping_i t \<and> nReplies t + nErrors t + nMissing t = ping_i t - 2) \<and>
     int (length (results (mPingResult t))) = nReplies t \<and>
     (\<forall>k\<in>set (keys (results (mPingResult t))). 2 \<le> k \<and> k < ping_i t)"

definition ping_inv :: "ping \<Rightarrow> bool" where
  "ping_inv t \<longleftrightarrow>
     mPingQuery t < 2147483647 \<and> imap_inv (results (mPingResult t)) \<and>
     imap_inv (results_timestamp (mPingResult t)) \<and>
     keys (results_timestamp (mPingResult t)) = keys (results (mPingResult t)) \<and>
     (case run_pc t of
        RunEntry \<Rightarrow> results (mPingResult t) = []
      | RunGuard \<Rightarrow> progressed t \<and> (ping_i t \<le> mPingQuery t + 1 \<or> ping_i t = 1)
      | RunReceive \<Rightarrow> progressed t \<and> ping_i t \<le> mPingQuery t
      | RunReturned r \<Rightarrow> if r = 0 then progressed t \<and> (ping_i t \<le> mPingQuery t + 1 \<or> ping_i t = 1)
          else results (mPingResult t) = [])"

lemma imap_put_append:
  "\<forall>j\<in>set (map fst m). j < k \<Longrightarrow> imap_put k v m = m @ [(k, v)]"
  by (induction m) auto

lemma progressed_receive:
  assumes "ping_inv t" "run_pc t = RunReceive"
  shows "ping_inv (ping_receive e t w)"
proof -
  let ?m = "mPingResult t"
  have p: "progressed t" "ping_i t \<le> mPingQuery t" "mPingQuery t < 2147483647"
    "imap_inv (results ?m)" "imap_inv (results_timestamp ?m)" "keys (results_timestamp ?m) = keys (results ?m)"
    using assms by (simp_all add: ping_inv_def)
  have i: "1 \<le> ping_i t" using p(1) by (auto simp: progressed_def split: if_splits)
  have n: "0 \<le> nReplies t" "0 \<le> nErrors t" "0 \<le> nMissing t"
    "nReplies t + nErrors t + nMissing t \<le> ping_i t - 1"
    using p(1) by (auto simp: progressed_def split: if_splits)
  have b: "i32 (ping_i t + 1) = ping_i t + 1" "i32 (nReplies t + 1) = nReplies t + 1"
    "i32 (nErrors t + 1) = nErrors t + 1" "i32 (nMissing t + 1) = nMissing t + 1"
    using p(2,3) i n by (simp_all add: i32_id)
  have lt: "\<forall>j\<in>set (map fst (results ?m)). j < ping_i t"
    "\<forall>j\<in>set (map fst (results_timestamp ?m)). j < ping_i t"
    using p(1,6) by (auto simp: progressed_def keys_def dest: arg_cong [where f = set])
  have none: "map_of (results ?m) (ping_i t) = None"
    using lt(1) by (force simp: map_of_eq_None_iff)
  have rec: "record_reply d s (ping_i t) ?m =
      ?m\<lparr>results := results ?m @ [(ping_i t, d)], results_timestamp := results_timestamp ?m @ [(ping_i t, s)]\<rparr>" for d s
    using none by (simp add: record_reply_def imap_put_append [OF lt(1)] imap_put_append [OF lt(2)])
  have inv: "imap_inv (results ?m @ [(ping_i t, d)])" "imap_inv (results_timestamp ?m @ [(ping_i t, s)])" for d s
    using im.inv_put [OF p(4), of "ping_i t" d] im.inv_put [OF p(5), of "ping_i t" s]
    by (simp_all add: imap_put_append [OF lt(1)] imap_put_append [OF lt(2)])
  show ?thesis
    using p i b inv rec n
    by (auto simp: ping_inv_def ping_receive_def progressed_def keys_def Let_def split: if_splits)
qed

text \<open>One step keeps the invariant; \<open>RoundTrips\<close> follows it from the constructor on.\<close>

lemma ping_step_inv:
  assumes "ping_step lib e (t, w) = Inr (t', v)" "ping_inv t"
  shows "ping_inv t'"
proof (cases "run_pc t")
  case RunEntry
  then have "ping_setup lib (pe_conn e) t w = (t', v)" using assms(1) by (simp add: ping_step_def)
  then show ?thesis
    using assms(2) RunEntry
    by (auto simp: ping_inv_def ping_setup_def progressed_def keys_def get_timestamp_def Let_def
        split: if_splits)
next
  case RunGuard
  then show ?thesis
    using assms by (auto simp: ping_step_def ping_guard_def ping_inv_def progressed_def split: if_splits)
next
  case RunReceive
  then show ?thesis using assms progressed_receive by (auto simp: ping_step_def)
next
  case (RunReturned r)
  then show ?thesis using assms by (simp add: ping_step_def)
qed

text \<open>A ping that is not stopped ends after exactly the configured number of exchanges: then
  replies, errors and missing answers add up to the target, and the timer is told to stop.\<close>

lemma ping_completes:
  assumes "ping_step lib e (t, w) = Inr (t', v)" "ping_inv t" "run_pc t = RunGuard"
    and "RUNNING w" "returned (run_pc t')" "1 \<le> mPingQuery t" "nPingTarget t = mPingQuery t - 1"
  shows "nReplies t' + nErrors t' + nMissing t' = nPingTarget t' \<and> TIMER_STOPPED v"
proof -
  have g: "(t', v) = ping_guard (t, w)" using assms(1,3) by (simp add: ping_step_def)
  then have "mPingQuery t < ping_i t" "t' = t\<lparr>run_pc := RunReturned 0\<rparr>" "v = w\<lparr>TIMER_STOPPED := True\<rparr>"
    using assms(4,5) by (auto simp: ping_guard_def returned_def split: if_splits)
  then show ?thesis
    using assms(2,3,6,7) by (auto simp: ping_inv_def progressed_def split: if_splits)
qed

text \<open>When the socket of a ping cannot be created the thread ends without any error flag, and
  its stream is never marked as ready.\<close>

lemma ping_socket_failure_silent:
  assumes "ping_resolved e" "validateIp lib (ping_host e) \<noteq> 6" "ping_socket4 e < 0"
    and "ping_setup lib e t w = (t', v)"
  shows "run_pc t' = RunReturned (- 1) \<and> hasError v = hasError w \<and> error_flags v = error_flags w
    \<and> TIMER_STOPPED v = TIMER_STOPPED w
    \<and> syncing_threads v = imap_put (i32 (uint (ping_pid e))) 0 (syncing_threads w)"
  using assms
  by (auto simp: ping_setup_def get_timestamp_def sync_mark_def error_flags_def Let_def)

section \<open>Witnesses\<close>

definition pinging :: ping where
  "pinging = ping0\<lparr>run_pc := RunReceive, firstResponse := False, ping_i := 2\<rparr>"

lemma ping_socket_failure_silent_witness:
  "hasError (snd (ping_setup (lib0 Ios) \<lparr>ping_pid = 5, ping_socktype = Some 2, ping_host = ''h'',
      ping_socket6 = - 1, ping_socket4 = - 1\<rparr> ping0 world0)) = False"
proof -
  let ?e = "\<lparr>ping_pid = 5, ping_socktype = Some 2, ping_host = ''h'', ping_socket6 = - 1, ping_socket4 = - 1\<rparr>"
  have "ping_resolved ?e" "validateIp (lib0 Ios) (ping_host ?e) \<noteq> 6" "ping_socket4 ?e < 0"
    by (simp_all add: ping_resolved_def)
  moreover have "ping_setup (lib0 Ios) ?e ping0 world0 =
      (fst (ping_setup (lib0 Ios) ?e ping0 world0), snd (ping_setup (lib0 Ios) ?e ping0 world0))" by simp
  ultimately have "hasError (snd (ping_setup (lib0 Ios) ?e ping0 world0)) = hasError world0"
    using ping_socket_failure_silent by blast
  then show ?thesis by simp
qed

end
