(* ===== verification/Measurement.thy ===== *)
theory Measurement
  imports Timer Evaluation Download Upload IpTest PingTest
begin

text \<open>
  The class \<open>CMeasurement\<close> (\<open>src/src/measurement.cpp\<close>): one test case. The constructor
  chooses the number of streams and starts the timer; \<open>startMeasurement\<close> creates the thread
  objects (\<open>begin_test\<close>), waits for their threads, polls until the timer has evaluated the test
  case, deletes the objects and waits for the timer (\<open>measurement_step\<close>).
\<close>

section \<open>Construction\<close>

definition test_instances :: "'c lib \<Rightarrow> 'c world \<Rightarrow> int" where
  "test_instances lib w =
     (if conf_nTestCase w = 1 then 1
      else if conf_nTestCase w = 2 then 1
      else if conf_nTestCase w = 3 then i32 (readLong lib (pXml w) (conf_sProvider w) ''DL_STREAMS'' 4)
      else if conf_nTestCase w = 4 then i32 (readLong lib (pXml w) (conf_sProvider w) ''UL_STREAMS'' 4)
      else 1)"

definition initial_delay :: "'c world \<Rightarrow> u64" where
  "initial_delay w =
     (if conf_nTestCase w = 1 then 0
      else if conf_nTestCase w = 2 then 1000000
      else if conf_nTestCase w = 3 \<or> conf_nTestCase w = 4 then TCP_STARTUP w
      else 1000000)"

definition CMeasurement_new :: "'c lib \<Rightarrow> 'c world \<Rightarrow> 'c world" where
  "CMeasurement_new lib w =
     (let w1 = w\<lparr>conf_instances := test_instances lib w\<rparr>
      in CTimer_new (conf_instances w1) (initial_delay w1) w1)"

section \<open>The thread objects\<close>

text \<open>
  \<open>raw\<close> arguments are the indeterminate contents of newly allocated memory; \<open>creates i\<close> says
  whether the operating system creates the \<open>i\<close>-th thread.
\<close>

record raws =
  raw_ip :: ip_test
  raw_ping :: ping
  raw_download :: download
  raw_upload :: upload

definition tls_overhead_of :: "'c lib \<Rightarrow> string \<Rightarrow> 'c world \<Rightarrow> int \<times> 'c world" where
  "tls_overhead_of lib provider w =
     (if i32 (readLong lib (pXml w) provider ''TLS'' 1) = 1 then
        let w1 = w\<lparr>jMeasurementResultsIp := obj_touch ''tls_overhead'' (jMeasurementResultsIp w)\<rparr>;
            s = string_value (obj_at (jMeasurementResultsIp w1) ''tls_overhead'')
        in (if s \<noteq> '''' \<and> 0 < toInt lib s then toInt lib s else 0, w1)
      else (0, w))"

fun spawn_downloads ::
  "'c lib \<Rightarrow> download \<Rightarrow> (nat \<Rightarrow> bool) \<Rightarrow> nat \<Rightarrow> nat \<Rightarrow> nat list \<times> 'c world \<Rightarrow>
     bool \<times> nat list \<times> 'c world" where
  "spawn_downloads lib obj creates i 0 (ps, w) = (True, ps, w)"
| "spawn_downloads lib obj creates i (Suc n) (ps, w) =
     (let p = next_ptr w;
          w1 = w\<lparr>dl_heap := (dl_heap w)(p \<mapsto> obj), next_ptr := Suc p\<rparr>
      in if creates i then spawn_downloads lib obj creates (Suc i) n (ps @ [p], w1)
         else (False, ps, w1))"

fun spawn_uploads ::
  "'c lib \<Rightarrow> upload \<Rightarrow> (nat \<Rightarrow> bool) \<Rightarrow> nat \<Rightarrow> nat \<Rightarrow> nat list \<times> 'c world \<Rightarrow>
     bool \<times> nat list \<times> 'c world" where
  "spawn_uploads lib obj creates i 0 (ps, w) = (True, ps, w)"
| "spawn_uploads lib obj creates i (Suc n) (ps, w) =
     (let p = next_ptr w;
          w1 = w\<lparr>ul_heap := (ul_heap w)(p \<mapsto> obj), next_ptr := Suc p\<rparr>
      in if creates i then spawn_uploads lib obj creates (Suc i) n (ps @ [p], w1)
         else (False, ps, w1))"

text \<open>
  \<open>startMeasurement\<close> up to the first wait. Without a test case of its own the switch falls
  through to the wait for the timer.
\<close>

definition begin_test ::
  "'c lib \<Rightarrow> raws \<Rightarrow> (nat \<Rightarrow> bool) \<Rightarrow> string \<Rightarrow> int \<Rightarrow> 'c world \<Rightarrow> 'c world" where
  "begin_test lib raw creates provider tc w0 =
     (let w = w0\<lparr>measurements_streams := 0\<rparr>; p = next_ptr w
      in if tc = 1 then
           w\<lparr>MEASUREMENT_DURATION := 60,
             ip_heap := (ip_heap w)(p \<mapsto> Ip_new lib (pXml w) provider (raw_ip raw)),
             next_ptr := Suc p, ipThread := Some p, main_pc := MainThreads 1\<rparr>
         else if tc = 2 then
           w\<lparr>ping_heap := (ping_heap w)(p \<mapsto> Ping_new lib (pXml w) provider (raw_ping raw)),
             next_ptr := Suc p, pingThread := Some p, main_pc := MainThreads 2\<rparr>
         else if tc = 3 then
           (let (tls, w1) = tls_overhead_of lib provider
                  (w\<lparr>MEASUREMENT_DURATION := u64 (readLong lib (pXml w) provider ''DL_DURATION'' 10)\<rparr>);
                (ok, ps, w2) = spawn_downloads lib
                  (Download_new lib (pXml w1) provider tls (raw_download raw)) creates 0
                  (nat (conf_instances w1)) ([], w1)
            in if ok then w2\<lparr>vDownloadThreads := ps, main_pc := MainThreads 3\<rparr>
               else w2\<lparr>main_pc := MainSelect 4\<rparr>)
         else if tc = 4 then
           (let w1 = w\<lparr>MEASUREMENT_DURATION :=
                    u64 (i64 (readLong lib (pXml w) provider ''UL_DURATION'' 10 + 2)),
                  measurements_upload_datasize := 0\<rparr>;
                (ok, ps, w2) = spawn_uploads lib
                  (Upload_new lib (pXml w1) provider (raw_upload raw)) creates 0
                  (nat (conf_instances w1)) ([], w1)
            in if ok then w2\<lparr>vUploadThreads := ps, main_pc := MainThreads 4\<rparr>
               else w2\<lparr>main_pc := MainSelect 5\<rparr>)
         else w\<lparr>main_pc := MainTimer tc\<rparr>)"

section \<open>Waiting\<close>

definition all_returned :: "(nat \<rightharpoonup> 'a test_thread_scheme) \<Rightarrow> nat list \<Rightarrow> bool" where
  "all_returned h ps \<longleftrightarrow>
     list_all (\<lambda>p. case h p of None \<Rightarrow> True | Some t \<Rightarrow> returned (run_pc t)) ps"

definition threads_ended :: "int \<Rightarrow> 'c world \<Rightarrow> bool" where
  "threads_ended tc w =
     (if tc = 1 then all_returned (ip_heap w) (case ipThread w of None \<Rightarrow> [] | Some p \<Rightarrow> [p])
      else if tc = 2 then all_returned (ping_heap w) (case pingThread w of None \<Rightarrow> [] | Some p \<Rightarrow> [p])
      else if tc = 3 then all_returned (dl_heap w) (vDownloadThreads w)
      else all_returned (ul_heap w) (vUploadThreads w))"

definition performed :: "int \<Rightarrow> 'a globals_scheme \<Rightarrow> bool" where
  "performed tc w =
     (if tc = 1 then PERFORMED_IP w else if tc = 2 then PERFORMED_RTT w
      else if tc = 3 then PERFORMED_DOWNLOAD w else PERFORMED_UPLOAD w)"

text \<open>The objects of a test case go: \<open>unique_ptr\<close> or \<open>delete\<close>. The callback keeps its pointers.\<close>

definition delete_threads :: "int \<Rightarrow> 'c world \<Rightarrow> 'c world" where
  "delete_threads tc w =
     (if tc = 1 then w\<lparr>ip_heap := (case ipThread w of None \<Rightarrow> ip_heap w
                                    | Some p \<Rightarrow> (ip_heap w)(p := None))\<rparr>
      else if tc = 2 then w\<lparr>ping_heap := (case pingThread w of None \<Rightarrow> ping_heap w
                                    | Some p \<Rightarrow> (ping_heap w)(p := None))\<rparr>
      else if tc = 3 then w\<lparr>dl_heap := fold (\<lambda>p h. h(p := None)) (vDownloadThreads w) (dl_heap w)\<rparr>
      else w\<lparr>ul_heap := fold (\<lambda>p h. h(p := None)) (vUploadThreads w) (ul_heap w)\<rparr>)"

definition measurement_step :: "'c world \<Rightarrow> 'c world" where
  "measurement_step w =
     (case main_pc w of
        MainThreads tc \<Rightarrow> if threads_ended tc w then w\<lparr>main_pc := MainPoll tc\<rparr> else w
      | MainPoll tc \<Rightarrow>
          if \<not> performed tc w \<and> \<not> hasError w \<and> RUNNING w then w
          else delete_threads tc (w\<lparr>main_pc := MainTimer tc\<rparr>)
      | MainTimer tc \<Rightarrow>
          if timer_pc (timer w) = TimerDone then w\<lparr>main_pc := MainSelect (tc + 1)\<rparr> else w
      | _ \<Rightarrow> w)"


section \<open>The life of the thread objects\<close>

lemma spawn_downloads_result:
  assumes "spawn_downloads lib obj creates i n (ps, w) = (True, qs, v)"
  shows "qs = ps @ [next_ptr w ..< next_ptr w + n] \<and> next_ptr v = next_ptr w + n \<and>
    (\<forall>p. dl_heap v p = (if next_ptr w \<le> p \<and> p < next_ptr w + n then Some obj else dl_heap w p))"
  using assms
proof (induction n arbitrary: i ps w)
  case (Suc n)
  let ?w = "w\<lparr>dl_heap := (dl_heap w)(next_ptr w \<mapsto> obj), next_ptr := Suc (next_ptr w)\<rparr>"
  have "spawn_downloads lib obj creates (Suc i) n (ps @ [next_ptr w], ?w) = (True, qs, v)"
    using Suc.prems by (simp add: Let_def split: if_splits)
  note ih = Suc.IH [OF this]
  have "[next_ptr w ..< next_ptr w + Suc n] = next_ptr w # [Suc (next_ptr w) ..< next_ptr w + Suc n]"
    by (rule upt_conv_Cons) simp
  then show ?case using ih by auto
qed auto

lemma spawn_uploads_result:
  assumes "spawn_uploads lib obj creates i n (ps, w) = (True, qs, v)"
  shows "qs = ps @ [next_ptr w ..< next_ptr w + n] \<and> next_ptr v = next_ptr w + n \<and>
    (\<forall>p. ul_heap v p = (if next_ptr w \<le> p \<and> p < next_ptr w + n then Some obj else ul_heap w p))"
  using assms
proof (induction n arbitrary: i ps w)
  case (Suc n)
  let ?w = "w\<lparr>ul_heap := (ul_heap w)(next_ptr w \<mapsto> obj), next_ptr := Suc (next_ptr w)\<rparr>"
  have "spawn_uploads lib obj creates (Suc i) n (ps @ [next_ptr w], ?w) = (True, qs, v)"
    using Suc.prems by (simp add: Let_def split: if_splits)
  note ih = Suc.IH [OF this]
  have "[next_ptr w ..< next_ptr w + Suc n] = next_ptr w # [Suc (next_ptr w) ..< next_ptr w + Suc n]"
    by (rule upt_conv_Cons) simp
  then show ?case using ih by auto
qed auto

lemma fold_delete: "fold (\<lambda>p h. h(p := None)) ps h q = (if q \<in> set ps then None else h q)"
  by (induction ps arbitrary: h) auto

definition speed_heap_pcs :: "int \<Rightarrow> 'c world \<Rightarrow> nat list \<times> (nat \<Rightarrow> run_pc option)" where
  "speed_heap_pcs tc w = (if tc = 3 then (vDownloadThreads w, \<lambda>p. map_option run_pc (dl_heap w p))
     else (vUploadThreads w, \<lambda>p. map_option run_pc (ul_heap w p)))"

lemma tls_overhead_of_frame:
  "tls_overhead_of lib provider w = (n, v) \<Longrightarrow>
     conf_instances v = conf_instances w \<and> next_ptr v = next_ptr w \<and> dl_heap v = dl_heap w"
  by (auto simp: tls_overhead_of_def Let_def split: if_splits)

text \<open>C33: A speed test that gets started has as many stream objects as the test case has instances,
  at fresh, distinct addresses, all before the start of their \<open>run\<close>; deleting the objects of
  the test case removes exactly these.\<close>

theorem streams_created_and_deleted:
  assumes "tc = 3 \<or> tc = 4" "begin_test lib raw creates provider tc w = v" "main_pc v = MainThreads tc"
  shows "fst (speed_heap_pcs tc v) = [next_ptr w ..< next_ptr w + nat (conf_instances w)]
    \<and> (\<forall>p\<in>set (fst (speed_heap_pcs tc v)). snd (speed_heap_pcs tc v) p = Some RunEntry)
    \<and> (\<forall>p. snd (speed_heap_pcs tc (delete_threads tc v)) p =
         (if p \<in> set (fst (speed_heap_pcs tc v)) then None else snd (speed_heap_pcs tc w) p))"
proof (cases "tc = 3")
  case True
  let ?w = "w\<lparr>measurements_streams := 0,
    MEASUREMENT_DURATION := u64 (readLong lib (pXml w) provider ''DL_DURATION'' 10)\<rparr>"
  obtain tls w1 where t: "tls_overhead_of lib provider ?w = (tls, w1)"
    by (cases "tls_overhead_of lib provider ?w")
  let ?obj = "Download_new lib (pXml w1) provider tls (raw_download raw)"
  obtain ok ps w2 where s: "spawn_downloads lib ?obj creates 0 (nat (conf_instances w1)) ([], w1) = (ok, ps, w2)"
    by (cases "spawn_downloads lib ?obj creates 0 (nat (conf_instances w1)) ([], w1)")
  have v: "v = (if ok then w2\<lparr>vDownloadThreads := ps, main_pc := MainThreads 3\<rparr>
      else w2\<lparr>main_pc := MainSelect 4\<rparr>)"
    using assms(2) True t s by (simp add: begin_test_def Let_def)
  then have ok: "ok" using assms(3) by (auto split: if_splits)
  have f: "conf_instances w1 = conf_instances w" "next_ptr w1 = next_ptr w" "dl_heap w1 = dl_heap w"
    using tls_overhead_of_frame [OF t] by simp_all
  have r: "run_pc ?obj = RunEntry" by (simp add: Download_new_def)
  show ?thesis
    using spawn_downloads_result [OF s [unfolded eqTrueI [OF ok]]] ok f r
    by (simp add: v True speed_heap_pcs_def delete_threads_def fold_delete)
next
  case False
  then have tc: "tc = 4" using assms(1) by simp
  let ?w = "w\<lparr>measurements_streams := 0, MEASUREMENT_DURATION :=
      u64 (i64 (readLong lib (pXml w) provider ''UL_DURATION'' 10 + 2)), measurements_upload_datasize := 0\<rparr>"
  let ?obj = "Upload_new lib (pXml ?w) provider (raw_upload raw)"
  obtain ok ps w2 where s: "spawn_uploads lib ?obj creates 0 (nat (conf_instances ?w)) ([], ?w) = (ok, ps, w2)"
    by (cases "spawn_uploads lib ?obj creates 0 (nat (conf_instances ?w)) ([], ?w)")
  have v: "v = (if ok then w2\<lparr>vUploadThreads := ps, main_pc := MainThreads 4\<rparr>
      else w2\<lparr>main_pc := MainSelect 5\<rparr>)"
    using assms(2) tc s by (simp add: begin_test_def Let_def)
  then have ok: "ok" using assms(3) tc by (auto split: if_splits)
  have r: "run_pc ?obj = RunEntry" by (simp add: Upload_new_def)
  show ?thesis
    using spawn_uploads_result [OF s [unfolded eqTrueI [OF ok]]] ok r
    by (simp add: v tc speed_heap_pcs_def delete_threads_def fold_delete)
qed

section \<open>A thread that is not created\<close>

text \<open>The objects made up to the failure, that of the failed creation included, stay on the heap.\<close>

lemma spawn_downloads_fails:
  assumes "k < n" "\<forall>j<k. creates (i + j)" "\<not> creates (i + k)"
  shows "\<exists>qs v. spawn_downloads lib obj creates i n (ps, w) = (False, qs, v) \<and>
    v = w\<lparr>dl_heap := dl_heap v, next_ptr := next_ptr w + Suc k\<rparr> \<and>
    (\<forall>p. dl_heap v p = (if next_ptr w \<le> p \<and> p < next_ptr w + Suc k then Some obj else dl_heap w p))"
  using assms
proof (induction n arbitrary: i k ps w)
  case (Suc n)
  let ?w = "w\<lparr>dl_heap := (dl_heap w)(next_ptr w \<mapsto> obj), next_ptr := Suc (next_ptr w)\<rparr>"
  show ?case
  proof (cases k)
    case 0
    then show ?thesis using Suc.prems by (auto simp: Let_def)
  next
    case (Suc m)
    then have "creates i" using Suc.prems(2) by (metis add_0_right zero_less_Suc)
    moreover have "m < n" "\<forall>j<m. creates (Suc i + j)" "\<not> creates (Suc i + m)"
      using Suc Suc.prems by auto
    note Suc.IH [OF this, of "ps @ [next_ptr w]" ?w]
    ultimately show ?thesis by (auto simp: Let_def Suc)
  qed
qed simp

lemma spawn_uploads_fails:
  assumes "k < n" "\<forall>j<k. creates (i + j)" "\<not> creates (i + k)"
  shows "\<exists>qs v. spawn_uploads lib obj creates i n (ps, w) = (False, qs, v) \<and>
    v = w\<lparr>ul_heap := ul_heap v, next_ptr := next_ptr w + Suc k\<rparr> \<and>
    (\<forall>p. ul_heap v p = (if next_ptr w \<le> p \<and> p < next_ptr w + Suc k then Some obj else ul_heap w p))"
  using assms
proof (induction n arbitrary: i k ps w)
  case (Suc n)
  let ?w = "w\<lparr>ul_heap := (ul_heap w)(next_ptr w \<mapsto> obj), next_ptr := Suc (next_ptr w)\<rparr>"
  show ?case
  proof (cases k)
    case 0
    then show ?thesis using Suc.prems by (auto simp: Let_def)
  next
    case (Suc m)
    then have "creates i" using Suc.prems(2) by (metis add_0_right zero_less_Suc)
    moreover have "m < n" "\<forall>j<m. creates (Suc i + j)" "\<not> creates (Suc i + m)"
      using Suc Suc.prems by auto
    note Suc.IH [OF this, of "ps @ [next_ptr w]" ?w]
    ultimately show ?thesis by (auto simp: Let_def Suc)
  qed
qed simp

text \<open>What a test case leaves behind whose \<open>k\<close>-th thread is not created.\<close>

definition abandoned :: "int \<Rightarrow> nat \<Rightarrow> 'c world \<Rightarrow> 'c world \<Rightarrow> bool" where
  "abandoned tc k w v \<longleftrightarrow>
     main_pc v = MainSelect (tc + 1) \<and> timer v = timer w \<and> hasError v = hasError w \<and>
     RUNNING v = RUNNING w \<and> fst (speed_heap_pcs tc v) = fst (speed_heap_pcs tc w) \<and>
     (\<forall>p. snd (speed_heap_pcs tc v) p =
        (if next_ptr w \<le> p \<and> p \<le> next_ptr w + k then Some RunEntry else snd (speed_heap_pcs tc w) p))"

lemma begin_test_abandoned:
  assumes "tc = 3 \<or> tc = 4" "k < nat (conf_instances w)" "\<forall>j<k. creates j" "\<not> creates k"
  shows "abandoned tc k w (begin_test lib raw creates provider tc w)"
proof (cases "tc = 3")
  case True
  let ?w = "w\<lparr>measurements_streams := 0,
    MEASUREMENT_DURATION := u64 (readLong lib (pXml w) provider ''DL_DURATION'' 10)\<rparr>"
  obtain tls w1 where t: "tls_overhead_of lib provider ?w = (tls, w1)"
    by (cases "tls_overhead_of lib provider ?w")
  let ?obj = "Download_new lib (pXml w1) provider tls (raw_download raw)"
  have f: "w1 = ?w\<lparr>jMeasurementResultsIp := jMeasurementResultsIp w1\<rparr>"
    using t by (auto simp: tls_overhead_of_def Let_def split: if_splits)
  have i: "conf_instances w1 = conf_instances w" "next_ptr w1 = next_ptr w" "dl_heap w1 = dl_heap w"
    using tls_overhead_of_frame [OF t] by simp_all
  obtain qs v where s: "spawn_downloads lib ?obj creates 0 (nat (conf_instances w1)) ([], w1) = (False, qs, v)"
    "v = w1\<lparr>dl_heap := dl_heap v, next_ptr := next_ptr w1 + Suc k\<rparr>"
    "\<forall>p. dl_heap v p = (if next_ptr w1 \<le> p \<and> p < next_ptr w1 + Suc k then Some ?obj else dl_heap w1 p)"
    using spawn_downloads_fails [of k "nat (conf_instances w1)" creates 0 lib ?obj "[]" w1] assms i by auto
  have r: "run_pc ?obj = RunEntry" by (simp add: Download_new_def)
  have b: "begin_test lib raw creates provider tc w = v\<lparr>main_pc := MainSelect 4\<rparr>"
    using True t s(1) by (simp add: begin_test_def Let_def)
  have "timer v = timer w" "hasError v = hasError w" "RUNNING v = RUNNING w" "vDownloadThreads v = vDownloadThreads w"
    by (subst s(2), subst f, simp)+
  then show ?thesis using s(3) i r by (simp add: abandoned_def b [unfolded True] True speed_heap_pcs_def)
next
  case False
  then have tc: "tc = 4" using assms(1) by simp
  let ?w = "w\<lparr>measurements_streams := 0, MEASUREMENT_DURATION :=
      u64 (i64 (readLong lib (pXml w) provider ''UL_DURATION'' 10 + 2)), measurements_upload_datasize := 0\<rparr>"
  let ?obj = "Upload_new lib (pXml ?w) provider (raw_upload raw)"
  obtain qs v where s: "spawn_uploads lib ?obj creates 0 (nat (conf_instances ?w)) ([], ?w) = (False, qs, v)"
    "v = ?w\<lparr>ul_heap := ul_heap v, next_ptr := next_ptr ?w + Suc k\<rparr>"
    "\<forall>p. ul_heap v p = (if next_ptr ?w \<le> p \<and> p < next_ptr ?w + Suc k then Some ?obj else ul_heap ?w p)"
    using spawn_uploads_fails [of k "nat (conf_instances ?w)" creates 0 lib ?obj "[]" ?w] assms by auto
  have r: "run_pc ?obj = RunEntry" by (simp add: Upload_new_def)
  have b: "begin_test lib raw creates provider tc w = v\<lparr>main_pc := MainSelect 5\<rparr>"
    using tc s(1) by (simp add: begin_test_def Let_def)
  have "timer v = timer w" "hasError v = hasError w" "RUNNING v = RUNNING w" "vUploadThreads v = vUploadThreads w"
    by (subst s(2), simp)+
  then show ?thesis using s(3) r by (simp add: abandoned_def b [unfolded tc] tc speed_heap_pcs_def)
qed

section \<open>Witnesses\<close>

lemma streams_created_and_deleted_witness:
  "fst (speed_heap_pcs 4 (begin_test (lib0 Ios) \<lparr>raw_ip = ip0, raw_ping = ping0, raw_download = download0,
      raw_upload = upload0\<rparr> (\<lambda>_. True) ''ias'' 4 (world0\<lparr>conf_instances := 2, next_ptr := 5\<rparr>))) = [5, 6]"
proof -
  let ?w = "world0\<lparr>conf_instances := 2, next_ptr := 5\<rparr>"
  let ?v = "begin_test (lib0 Ios) \<lparr>raw_ip = ip0, raw_ping = ping0, raw_download = download0,
      raw_upload = upload0\<rparr> (\<lambda>_. True) ''ias'' 4 ?w"
  have "main_pc ?v = MainThreads 4"
    by (simp add: begin_test_def Let_def numeral_2_eq_2)
  from streams_created_and_deleted [OF _ refl this] show ?thesis
    by (simp add: upt_rec)
qed

end
