(* ===== verification/Client.thy ===== *)
theory Client
  imports Measurement
begin

text \<open>
  The entry points (\<open>src/src/ias_client.cpp\<close>): the command line, \<open>measurementStart\<close> with the
  sequence of test cases, \<open>startTestCase\<close>, \<open>shutdown\<close>, \<open>measurementStop\<close> and the signal
  handler. \<open>measurementStart\<close> is \<open>measurement_init\<close> up to the first test case and then
  \<open>main_step\<close>, one step of the main thread between two waits.
\<close>

section \<open>Ending\<close>

definition EXIT_SUCCESS :: int where "EXIT_SUCCESS = 0"
definition EXIT_FAILURE :: int where "EXIT_FAILURE = 1"

text \<open>\<open>exit\<close> ends the process in the executable; the mobile libraries go on.\<close>

definition shutdown :: "'c lib \<Rightarrow> 'c world \<Rightarrow> 'c world" where
  "shutdown lib w =
     (let w1 = w\<lparr>RUNNING := False\<rparr>
      in if target lib = Desktop then w1\<lparr>main_pc := MainExited EXIT_SUCCESS\<rparr> else w1)"

definition exited :: "'c world \<Rightarrow> bool" where
  "exited w \<longleftrightarrow> (case main_pc w of MainExited _ \<Rightarrow> True | _ \<Rightarrow> False)"

definition measurementStop :: "'c lib \<Rightarrow> 'c world \<Rightarrow> 'c world" where
  "measurementStop lib w = shutdown lib w"

text \<open>The handler's body is compiled on Linux only.\<close>

definition signal_handler :: "bool \<Rightarrow> int \<Rightarrow> 'c world \<Rightarrow> 'c world" where
  "signal_handler linux sig w =
     (if linux then w\<lparr>hasError := True, RUNNING := False, main_pc := MainExited sig\<rparr> else w)"

section \<open>The command line\<close>

text \<open>
  \<open>main\<close> reads what \<open>getopt\<close> returns: option characters with their argument. \<open>show_usage\<close>
  ends the process itself, with \<open>EXIT_FAILURE\<close>.
\<close>

record options =
  opt_rtt :: bool
  opt_download :: bool
  opt_upload :: bool
  opt_debug :: bool
  opt_tls :: int
  target_port :: string

definition show_usage :: int where
  "show_usage = EXIT_FAILURE"

fun read_options :: "(char \<times> string option) list \<Rightarrow> options \<Rightarrow> int + options" where
  "read_options [] s = Inr s"
| "read_options ((c, optarg) # rest) s =
     (if c = CHR ''r'' then read_options rest (s\<lparr>opt_rtt := True\<rparr>)
      else if c = CHR ''d'' then read_options rest (s\<lparr>opt_download := True\<rparr>)
      else if c = CHR ''u'' then read_options rest (s\<lparr>opt_upload := True\<rparr>)
      else if c = CHR ''t'' then read_options rest (s\<lparr>opt_tls := 1\<rparr>)
      else if c = CHR ''p'' then
        (case optarg of None \<Rightarrow> Inl show_usage
         | Some a \<Rightarrow> read_options rest (s\<lparr>target_port := a\<rparr>))
      else if c = CHR ''n'' then read_options rest (s\<lparr>opt_debug := True\<rparr>)
      else if c = CHR ''h'' then Inl show_usage
      else if c = CHR ''v'' then Inl 0
      else Inl show_usage)"

definition desktop_parameters :: "bool \<Rightarrow> options \<Rightarrow> json" where
  "desktop_parameters macos s =
     JObj [(''rtt'', JObj [(''performMeasurement'', JBool (opt_rtt s))]),
           (''download'', JObj [(''performMeasurement'', JBool (opt_download s)),
                              (''streams'', JStr ''4'')]),
           (''upload'', JObj [(''performMeasurement'', JBool (opt_upload s)),
                            (''streams'', JStr ''4'')]),
           (''clientos'', JStr (if macos then ''macos'' else ''linux'')),
           (''platform'', JStr ''desktop''),
           (''wsTargetPort'', JStr (target_port s)),
           (''wsTargetPortRtt'', JStr ''80''),
           (''wsWss'', JStr (to_string_int (opt_tls s))),
           (''wsTargets'', JArr [JStr ''peer.example.com''])]"

text \<open>
  \<open>main\<close>: an exit code, or the globals it sets and the string for \<open>measurementStart\<close>.
\<close>

definition main ::
  "'c lib \<Rightarrow> bool \<Rightarrow> (char \<times> string option) list \<Rightarrow> 'c world \<Rightarrow> int + 'c world \<times> string" where
  "main lib macos args w =
     (case read_options args \<lparr>opt_rtt = False, opt_download = False, opt_upload = False,
               opt_debug = False, opt_tls = 0, target_port = ''80''\<rparr> of
        Inl code \<Rightarrow> Inl code
      | Inr s \<Rightarrow>
          if \<not> opt_rtt s \<and> \<not> opt_download s \<and> \<not> opt_upload s then Inl show_usage
          else Inr (w\<lparr>DEBUG_FLAG := opt_debug s, RUNNING := True, RTT := opt_rtt s,
                      DOWNLOAD := opt_download s, UPLOAD := opt_upload s\<rparr>,
                    json_dump lib (desktop_parameters macos s)))"

section \<open>The start of the process\<close>

text \<open>
  The globals are zero-initialised, \<open>currentTestPhase\<close> is \<open>INIT\<close>; there is no callback object,
  no timer and no test object yet. \<open>c\<close> stands for the unset configuration and \<open>clk\<close> for the
  readings of the clock.
\<close>

definition process_start :: "'c \<Rightarrow> (nat \<Rightarrow> u64) \<Rightarrow> 'c world" where
  "process_start c clk =
     \<lparr>RUNNING = False, UNREACHABLE = False, STREAMS_DROPPED = False, FORBIDDEN = False,
      TLS_PARAMETERS_MISSING = False, PLATFORM = '''', CLIENT_OS = '''', TCP_STARTUP = 0,
      IP = False, RTT = False, DOWNLOAD = False, UPLOAD = False, hasError = False,
      TIMER_ACTIVE = False, TIMER_RUNNING = False, TIMER_STOPPED = False, TIMER_INDEX = 0,
      TIMER_INDEX_UPLOAD_FIRST = 0, TIMER_DURATION = 0, MEASUREMENT_DURATION = 0,
      TIMESTAMP_MEASUREMENT_START = 0, PERFORMED_IP = False, PERFORMED_RTT = False,
      PERFORMED_DOWNLOAD = False, PERFORMED_UPLOAD = False, conf_instances = 0,
      conf_nTestCase = 0, conf_sTestName = '''', conf_sProvider = '''',
      randomDataValues_size = 0, syncing_threads = [], currentTestPhase = INIT,
      measurements_streams = 0, measurements_upload_datasize = 0, DEBUG_FLAG = False,
      clock = clk, clock_pos = 0, out = [], trace = [], pXml = c,
      iosCallbackFunc_set = False, jMeasurementParameters = JNull, jMeasurementResultsTime = [],
      jMeasurementResultsPeer = [], jMeasurementResultsIp = [], jMeasurementResultsRttUdp = [],
      jMeasurementResultsDownload = [], jMeasurementResultsDownloadStreams = [],
      jMeasurementResultsUpload = [], jMeasurementResultsUploadStreams = [], mTestCase = 0,
      ipThread = None, pingThread = None, vDownloadThreads = [], vUploadThreads = [],
      ip_heap = Map.empty, ping_heap = Map.empty, dl_heap = Map.empty, ul_heap = Map.empty,
      next_ptr = 0,
      timer = \<lparr>mInstances = 0, unreachableSignaled = False, streamsDroppedSignaled = False,
        forbiddenSignaled = False, tlsParametersMissingSignaled = False, mInitialCallbackDelay = 0,
        timer_fStop = False, timer_pc = TimerDone, time1 = 0, current_index = 0\<rparr>,
      main_pc = MainReturned\<rparr>"

section \<open>Starting a measurement\<close>

text \<open>The globals that every measurement starts from.\<close>

definition reset_globals :: "'c world \<Rightarrow> 'c world" where
  "reset_globals w =
     w\<lparr>PERFORMED_IP := False, PERFORMED_RTT := False, PERFORMED_DOWNLOAD := False,
       PERFORMED_UPLOAD := False, hasError := False, UNREACHABLE := False,
       STREAMS_DROPPED := False, FORBIDDEN := False, TLS_PARAMETERS_MISSING := False,
       TCP_STARTUP := 3000000, conf_sProvider := ''ias''\<rparr>"

text \<open>
  The configuration is filled from the parameters: \<open>cfg0\<close> is the newly made \<open>pXml\<close>, \<open>rnd\<close>
  the result of \<open>rand\<close>. An empty list of targets divides by zero.
\<close>

definition pick_target :: "json list \<Rightarrow> nat \<Rightarrow> fault + json" where
  "pick_target targets rnd =
     (if targets = [] then Inl DivisionByZero else Inr (targets ! (rnd mod length targets)))"

definition write_config :: "'c lib \<Rightarrow> jobject \<Rightarrow> string \<Rightarrow> 'c world \<Rightarrow> 'c world" where
  "write_config lib params host w =
     (let put = (\<lambda>k v cfg. writeString lib cfg (conf_sProvider w) k v);
          str = (\<lambda>j k. string_value (json_at j k));
          cfg = put ''UL_STREAMS'' (str (obj_at params ''upload'') ''streams'')
               (put ''DL_STREAMS'' (str (obj_at params ''download'') ''streams'')
               (put ''TLS'' (string_value (obj_at params ''wsWss''))
               (put ''PING_PORT'' (string_value (obj_at params ''wsTargetPortRtt''))
               (put ''PORT'' (string_value (obj_at params ''wsTargetPort''))
               (put ''DNS_HOSTNAME'' host (pXml w))))))
      in w\<lparr>pXml := put ''PING_QUERY''
             (if target lib = Android then str (obj_at params ''rtt'') ''ping_query'' else ''10'') cfg,
           RTT := bool_value (json_at (obj_at params ''rtt'') ''performMeasurement''),
           DOWNLOAD := bool_value (json_at (obj_at params ''download'') ''performMeasurement''),
           UPLOAD := bool_value (json_at (obj_at params ''upload'') ''performMeasurement''),
           IP := True\<rparr>)"

definition no_test_enabled :: "'a globals_scheme \<Rightarrow> bool" where
  "no_test_enabled w \<longleftrightarrow> \<not> RTT w \<and> \<not> DOWNLOAD w \<and> \<not> UPLOAD w"

definition measurement_init ::
  "'c lib \<Rightarrow> 'c \<Rightarrow> nat \<Rightarrow> string \<Rightarrow> 'c world \<Rightarrow> fault + 'c world" where
  "measurement_init lib cfg0 rnd text w =
     (let w0 = reset_globals w;
          (j, err) = json_parse lib text;
          params = object_items j;
          w1 = (if err \<noteq> '''' then shutdown lib w0 else w0)
      in if exited w1 then Inr w1
         else
           res_bind (pick_target (array_items (obj_at params ''wsTargets'')) rnd) (\<lambda>t.
             let w2 = write_config lib params (string_value t)
                   (w1\<lparr>PLATFORM := string_value (obj_at params ''platform''),
                       CLIENT_OS := string_value (obj_at params ''clientos''), pXml := cfg0\<rparr>);
                 host = readString lib
                   (writeString lib cfg0 (conf_sProvider w1) ''DNS_HOSTNAME'' (string_value t))
                   (conf_sProvider w1) ''DNS_HOSTNAME'' ''example.com'';
                 w3 = CCallback_new (JObj (obj_put ''wsTarget'' (JStr host) params)) w2
             in if no_test_enabled w3 then
                  res_map (\<lambda>v. let v1 = shutdown lib v
                               in if exited v1 then v1 else v1\<lparr>main_pc := MainSelect 1\<rparr>)
                    (callback lib ''error'' ''no test case enabled'' 1 ''no test case enabled'' w3)
                else Inr (w3\<lparr>main_pc := MainSelect 1\<rparr>)))"

section \<open>The sequence of test cases\<close>

definition test_name :: "int \<Rightarrow> string" where
  "test_name tc = (if tc = 1 then ''ip'' else if tc = 2 then ''rtt_udp''
     else if tc = 3 then ''download'' else ''upload'')"

definition test_phase :: "int \<Rightarrow> MeasurementPhase" where
  "test_phase tc = (if tc = 1 then PhaseIP else if tc = 2 then PING
     else if tc = 3 then PhaseDOWNLOAD else PhaseUPLOAD)"

text \<open>The conditions of the four \<open>if\<close>s; the first does not look at \<open>hasError\<close>.\<close>

definition take_test :: "int \<Rightarrow> 'a globals_scheme \<Rightarrow> bool" where
  "take_test tc w =
     (if tc = 1 then IP w \<and> RUNNING w
      else if tc = 2 then RTT w \<and> RUNNING w \<and> \<not> hasError w
      else if tc = 3 then DOWNLOAD w \<and> RUNNING w \<and> \<not> hasError w
      else UPLOAD w \<and> RUNNING w \<and> \<not> hasError w)"

definition RANDOM_DATA_SIZE :: u64 where
  "RANDOM_DATA_SIZE = 1123457 * 10"

text \<open>
  \<open>startTestCase\<close>; the notification is compiled into the mobile libraries only.
\<close>

definition startTestCase ::
  "'c lib \<Rightarrow> raws \<Rightarrow> (nat \<Rightarrow> bool) \<Rightarrow> int \<Rightarrow> 'c world \<Rightarrow> 'c world" where
  "startTestCase lib raw creates tc w =
     (let w1 = w\<lparr>syncing_threads := [], mTestCase := tc\<rparr>;
          w2 = (if target lib = Desktop then w1 else callbackToPlatform lib ''started'' '''' 0 '''' w1)
      in begin_test lib raw creates (conf_sProvider w2) tc (CMeasurement_new lib w2))"

text \<open>
  The four \<open>if\<close>s: \<open>select_test\<close> is the condition, \<open>start_test\<close> the body behind its
  \<open>usleep(500000)\<close>. What happens in between does not keep a selected test case from starting.
\<close>

definition select_test :: "int \<Rightarrow> 'c world \<Rightarrow> 'c world" where
  "select_test tc w =
     (if tc < 1 \<or> 4 < tc then w\<lparr>currentTestPhase := END, main_pc := MainShutdown\<rparr>
      else if take_test tc w then w\<lparr>main_pc := MainPause tc\<rparr>
      else w\<lparr>main_pc := MainSelect (tc + 1)\<rparr>)"

definition start_test ::
  "'c lib \<Rightarrow> raws \<Rightarrow> (nat \<Rightarrow> bool) \<Rightarrow> int \<Rightarrow> 'c world \<Rightarrow> 'c world" where
  "start_test lib raw creates tc w =
     (let w1 = (if tc = 4 then w\<lparr>randomDataValues_size := RANDOM_DATA_SIZE\<rparr> else w)
      in startTestCase lib raw creates tc
           (w1\<lparr>conf_nTestCase := tc, conf_sTestName := test_name tc,
               currentTestPhase := test_phase tc\<rparr>))"

definition final_shutdown :: "'c lib \<Rightarrow> 'c world \<Rightarrow> 'c world" where
  "final_shutdown lib w = shutdown lib (w\<lparr>main_pc := MainReturned\<rparr>)"

definition main_step :: "'c lib \<Rightarrow> raws \<Rightarrow> (nat \<Rightarrow> bool) \<Rightarrow> 'c world \<Rightarrow> 'c world" where
  "main_step lib raw creates w =
     (case main_pc w of
        MainSelect tc \<Rightarrow> select_test tc w
      | MainPause tc \<Rightarrow> start_test lib raw creates tc w
      | MainShutdown \<Rightarrow> final_shutdown lib w
      | MainReturned \<Rightarrow> w
      | MainExited code \<Rightarrow> w
      | _ \<Rightarrow> measurement_step w)"


section \<open>The command line is read\<close>

definition known_option :: "char \<times> string option \<Rightarrow> bool" where
  "known_option a \<longleftrightarrow> fst a \<in> {CHR ''r'', CHR ''d'', CHR ''u'', CHR ''t'', CHR ''n''} \<or>
     fst a = CHR ''p'' \<and> snd a \<noteq> None"

definition test_option :: "char \<times> string option \<Rightarrow> bool" where
  "test_option a \<longleftrightarrow> fst a \<in> {CHR ''r'', CHR ''d'', CHR ''u''}"

definition any_test :: "options \<Rightarrow> bool" where
  "any_test s \<longleftrightarrow> opt_rtt s \<or> opt_download s \<or> opt_upload s"

lemma read_options_result:
  "(\<exists>s'. read_options args s = Inr s') = (\<forall>a\<in>set args. known_option a) \<and>
   (\<forall>s'. read_options args s = Inr s' \<longrightarrow> any_test s' = (any_test s \<or> (\<exists>a\<in>set args. test_option a)))"
proof (induction args s rule: read_options.induct)
  case (2 c optarg rest s)
  then show ?case
    by (cases optarg) (auto simp: known_option_def test_option_def any_test_def)
qed simp

text \<open>The executable starts a measurement exactly when all its options are known, \<open>-p\<close> has its
  argument and at least one test is asked for; then the three test switches are those of the
  options and the measurement runs.\<close>

lemma main_accepts:
  "(\<exists>v text. main lib macos args w = Inr (v, text)) =
     ((\<forall>a\<in>set args. known_option a) \<and> (\<exists>a\<in>set args. test_option a))
   \<and> (\<forall>v text. main lib macos args w = Inr (v, text) \<longrightarrow>
        RUNNING v \<and> (RTT v \<or> DOWNLOAD v \<or> UPLOAD v) \<and> hasError v = hasError w)"
proof -
  let ?s = "\<lparr>opt_rtt = False, opt_download = False, opt_upload = False,
               opt_debug = False, opt_tls = 0, target_port = ''80''\<rparr>"
  have n: "\<not> any_test ?s" by (simp add: any_test_def)
  show ?thesis
  proof (cases "read_options args ?s")
    case (Inl code)
    then have "\<not> (\<forall>a\<in>set args. known_option a)" using read_options_result [of args ?s] by auto
    then show ?thesis using Inl by (simp add: main_def)
  next
    case (Inr s)
    then have k: "\<forall>a\<in>set args. known_option a" "any_test s = (\<exists>a\<in>set args. test_option a)"
      using read_options_result [of args ?s] n by auto
    show ?thesis using Inr k by (auto simp: main_def any_test_def)
  qed
qed

text \<open>Asking for help ends the process with the code of a failure, whatever follows.\<close>

lemma help_exits_with_failure:
  "main lib macos ((CHR ''h'', a) # args) w = Inl EXIT_FAILURE"
  by (simp add: main_def show_usage_def)

text \<open>C40: In the mobile libraries, parameters that are no JSON do not end \<open>measurementStart\<close>:
  \<open>shutdown\<close> returns there, and the choice among no targets divides by zero. The same holds on
  every build for parameters without targets.\<close>

theorem no_targets_divide_by_zero:
  assumes "json_parse lib text = (j, err)" "array_items (obj_at (object_items j) ''wsTargets'') = []"
    and "err = '''' \<or> target lib \<noteq> Desktop" "\<not> exited w"
  shows "measurement_init lib cfg0 rnd text w = Inl DivisionByZero"
  using assms
  by (auto simp: measurement_init_def shutdown_def exited_def reset_globals_def pick_target_def Let_def
      split: main_pc.splits)

section \<open>The order of the test cases\<close>

text \<open>
  The main thread among the others, with the test cases it begins. The others never move the
  main thread, and take back neither an error nor the end of the measurement.
\<close>

definition begun :: "'c world \<Rightarrow> 'c world \<Rightarrow> int list" where
  "begun w v = (case (main_pc w, main_pc v) of (MainPause tc, MainThreads tc') \<Rightarrow> [tc'] | _ \<Rightarrow> [])"

definition main_kept :: "'c world \<Rightarrow> 'c world \<Rightarrow> bool" where
  "main_kept w v \<longleftrightarrow> main_pc v = main_pc w \<and> (hasError w \<longrightarrow> hasError v) \<and> (RUNNING v \<longrightarrow> RUNNING w)"

inductive main_run :: "'c lib \<Rightarrow> 'c world \<Rightarrow> int list \<Rightarrow> 'c world \<Rightarrow> bool" for lib where
  start: "main_run lib w [] w"
| own: "main_run lib w ts u \<Longrightarrow> main_run lib w (ts @ begun u (main_step lib raw creates u))
          (main_step lib raw creates u)"
| others: "main_run lib w ts u \<Longrightarrow> main_kept u v \<Longrightarrow> main_run lib w ts v"

text \<open>The first test case that may still begin.\<close>

fun next_test :: "main_pc \<Rightarrow> int" where
  "next_test (MainSelect tc) = tc"
| "next_test (MainPause tc) = tc"
| "next_test (MainThreads tc) = tc + 1"
| "next_test (MainPoll tc) = tc + 1"
| "next_test (MainTimer tc) = tc + 1"
| "next_test _ = 5"

definition main_inv :: "int \<Rightarrow> 'c world \<Rightarrow> bool" where
  "main_inv n w \<longleftrightarrow> 1 \<le> n \<and> n \<le> 5 \<and>
     (case main_pc w of MainSelect tc \<Rightarrow> tc = n | MainPause tc \<Rightarrow> tc = n \<and> n \<le> 4 | MainThreads tc \<Rightarrow> tc + 1 = n
        | MainPoll tc \<Rightarrow> tc + 1 = n | MainTimer tc \<Rightarrow> tc + 1 = n | _ \<Rightarrow> True)"

lemma begin_test_pc:
  assumes "1 \<le> tc" "tc \<le> 4"
  shows "main_pc (begin_test lib raw creates provider tc w) = MainThreads tc \<or>
    main_pc (begin_test lib raw creates provider tc w) = MainSelect (tc + 1)"
proof -
  have "tc = 1 \<or> tc = 2 \<or> tc = 3 \<or> tc = 4" using assms by linarith
  then show ?thesis
    by (auto simp: begin_test_def Let_def split: prod.splits)
qed

lemma delete_threads_frame [simp]:
  "main_pc (delete_threads tc w) = main_pc w" "hasError (delete_threads tc w) = hasError w"
  "RUNNING (delete_threads tc w) = RUNNING w"
  by (simp_all add: delete_threads_def split: option.splits)

lemma startTestCase_pc:
  assumes "1 \<le> tc" "tc \<le> 4"
  shows "main_pc (startTestCase lib raw creates tc w) = MainThreads tc \<or>
    main_pc (startTestCase lib raw creates tc w) = MainSelect (tc + 1)"
  unfolding startTestCase_def Let_def by (rule begin_test_pc [OF assms])

text \<open>What one step begins: at most the test case that has been selected.\<close>

lemma main_step_begun:
  assumes "main_inv n w"
  shows "\<exists>m. n \<le> m \<and> main_inv m (main_step lib raw creates w) \<and>
    (begun w (main_step lib raw creates w) = [] \<or>
     begun w (main_step lib raw creates w) = [n] \<and> m = n + 1 \<and> main_pc w = MainPause n \<and> n \<le> 4)"
proof (cases "main_pc w")
  case (MainSelect tc)
  then have tc: "tc = n" "1 \<le> n" "n \<le> 5" using assms by (simp_all add: main_inv_def)
  let ?v = "main_step lib raw creates w"
  consider "4 < n" | "n \<le> 4" "\<not> take_test n w" | "n \<le> 4" "take_test n w" by linarith
  then show ?thesis
  proof cases
    case 1
    then have "main_pc ?v = MainShutdown" using MainSelect tc by (simp add: main_step_def select_test_def)
    then show ?thesis using tc MainSelect by (intro exI [of _ n]) (simp add: main_inv_def begun_def)
  next
    case 2
    then have "main_pc ?v = MainSelect (n + 1)" using MainSelect tc by (simp add: main_step_def select_test_def)
    then show ?thesis using tc 2 MainSelect by (intro exI [of _ "n + 1"]) (simp add: main_inv_def begun_def)
  next
    case 3
    then have "main_pc ?v = MainPause n" using MainSelect tc by (simp add: main_step_def select_test_def)
    then show ?thesis using tc 3 MainSelect by (intro exI [of _ n]) (simp add: main_inv_def begun_def)
  qed
next
  case (MainPause tc)
  then have tc: "tc = n" "1 \<le> n" "n \<le> 4" using assms by (simp_all add: main_inv_def)
  let ?v = "main_step lib raw creates w"
  obtain u where "?v = startTestCase lib raw creates n u"
    using MainPause tc by (simp add: main_step_def start_test_def Let_def)
  then have "main_pc ?v = MainThreads n \<or> main_pc ?v = MainSelect (n + 1)"
    using startTestCase_pc [OF tc(2,3)] by simp
  then show ?thesis
    using tc MainPause by (intro exI [of _ "n + 1"]) (auto simp: main_inv_def begun_def)
next
  case MainShutdown
  then show ?thesis
    using assms by (intro exI [of _ n])
      (simp add: main_step_def final_shutdown_def shutdown_def main_inv_def begun_def Let_def)
qed (use assms in \<open>auto simp: main_step_def measurement_step_def main_inv_def begun_def\<close>)

text \<open>C15: The test cases of a measurement begin in the order IP, RTT, download, upload, each at most
  once, whatever the other threads do in between.\<close>

theorem tests_in_order:
  assumes "main_run lib w ts v" "main_pc w = MainSelect 1"
  shows "sorted_wrt (<) ts \<and> set ts \<subseteq> {1..4}"
proof -
  have "\<exists>n. main_inv n v \<and> sorted_wrt (<) ts \<and> set ts \<subseteq> {1..4} \<and> (\<forall>t\<in>set ts. t < n)"
    using assms
  proof (induction rule: main_run.induct)
    case (start w)
    then show ?case by (intro exI [of _ 1]) (simp add: main_inv_def)
  next
    case (own w ts u raw creates)
    then obtain n where n: "main_inv n u" "sorted_wrt (<) ts" "set ts \<subseteq> {1..4}" "\<forall>t\<in>set ts. t < n"
      by blast
    obtain m where m: "n \<le> m" "main_inv m (main_step lib raw creates u)"
      "begun u (main_step lib raw creates u) = [] \<or>
       begun u (main_step lib raw creates u) = [n] \<and> m = n + 1 \<and> n \<le> 4"
      using main_step_begun [OF n(1)] by blast
    have "1 \<le> n" using n(1) by (simp add: main_inv_def)
    then show ?case
      using n m by (intro exI [of _ m]) (auto simp: sorted_wrt_append)
  next
    case (others w ts u v)
    then show ?case by (auto simp: main_kept_def main_inv_def)
  qed
  then show ?thesis by blast
qed

text \<open>The main thread takes back no error.\<close>

lemma spawn_hasError:
  "spawn_downloads lib od creates i n (ps, w) = (ok, qs, v) \<Longrightarrow> hasError v = hasError w"
  "spawn_uploads lib ou creates i n (ps, w) = (ok, qs, v) \<Longrightarrow> hasError v = hasError w"
proof (induction n arbitrary: i ps w)
  case (Suc n)
  { case 1
    then show ?case using Suc.IH(1) by (fastforce simp: Let_def split: if_splits) }
  { case 2
    then show ?case using Suc.IH(2) by (fastforce simp: Let_def split: if_splits) }
qed auto

lemma tls_overhead_hasError: "tls_overhead_of lib provider w = (n, v) \<Longrightarrow> hasError v = hasError w"
  by (auto simp: tls_overhead_of_def Let_def split: if_splits)

lemma begin_test_hasError: "hasError (begin_test lib raw creates provider tc w) = hasError w"
  by (auto simp: begin_test_def Let_def dest!: spawn_hasError tls_overhead_hasError split: prod.splits)

lemma main_step_hasError: "hasError w \<Longrightarrow> hasError (main_step lib raw creates w)"
  by (auto simp: main_step_def select_test_def start_test_def startTestCase_def begin_test_hasError
      CMeasurement_new_def CTimer_new_def callbackToPlatform_def final_shutdown_def shutdown_def
      measurement_step_def Let_def split: main_pc.splits)

text \<open>Once the IP test is behind, an error ends the sequence: no further test case begins, unless it
  had already been selected.\<close>

definition pausing :: "'c world \<Rightarrow> bool" where
  "pausing w \<longleftrightarrow> (case main_pc w of MainPause _ \<Rightarrow> True | _ \<Rightarrow> False)"

lemma main_step_pausing:
  assumes "pausing (main_step lib raw creates w)" "\<not> pausing w"
  shows "\<exists>tc. main_pc w = MainSelect tc \<and> 1 \<le> tc \<and> tc \<le> 4 \<and> take_test tc w"
  using assms
  by (auto simp: pausing_def main_step_def select_test_def measurement_step_def final_shutdown_def
      shutdown_def Let_def split: main_pc.splits if_splits)

lemma no_test_after_error:
  assumes "main_run lib w ts v" "hasError w" "main_inv n w" "2 \<le> n" "\<not> pausing w"
  shows "ts = []"
proof -
  have "ts = [] \<and> hasError v \<and> (\<exists>m. 2 \<le> m \<and> main_inv m v) \<and> \<not> pausing v"
    using assms
  proof (induction rule: main_run.induct)
    case (own w ts u raw creates)
    then obtain m where m: "ts = []" "hasError u" "2 \<le> m" "main_inv m u" "\<not> pausing u" by blast
    have "\<not> take_test m u" using m(2,3) by (simp add: take_test_def)
    then have p: "\<not> pausing (main_step lib raw creates u)"
      using main_step_pausing [OF _ m(5)] m(4) by (fastforce simp: main_inv_def)
    obtain k where k: "m \<le> k" "main_inv k (main_step lib raw creates u)"
      "begun u (main_step lib raw creates u) = []"
      using main_step_begun [OF m(4), of lib raw creates] m(5) by (auto simp: pausing_def)
    moreover have "2 \<le> k" using k(1) m(3) by linarith
    ultimately show ?case using m(1) p main_step_hasError [OF m(2)] by auto
  next
    case (others w ts u v)
    then show ?case by (auto simp: main_kept_def main_inv_def pausing_def)
  qed blast
  then show ?thesis by blast
qed

section \<open>A speed test that cannot start\<close>

text \<open>C27: When the operating system refuses the \<open>k\<close>-th thread of a speed test, the test case is given
  up without an error: the main thread goes on with the next test case, the timer of the
  abandoned one keeps running, \<open>k + 1\<close> new objects stay behind to which no pointer leads,
  while the pointers of the test case are still those of earlier.\<close>

theorem creation_failure:
  assumes "tc = 3 \<or> tc = 4" "k < nat (test_instances lib w)" "\<forall>j<k. creates j" "\<not> creates k"
  shows "\<exists>u. abandoned tc k u (startTestCase lib raw creates tc w) \<and>
    timer_pc (timer u) = TimerOuter \<and> \<not> timer_fStop (timer u) \<and> next_ptr u = next_ptr w \<and>
    hasError u = hasError w \<and> RUNNING u = RUNNING w \<and> speed_heap_pcs tc u = speed_heap_pcs tc w"
proof -
  let ?w = "w\<lparr>syncing_threads := [], mTestCase := tc\<rparr>"
  let ?p = "if target lib = Desktop then ?w else callbackToPlatform lib ''started'' '''' 0 '''' ?w"
  let ?u = "CMeasurement_new lib ?p"
  have "test_instances lib ?p = test_instances lib w"
    by (simp add: test_instances_def callbackToPlatform_def)
  then have "conf_instances ?u = test_instances lib w"
    by (simp add: CMeasurement_new_def CTimer_new_def Let_def)
  then have "abandoned tc k ?u (startTestCase lib raw creates tc w)"
    using assms begin_test_abandoned [of tc k ?u creates] by (simp add: startTestCase_def Let_def)
  then show ?thesis
    by (intro exI [of _ ?u])
      (simp add: CMeasurement_new_def CTimer_new_def Let_def callbackToPlatform_def speed_heap_pcs_def)
qed

section \<open>Witnesses\<close>

definition raws0 :: raws where
  "raws0 = \<lparr>raw_ip = ip0, raw_ping = ping0, raw_download = download0, raw_upload = upload0\<rparr>"

lemma no_targets_divide_by_zero_witness:
  "measurement_init (lib0 Android) () 5 ''x'' world0 = Inl DivisionByZero"
proof -
  have "json_parse (lib0 Android) ''x'' = (JNull, '''')"
    "array_items (obj_at (object_items JNull) ''wsTargets'') = []" by simp_all
  from no_targets_divide_by_zero [OF this] show ?thesis by (simp add: exited_def)
qed

lemma creation_failure_witness:
  "main_pc (startTestCase (lib0 Android) raws0 (\<lambda>j. j < 2) 3 (world0\<lparr>conf_nTestCase := 3\<rparr>)) = MainSelect 4 \<and>
   map_option run_pc (dl_heap (startTestCase (lib0 Android) raws0 (\<lambda>j. j < 2) 3
      (world0\<lparr>conf_nTestCase := 3\<rparr>)) 2) = Some RunEntry"
proof -
  let ?w = "world0\<lparr>conf_nTestCase := 3\<rparr>"
  have n: "test_instances (lib0 Android) ?w = 4" by (simp add: test_instances_def i32_def)
  obtain u where "abandoned 3 2 u (startTestCase (lib0 Android) raws0 (\<lambda>j. j < 2) 3 ?w)" "next_ptr u = next_ptr ?w"
    using creation_failure [of 3 2 "lib0 Android" ?w "\<lambda>j. j < 2" raws0] by (auto simp: n)
  then show ?thesis by (auto simp: abandoned_def speed_heap_pcs_def)
qed

lemma tests_in_order_witness:
  "\<exists>v. main_run (lib0 Desktop) world0 [1] v \<and> sorted_wrt (<) [1::int]"
proof -
  let ?u = "main_step (lib0 Desktop) raws0 (\<lambda>_. True) world0"
  let ?v = "main_step (lib0 Desktop) raws0 (\<lambda>_. True) ?u"
  have u: "?u = world0\<lparr>main_pc := MainPause 1\<rparr>" by (simp add: main_step_def select_test_def take_test_def)
  have "main_pc ?v = MainThreads 1"
    unfolding u by (simp add: main_step_def start_test_def startTestCase_def begin_test_def Let_def)
  then have b: "begun world0 ?u = []" "begun ?u ?v = [1]" by (simp_all add: u begun_def)
  have "main_run (lib0 Desktop) world0 [] ?u"
    using main_run.own [OF main_run.start, of "lib0 Desktop" world0 raws0 "\<lambda>_. True"] b(1) by simp
  then have r: "main_run (lib0 Desktop) world0 [1] ?v"
    using main_run.own [of "lib0 Desktop" world0 "[]" ?u raws0 "\<lambda>_. True"] b(2) by simp
  from tests_in_order [OF r] show ?thesis using r by auto
qed

end
