(* ===== verification/Interplay.thy ===== *)
theory Interplay
  imports Client
begin

text \<open>
  Properties that span several components: the timer beside the real test threads, the end of
  all threads, the time stamps of the round trip times between \<open>ping.cpp\<close> and
  \<open>callback.cpp\<close>, a ping without a socket between \<open>ping.cpp\<close>, \<open>timer.cpp\<close>,
  \<open>measurement.cpp\<close> and the main thread, and an answer that fills the receive buffer of the
  upload or the IP thread.
\<close>

section \<open>The timer among the real threads\<close>

lemma worker_others: "worker_effect w v \<Longrightarrow> others_step w v"
  by (auto simp: others_step_def worker_effect_frame) (auto simp: worker_effect_def)

text \<open>
  One step of a test thread, on the object in its heap, or the end of the measurement through
  \<open>measurementStop\<close>.
\<close>

inductive threads_step :: "'c lib \<Rightarrow> 'c world \<Rightarrow> 'c world \<Rightarrow> bool" for lib where
  ip: "ip_heap w p = Some t \<Longrightarrow> ip_step lib e (t, w) = Inr (t', v) \<Longrightarrow>
        threads_step lib w (v\<lparr>ip_heap := (ip_heap v)(p \<mapsto> t')\<rparr>)"
| ping: "ping_heap w p = Some t \<Longrightarrow> ping_step lib pe (t, w) = Inr (t', v) \<Longrightarrow>
        threads_step lib w (v\<lparr>ping_heap := (ping_heap v)(p \<mapsto> t')\<rparr>)"
| download: "dl_heap w p = Some t \<Longrightarrow> download_step lib e (t, w) = Inr (t', v) \<Longrightarrow>
        threads_step lib w (v\<lparr>dl_heap := (dl_heap v)(p \<mapsto> t')\<rparr>)"
| upload: "ul_heap w p = Some t \<Longrightarrow> upload_step lib e (t, w) = Inr (t', v) \<Longrightarrow>
        threads_step lib w (v\<lparr>ul_heap := (ul_heap v)(p \<mapsto> t')\<rparr>)"
| stop: "threads_step lib w (measurementStop lib w)"

lemma others_heaps [simp]:
  "others_step w (v\<lparr>ip_heap := h1\<rparr>) = others_step w v"
  "others_step w (v\<lparr>ping_heap := h2\<rparr>) = others_step w v"
  "others_step w (v\<lparr>dl_heap := h3\<rparr>) = others_step w v"
  "others_step w (v\<lparr>ul_heap := h4\<rparr>) = others_step w v"
  by (simp_all add: others_step_def error_discipline_def error_flags_def)

lemma threads_step_others: "threads_step lib w v \<Longrightarrow> others_step w v"
proof (induction rule: threads_step.induct)
  case (stop w)
  then show ?case
    by (simp add: measurementStop_def shutdown_def others_step_def error_discipline_def
        error_flags_def Let_def)
qed (simp_all add: worker_others ipt.effect pg.effect dl.effect ul.effect)

inductive test_run :: "'c lib \<Rightarrow> 'c world \<Rightarrow> 'c world \<Rightarrow> bool" for lib where
  start: "test_run lib w w"
| timer: "test_run lib w u \<Longrightarrow> timer_step lib u = Inr v \<Longrightarrow> test_run lib w v"
| threads: "test_run lib w u \<Longrightarrow> threads_step lib u v \<Longrightarrow> test_run lib w v"

lemma test_run_exec: "test_run lib w v \<Longrightarrow> \<exists>n. timer_exec lib n w v"
proof (induction rule: test_run.induct)
  case (start w)
  then show ?case using timer_exec.start by blast
next
  case (timer w u v)
  then show ?case using timer_exec.timer by blast
next
  case (threads w u v)
  then show ?case using timer_exec.others threads_step_others by blast
qed

text \<open>C6: With the real test threads running beside the timer, in any interleaving and with any
  answers of the network, the messages of a test case follow the protocol, and an error flag is
  only ever raised together with \<open>hasError\<close>.\<close>

theorem test_case_protocol:
  assumes "test_run lib (CTimer_new instances delay w) v" "error_discipline w"
  shows "(\<exists>es q. trace v = trace w @ es \<and> proto_run es Idle = Some q) \<and> error_discipline v"
proof -
  obtain n where "timer_exec lib n (CTimer_new instances delay w) v"
    using test_run_exec [OF assms(1)] by blast
  from proto_exec [OF this proto_new(1)] show ?thesis using assms(2) by (auto simp: proto_new)
qed

text \<open>C17: Every kind of test thread returns within three steps of its own once \<open>RUNNING\<close> is
  cleared, whatever the others do in between.\<close>

theorem threads_stop:
  assumes "3 \<le> n"
  shows "(interleaved (ip_step lib) (stays_stopped run_pc) n s1 s1' \<and> \<not> RUNNING (snd s1) \<longrightarrow>
      returned (run_pc (fst s1')))
    \<and> (interleaved (ping_step lib) (stays_stopped run_pc) n s2 s2' \<and> \<not> RUNNING (snd s2) \<longrightarrow>
      returned (run_pc (fst s2')))
    \<and> (interleaved (download_step lib) (stays_stopped run_pc) n s3 s3' \<and> \<not> RUNNING (snd s3) \<longrightarrow>
      returned (run_pc (fst s3')))
    \<and> (interleaved (upload_step lib) (stays_stopped run_pc) n s4 s4' \<and> \<not> RUNNING (snd s4) \<longrightarrow>
      returned (run_pc (fst s4')))"
  using assms ipt.stops pg.stops dl.stops ul.stops by blast

section \<open>Round trip times and their time stamps\<close>

lemma ping_inv_no_first: "ping_inv t \<Longrightarrow> imap_at (results_timestamp (mPingResult t)) 1 = 0"
proof -
  assume i: "ping_inv t"
  have k: "keys (results_timestamp (mPingResult t)) = keys (results (mPingResult t))"
    using i by (simp add: ping_inv_def)
  have "1 \<notin> set (keys (results (mPingResult t)))"
    using i by (auto simp: ping_inv_def progressed_def keys_def split: run_pc.splits if_splits)
  then have "map_of (results_timestamp (mPingResult t)) 1 = None"
    using k by (simp add: keys_def map_of_eq_None_iff) (metis list.set_map)
  then show ?thesis by (simp add: imap_at_def)
qed

text \<open>C36: The time stamps reported with the round trip times are looked up from number 1 on, while
  a ping stores its replies from number 2 on: entry \<open>n\<close> carries the stamp of number \<open>n + 1\<close>, and
  the first entry of every report is stamped zero.\<close>

theorem first_round_trip_unstamped:
  assumes "rttUdpCallback lib cmd w = Inr v" "deref (ping_heap w) (pingThread w) = Inr (p, t)"
    and "ping_inv t"
  shows "\<exists>rtts. obj_at (jMeasurementResultsRttUdp v) ''rtts'' = JArr rtts
    \<and> list_all (\<lambda>n. json_at (rtts ! n) ''relative_time_ns_measurement_start'' =
         JStr (to_string_u64 (imap_at (results_timestamp (mPingResult t)) (int n + 1)))) [0..<length rtts]
    \<and> (rtts = [] \<or> json_at (hd rtts) ''relative_time_ns_measurement_start'' = JStr ''0'')"
proof -
  obtain m where m: "obj_at (jMeasurementResultsRttUdp v) ''rtts'' =
      JArr (rtt_list (results_timestamp (mPingResult t)) 1 m)"
    using assms(1,2)
    by (auto simp: rttUdpCallback_def rtt_object_def obj_at_def get_timestamp_def Let_def split: if_splits)
  let ?r = "rtt_list (results_timestamp (mPingResult t)) 1 m"
  have n: "json_at (?r ! n) ''relative_time_ns_measurement_start'' =
      JStr (to_string_u64 (imap_at (results_timestamp (mPingResult t)) (int n + 1)))" if "n < length m" for n
    using rtt_list_nth [OF that] by (simp add: json_at_def obj_at_def add.commute)
  have "?r = [] \<or> json_at (hd ?r) ''relative_time_ns_measurement_start'' = JStr ''0''"
  proof (cases m)
    case (Cons x xs)
    have "to_string_u64 0 = ''0''" by (simp add: to_string_u64_def dec_nat.simps digit_chr_def char_of_def bit_0)
    then show ?thesis using n [of 0] ping_inv_no_first [OF assms(3)] Cons by simp
  qed simp
  then show ?thesis using m n by (intro exI [of _ ?r]) (simp add: list_all_iff)
qed

section \<open>A ping without a socket\<close>

text \<open>
  The threads of an RTT test: the main thread, the timer and the one ping, whose socket is not
  created.
\<close>

definition no_socket :: "'c lib \<Rightarrow> ping_env \<Rightarrow> bool" where
  "no_socket lib e \<longleftrightarrow> ping_resolved e \<and>
     (if validateIp lib (ping_host e) = 6 then ping_socket6 e else ping_socket4 e) < 0"

inductive socketless_run :: "'c lib \<Rightarrow> 'c world \<Rightarrow> 'c world \<Rightarrow> bool" for lib w where
  start: "socketless_run lib w w"
| main: "socketless_run lib w u \<Longrightarrow> socketless_run lib w (main_step lib raw (\<lambda>_. True) u)"
| timer: "socketless_run lib w u \<Longrightarrow> timer_step lib u = Inr v \<Longrightarrow> socketless_run lib w v"
| ping: "socketless_run lib w u \<Longrightarrow> pingThread u = Some p \<Longrightarrow> ping_heap u p = Some t \<Longrightarrow> no_socket lib (pe_conn e) \<Longrightarrow>
    ping_step lib e (t, u) = Inr (t', v) \<Longrightarrow> socketless_run lib w (v\<lparr>ping_heap := (ping_heap v)(p \<mapsto> t')\<rparr>)"

text \<open>Everybody waits: the ping has not started yet, or it has returned without being ready.\<close>

definition hanging :: "'c world \<Rightarrow> 'c world \<Rightarrow> bool" where
  "hanging s u \<longleftrightarrow> out u = out s \<and> RUNNING u \<and> \<not> hasError u \<and> \<not> error_flags u \<and> \<not> PERFORMED_RTT u \<and>
     \<not> TIMER_STOPPED u \<and> \<not> TIMER_RUNNING u \<and> timer_pc (timer u) = TimerOuter \<and>
     \<not> timer_fStop (timer u) \<and> mInstances (timer u) = 1 \<and>
     (\<exists>p t. pingThread u = Some p \<and> ping_heap u p = Some t \<and>
        (main_pc u = MainThreads 2 \<and> run_pc t = RunEntry \<and> syncing_threads u = [] \<or>
         (main_pc u = MainThreads 2 \<or> main_pc u = MainPoll 2) \<and> run_pc t = RunReturned (- 1) \<and>
         (\<exists>i. syncing_threads u = [(i, 0)])))"

lemma hanging_timer: "hanging s u \<Longrightarrow> timer_step lib u = Inr u"
proof -
  assume h: "hanging s u"
  have "sync_counter u \<noteq> mInstances (timer u)" using h by (auto simp: hanging_def sync_counter_def)
  moreover have "loop_condition u" using h by (auto simp: hanging_def loop_condition_def)
  moreover have "set_pc TimerOuter u = u" using h by (auto simp: hanging_def set_pc_def)
  ultimately show ?thesis
    using h by (auto simp: hanging_def timer_step_def outer_step_def error_flags_def)
qed

lemma hanging_main:
  assumes "hanging s u"
  shows "hanging s (main_step lib raw creates u)"
    "main_pc u = MainPoll 2 \<Longrightarrow> main_step lib raw creates u = u"
    "main_pc u = MainThreads 2 \<Longrightarrow> main_step lib raw creates u =
      (if threads_ended 2 u then u\<lparr>main_pc := MainPoll 2\<rparr> else u)"
proof -
  show p: "main_pc u = MainPoll 2 \<Longrightarrow> main_step lib raw creates u = u"
    using assms by (simp add: hanging_def main_step_def measurement_step_def performed_def)
  show t: "main_pc u = MainThreads 2 \<Longrightarrow> main_step lib raw creates u =
      (if threads_ended 2 u then u\<lparr>main_pc := MainPoll 2\<rparr> else u)"
    by (simp add: main_step_def measurement_step_def)
  have "hanging s (u\<lparr>main_pc := MainPoll 2\<rparr>)" if "threads_ended 2 u"
    using assms that by (auto simp: hanging_def threads_ended_def all_returned_def returned_def error_flags_def)
  moreover have "main_pc u = MainThreads 2 \<or> main_pc u = MainPoll 2" using assms by (auto simp: hanging_def)
  ultimately show "hanging s (main_step lib raw creates u)" using assms p t by (auto split: if_splits)
qed

lemma hanging_ping:
  assumes "hanging s u" "pingThread u = Some p" "ping_heap u p = Some t" "no_socket lib (pe_conn e)"
    and "ping_step lib e (t, u) = Inr (t', v)"
  shows "hanging s (v\<lparr>ping_heap := (ping_heap v)(p \<mapsto> t')\<rparr>)"
proof (cases "run_pc t = RunEntry")
  case True
  then have s: "ping_setup lib (pe_conn e) t u = (t', v)" "syncing_threads u = []" "main_pc u = MainThreads 2"
    using assms(1-3,5) by (auto simp: hanging_def ping_step_def)
  note f = worker_effect_frame [OF ping_setup_effect(1) [OF s(1)]]
  have "erase_worker v = erase_worker u" using ping_setup_effect(1) [OF s(1)] by (simp add: worker_effect_def)
  from arg_cong [OF this, of pingThread] have p: "pingThread v = Some p" using assms(2) by (simp add: erase_worker_def)
  have "run_pc t' = RunReturned (- 1)" "\<exists>i. syncing_threads v = [(i, 0)]" "hasError v = hasError u"
    "error_flags v = error_flags u" "TIMER_STOPPED v = TIMER_STOPPED u" "RUNNING v = RUNNING u"
    using s assms(4)
    by (auto simp: ping_setup_def no_socket_def get_timestamp_def sync_mark_def error_flags_def Let_def split: if_splits)
  then show ?thesis using assms(1) f p s(3) by (auto simp: hanging_def error_flags_def)
next
  case False
  then have "run_pc t = RunReturned (- 1)" using assms(1-3) by (auto simp: hanging_def)
  then have "t' = t" "v = u" using assms(5) by (simp_all add: ping_step_def)
  then show ?thesis using assms(1,3) by (auto simp: hanging_def error_flags_def)
qed

lemma rtt_test_hangs_first:
  assumes "main_pc w = MainPause 2" "RUNNING w" "\<not> hasError w" "\<not> error_flags w" "\<not> PERFORMED_RTT w"
  shows "hanging (main_step lib raw (\<lambda>_. True) w) (main_step lib raw (\<lambda>_. True) w)"
  using assms
  by (simp add: hanging_def main_step_def start_test_def startTestCase_def begin_test_def CMeasurement_new_def
      CTimer_new_def test_instances_def callbackToPlatform_def Ping_new_def error_flags_def Let_def)

text \<open>C34: An RTT test whose ping cannot create its socket never ends: from its start on, in every run of
  the main thread, the timer and the ping, the ping has not started or has returned \<open>-1\<close>, the
  timer waits for a stream that is never ready and does not move, the main thread waits for the
  ping and then, for ever, for a result; no error is raised and nothing is reported.\<close>

theorem ping_socket_failure_hangs:
  assumes "main_pc w = MainPause 2" "RUNNING w" "\<not> hasError w" "\<not> error_flags w" "\<not> PERFORMED_RTT w"
    and "s = main_step lib raw (\<lambda>_. True) w" "socketless_run lib s v"
  shows "timer_step lib v = Inr v \<and> \<not> hasError v \<and> \<not> PERFORMED_RTT v \<and> RUNNING v \<and> out v = out s \<and>
    (\<exists>p t. pingThread v = Some p \<and> ping_heap v p = Some t \<and>
       (run_pc t = RunEntry \<and> main_pc v = MainThreads 2 \<or>
        run_pc t = RunReturned (- 1) \<and>
          (main_pc v = MainThreads 2 \<and> main_step lib raw' creates v = v\<lparr>main_pc := MainPoll 2\<rparr> \<or>
           main_pc v = MainPoll 2 \<and> main_step lib raw' creates v = v)))"
proof -
  have h: "hanging s v"
    using assms(7)
  proof (induction rule: socketless_run.induct)
    case start
    show ?case using rtt_test_hangs_first [OF assms(1-5)] assms(6) by simp
  next
    case (main u raw)
    then show ?case using hanging_main(1) by blast
  next
    case (timer u v)
    then show ?case using hanging_timer by fastforce
  next
    case (ping u p t e t' v)
    then show ?case using hanging_ping by blast
  qed
  obtain p t where p: "pingThread v = Some p" "ping_heap v p = Some t"
    "main_pc v = MainThreads 2 \<and> run_pc t = RunEntry \<or>
     (main_pc v = MainThreads 2 \<or> main_pc v = MainPoll 2) \<and> run_pc t = RunReturned (- 1)"
    using h by (auto simp: hanging_def)
  note m = hanging_main(2,3) [OF h, of lib raw' creates]
  have "threads_ended 2 v" if "run_pc t = RunReturned (- 1)"
    using that p(1,2) by (simp add: threads_ended_def all_returned_def returned_def)
  then have "run_pc t = RunEntry \<and> main_pc v = MainThreads 2 \<or> run_pc t = RunReturned (- 1) \<and>
      (main_pc v = MainThreads 2 \<and> main_step lib raw' creates v = v\<lparr>main_pc := MainPoll 2\<rparr> \<or>
       main_pc v = MainPoll 2 \<and> main_step lib raw' creates v = v)"
    using p(3)
  proof (elim disjE conjE)
    assume a: "run_pc t = RunReturned (- 1)" "main_pc v = MainThreads 2"
    then show ?thesis using m(2) \<open>run_pc t = RunReturned (- 1) \<Longrightarrow> threads_ended 2 v\<close> by simp
  qed (use m(1) in simp_all)
  moreover have "\<not> hasError v \<and> \<not> PERFORMED_RTT v \<and> RUNNING v \<and> out v = out s"
    using h by (simp add: hanging_def)
  ultimately show ?thesis using hanging_timer [OF h] p(1,2) by blast
qed

section \<open>A receive that fills the buffer\<close>

text \<open>An answer of as many bytes as the buffer has, without a NUL.\<close>

definition full_buffer :: "'c lib \<Rightarrow> rx_env \<Rightarrow> bool" where
  "full_buffer lib rx \<longleftrightarrow> int (length (received rx)) = MAX_PACKET_SIZE lib \<and> CHR 0x00 \<notin> set (received rx)"

lemma full_not_terminated:
  assumes "int (length (received rx)) \<le> MAX_PACKET_SIZE lib"
  shows "full_buffer lib rx = (\<not> terminated lib rx)"
  using assms by (auto simp: full_buffer_def terminated_def)

lemma full_answer: "0 < MAX_PACKET_SIZE lib \<Longrightarrow> full_buffer lib rx \<Longrightarrow> rx_ret rx \<noteq> - 1 \<and> rx_ret rx \<noteq> 0"
  by (auto simp: full_buffer_def received_def)

lemma upload_receive_overread:
  assumes "0 < MAX_PACKET_SIZE lib" "int (length (received rx)) \<le> MAX_PACKET_SIZE lib"
  shows "upload_receive lib rx u w = Inl BufferOverrun \<longleftrightarrow> full_buffer lib rx"
proof (cases "terminated lib rx")
  case True
  then show ?thesis
    using full_not_terminated [OF assms(2)]
    by (cases "rx_ret rx = - 1 \<or> rx_ret rx = 0")
      (auto simp: upload_receive_def c_string_def Let_def dest: upload_lines_faults split: prod.splits option.splits)
next
  case False
  then show ?thesis
    using full_not_terminated [OF assms(2)] full_answer [OF assms(1)]
    by (simp add: upload_receive_def c_string_def Let_def)
qed

lemma ip_receive_overread:
  assumes "0 < MAX_PACKET_SIZE lib" "int (length (received rx)) \<le> MAX_PACKET_SIZE lib"
  shows "ip_receive lib rx t w = Inl f \<longleftrightarrow> f = BufferOverrun \<and> full_buffer lib rx"
  using full_not_terminated [OF assms(2)] full_answer [OF assms(1), of rx]
  by (cases "terminated lib rx") (auto simp: ip_receive_def c_string_def Let_def)

text \<open>C9: A step of the upload thread reads beyond the end of its receive buffer exactly when it has just
  received an answer that fills all \<open>MAX_PACKET_SIZE\<close> bytes, none of them NUL; and this is the only way in
  which a step of the IP thread can go wrong, from its set-up to its return.\<close>

theorem full_buffer_overread:
  assumes "0 < MAX_PACKET_SIZE lib" "int (length (received (te_rx e))) \<le> MAX_PACKET_SIZE lib"
  shows "(upload_step lib e (u, w) = Inl BufferOverrun \<longleftrightarrow>
      run_pc u = RunReceive \<and> int (length (received (te_rx e))) = MAX_PACKET_SIZE lib \<and>
      CHR 0x00 \<notin> set (received (te_rx e)))
    \<and> (ip_step lib e (t, w) = Inl f \<longleftrightarrow>
      f = BufferOverrun \<and> run_pc t = RunReceive \<and>
      int (length (received (te_rx e))) = MAX_PACKET_SIZE lib \<and> CHR 0x00 \<notin> set (received (te_rx e)))"
proof
  show "upload_step lib e (u, w) = Inl BufferOverrun \<longleftrightarrow>
      run_pc u = RunReceive \<and> int (length (received (te_rx e))) = MAX_PACKET_SIZE lib \<and>
      CHR 0x00 \<notin> set (received (te_rx e))"
    using upload_receive_overread [OF assms, of u w]
    by (cases "run_pc u") (simp_all add: upload_step_def full_buffer_def)
  show "ip_step lib e (t, w) = Inl f \<longleftrightarrow> f = BufferOverrun \<and> run_pc t = RunReceive \<and>
      int (length (received (te_rx e))) = MAX_PACKET_SIZE lib \<and> CHR 0x00 \<notin> set (received (te_rx e))"
    using ip_receive_overread [OF assms, of t w f]
    by (cases "run_pc t") (simp_all add: ip_step_def full_buffer_def)
qed

section \<open>Witnesses\<close>

lemma test_case_protocol_witness:
  "\<exists>v. test_run (lib0 Android) (CTimer_new 1 0 world0) v \<and> \<not> RUNNING v \<and> error_discipline v"
proof -
  let ?w = "CTimer_new 1 0 world0"
  let ?v = "measurementStop (lib0 Android) ?w"
  have r: "test_run (lib0 Android) ?w ?v"
    using test_run.threads [OF test_run.start threads_step.stop] .
  have "error_discipline world0" by (simp add: error_discipline_def error_flags_def)
  from test_case_protocol [OF r this] show ?thesis
    using r by (intro exI [of _ ?v]) (simp add: measurementStop_def shutdown_def Let_def)
qed

lemma threads_stop_witness:
  "\<exists>s'. interleaved (download_step (lib0 Ios)) (stays_stopped run_pc) 3
      (download0\<lparr>run_pc := RunGuard\<rparr>, world0\<lparr>RUNNING := False\<rparr>) s' \<and> returned (run_pc (fst s'))"
proof -
  let ?s = "(download0\<lparr>run_pc := RunGuard\<rparr>, world0\<lparr>RUNNING := False\<rparr>)"
  let ?r = "(download0\<lparr>run_pc := RunReturned 0\<rparr>, world0\<lparr>RUNNING := False\<rparr>)"
  have s: "\<And>e. download_step (lib0 Ios) e ?s = Inr ?r" "\<And>e. download_step (lib0 Ios) e ?r = Inr ?r"
    by (simp_all add: download_step_def download_guard_def)
  note st = interleaved.own [of "download_step (lib0 Ios)" "stays_stopped run_pc"]
  have "interleaved (download_step (lib0 Ios)) (stays_stopped run_pc) (Suc (Suc (Suc 0))) ?s ?r"
    using st [OF st [OF st [OF interleaved.start s(1)] s(2)] s(2)] .
  then have i: "interleaved (download_step (lib0 Ios)) (stays_stopped run_pc) 3 ?s ?r"
    by (simp add: numeral_3_eq_3)
  moreover have "\<not> RUNNING (snd ?s)" by simp
  ultimately have "returned (run_pc (fst ?r))" using threads_stop [of 3 "lib0 Ios"] by blast
  then show ?thesis using i by blast
qed

lemma first_round_trip_unstamped_witness:
  "\<exists>v rtts. rttUdpCallback (lib0 Ios) ''report'' (world0\<lparr>pingThread := Some 3, ping_heap := [3 \<mapsto>
        pinging\<lparr>ping_i := 3, nReplies := 1, mPingResult := data0\<lparr>results := [(2, 900)],
          results_timestamp := [(2, 77)]\<rparr>\<rparr>]\<rparr>) = Inr v
     \<and> obj_at (jMeasurementResultsRttUdp v) ''rtts'' = JArr rtts \<and> rtts \<noteq> []
     \<and> json_at (hd rtts) ''relative_time_ns_measurement_start'' = JStr ''0''"
proof -
  let ?t = "pinging\<lparr>ping_i := 3, nReplies := 1, mPingResult := data0\<lparr>results := [(2, 900)],
          results_timestamp := [(2, 77)]\<rparr>\<rparr>"
  let ?w = "world0\<lparr>pingThread := Some 3, ping_heap := [3 \<mapsto> ?t]\<rparr>"
  have d: "deref (ping_heap ?w) (pingThread ?w) = Inr (3, ?t)" by (simp add: deref_def)
  have i: "ping_inv ?t"
    by (simp add: ping_inv_def progressed_def keys_def imap_inv_def pinging_def sample_threads)
  obtain v where v: "rttUdpCallback (lib0 Ios) ''report'' ?w = Inr v"
    and n: "\<forall>rtts. obj_at (jMeasurementResultsRttUdp v) ''rtts'' = JArr rtts \<longrightarrow> rtts \<noteq> []"
    by (simp add: rttUdpCallback_def deref_def get_timestamp_def Let_def ping_data_def new_data_def
        rtt_object_def obj_at_def imap_add_def data0_def)
  from first_round_trip_unstamped [OF v d i] show ?thesis using v n by blast
qed

definition rtt_selected :: "unit world" where
  "rtt_selected = world0\<lparr>main_pc := MainPause 2\<rparr>"

definition unsocketed :: ping_step_env where
  "unsocketed = \<lparr>pe_conn = \<lparr>ping_pid = 5, ping_socktype = Some 2, ping_host = ''h'', ping_socket6 = - 1, ping_socket4 = - 1\<rparr>,
     pe_echo = \<lparr>echo_ret = 0, echo_time1 = 0, echo_time2 = 0, echo_time3 = 0, echo_sent = '''', echo_got = ''''\<rparr>\<rparr>"

text \<open>The ping has failed and the main thread polls.\<close>

lemma ping_socket_failure_hangs_witness:
  "\<exists>v. socketless_run (lib0 Ios) (main_step (lib0 Ios) raws0 (\<lambda>_. True) rtt_selected) v \<and> main_pc v = MainPoll 2
     \<and> main_step (lib0 Ios) raws0 (\<lambda>_. True) v = v \<and> timer_step (lib0 Ios) v = Inr v"
proof -
  let ?s = "main_step (lib0 Ios) raws0 (\<lambda>_. True) rtt_selected"
  have w: "main_pc rtt_selected = MainPause 2" "RUNNING rtt_selected" "\<not> hasError rtt_selected"
    "\<not> error_flags rtt_selected" "\<not> PERFORMED_RTT rtt_selected"
    by (simp_all add: rtt_selected_def error_flags_def)
  note hangs = ping_socket_failure_hangs [OF w HOL.refl, of "lib0 Ios" raws0 _ raws0 "\<lambda>_. True"]
  have "main_pc ?s = MainThreads 2"
    by (simp add: main_step_def rtt_selected_def start_test_def startTestCase_def begin_test_def Let_def)
  have e: "run_pc t = RunEntry" if "pingThread ?s = Some p" "ping_heap ?s p = Some t" for p t
    using that by (auto simp: main_step_def rtt_selected_def start_test_def startTestCase_def begin_test_def
        Ping_new_def Let_def)
  obtain p t where p: "pingThread ?s = Some p" "ping_heap ?s p = Some t" using hangs [OF socketless_run.start] by blast
  have n: "no_socket (lib0 Ios) (pe_conn unsocketed)" by (simp add: no_socket_def ping_resolved_def unsocketed_def)
  obtain t' u where st: "ping_step (lib0 Ios) unsocketed (t, ?s) = Inr (t', u)"
    using e [OF p] by (cases "ping_setup (lib0 Ios) (pe_conn unsocketed) t ?s") (simp add: ping_step_def)
  let ?u = "u\<lparr>ping_heap := (ping_heap u)(p \<mapsto> t')\<rparr>"
  have r: "socketless_run (lib0 Ios) ?s ?u" by (rule socketless_run.ping [OF socketless_run.start p n st])
  have ru: "run_pc t' = RunReturned (- 1)"
    using st e [OF p] by (auto simp: ping_step_def ping_setup_def unsocketed_def ping_resolved_def get_timestamp_def
        sync_mark_def Let_def)
  have "erase_worker u = erase_worker ?s" using pg.effect [OF st] by (simp add: worker_effect_def)
  from arg_cong [OF this, of pingThread] have pu: "pingThread ?u = Some p" using p(1) by (simp add: erase_worker_def)
  let ?v = "main_step (lib0 Ios) raws0 (\<lambda>_. True) ?u"
  have v: "main_pc ?v = MainPoll 2" using hangs [OF r] pu ru by auto
  have rv: "socketless_run (lib0 Ios) ?s ?v" by (rule socketless_run.main [OF r])
  have "main_step (lib0 Ios) raws0 (\<lambda>_. True) ?v = ?v \<and> timer_step (lib0 Ios) ?v = Inr ?v"
    using hangs [OF rv] v main_pc.distinct by metis
  then show ?thesis using rv v by blast
qed

definition full_answer_env :: thread_env where
  "full_answer_env = \<lparr>te_conn = \<lparr>env_pid = 5, env_socktype = Some 1, env_host = ''h'', env_socket6 = 1,
     env_socket4 = 1, env_response = 0, env_http_duration = 0\<rparr>,
     te_rx = \<lparr>rx_ret = 4, rx_tls_records = 0, rx_buffer = ''1,0,''\<rparr>\<rparr>"

lemma full_buffer_overread_witness:
  "upload_step ((lib0 Ios)\<lparr>MAX_PACKET_SIZE := 4\<rparr>) full_answer_env
     (upload0\<lparr>run_pc := RunReceive\<rparr>, world0) = Inl BufferOverrun"
  using full_buffer_overread [of "(lib0 Ios)\<lparr>MAX_PACKET_SIZE := 4\<rparr>" full_answer_env
      "upload0\<lparr>run_pc := RunReceive\<rparr>" world0]
  by (simp add: received_def full_answer_env_def)

end
