(* ===== verification/Connector.thy ===== *)
theory Connector
  imports Interplay "HOL-Library.Multiset"
begin

text \<open>
  The Android library's boundary (\<open>src/src/android_connector.cpp\<close>, \<open>android_connector.h\<close>):
  one connector object keeps references to the Java objects of the app, starts the measurement
  from the app's settings, and turns the messages of the callback object into calls of Java
  methods.

  The Java virtual machine is outside the program. What it answers is an argument
  (\<open>getenv_result\<close>) or a supply read in order (\<open>refs\<close>, like the clock of \<open>World\<close>), and what
  the connector asks of it is recorded in \<open>jni\<close>. An object that the connector creates and only
  hands over is described by the calls made on it (\<open>JNew\<close>); local references are not modelled,
  and floating-point numbers are real numbers. A call through a null reference is undefined
  and is the fault \<open>DanglingPointer\<close>.
\<close>

section \<open>State\<close>

type_synonym jref = nat

datatype getenv_result = JniOk | JniDetached | JniOther

text \<open>Whether the thread is attached, and whether attaching it would work.\<close>

record jvm_answer =
  ja_getenv :: getenv_result
  ja_attach :: bool

text \<open>
  The arguments of Java methods: strings, boxed numbers, primitive numbers, a null reference, and
  new objects with the calls made on them. A call has the name, the descriptor and the arguments
  that the source gives.
\<close>

datatype jarg =
    JString string
  | JBoxedLong int
  | JBoxedInt int
  | JBoxedFloat real
  | JLong int
  | JNullRef
  | JNew string "jcall list"
and jcall = JCall string string "jarg list"

datatype jni_event =
    NewRef jref
  | DeleteRef jref
  | CallVoid jref jcall
  | SetFloat jref string real
  | SetLong jref string int

record task_settings =
  rttCount :: int
  downloadStreams :: int
  uploadStreams :: int
  speedServerPort :: int
  speedServerPortRtt :: int
  performDownload :: bool
  performUpload :: bool
  performRtt :: bool
  isEncrypted :: bool

text \<open>The Java object with the settings: a null array of addresses is possible.\<close>

record java_task =
  speedServerAddrs :: "string list option"
  java_settings :: task_settings

record connector =
  javaVM :: bool
  jniHelperClass :: "jref option"
  jniCaller :: "jref option"
  jniExceptionClass :: "jref option"
  baseMeasurementState :: "jref option"
  downloadMeasurementState :: "jref option"
  uploadMeasurementState :: "jref option"
  pingMeasurementState :: "jref option"
  speedMeasurementResultClazz :: "jref option"
  resultUdpClazz :: "jref option"
  resultBandwidthClazz :: "jref option"
  timeClazz :: "jref option"
  measurementServerUrl :: "string list"
  speedTaskDesc :: task_settings
  refs :: "nat \<Rightarrow> jref option"
  refs_pos :: nat
  jni :: "jni_event list"

text \<open>The one instance is a static object: every member starts as zero.\<close>

definition getInstance :: "(nat \<Rightarrow> jref option) \<Rightarrow> connector" where
  "getInstance supply =
     \<lparr>javaVM = False, jniHelperClass = None, jniCaller = None, jniExceptionClass = None,
      baseMeasurementState = None, downloadMeasurementState = None,
      uploadMeasurementState = None, pingMeasurementState = None,
      speedMeasurementResultClazz = None, resultUdpClazz = None, resultBandwidthClazz = None,
      timeClazz = None, measurementServerUrl = [],
      speedTaskDesc = \<lparr>rttCount = 0, downloadStreams = 0, uploadStreams = 0,
        speedServerPort = 0, speedServerPortRtt = 0, performDownload = False,
        performUpload = False, performRtt = False, isEncrypted = False\<rparr>,
      refs = supply, refs_pos = 0, jni = []\<rparr>"

definition emit :: "jni_event list \<Rightarrow> connector \<Rightarrow> connector" where
  "emit es c = c\<lparr>jni := jni c @ es\<rparr>"

text \<open>\<open>NewGlobalRef\<close> answers null for a null argument and when memory runs out.\<close>

definition NewGlobalRef :: "connector \<Rightarrow> jref option \<times> connector" where
  "NewGlobalRef c =
     (let r = refs c (refs_pos c)
      in (r, emit (case r of None \<Rightarrow> [] | Some x \<Rightarrow> [NewRef x]) (c\<lparr>refs_pos := Suc (refs_pos c)\<rparr>)))"

definition need :: "jref option \<Rightarrow> fault + jref" where
  "need r = (case r of None \<Rightarrow> Inl DanglingPointer | Some x \<Rightarrow> Inr x)"

text \<open>\<open>getJniEnv\<close>: whether there is an environment for this thread.\<close>

definition getJniEnv :: "connector \<Rightarrow> jvm_answer \<Rightarrow> bool" where
  "getJniEnv c e \<longleftrightarrow> javaVM c \<and>
     (case ja_getenv e of JniOk \<Rightarrow> True | JniDetached \<Rightarrow> ja_attach e | JniOther \<Rightarrow> False)"

section \<open>Loading, sharing, releasing\<close>

text \<open>
  \<open>jniLoad\<close>; \<open>found\<close> says which classes exist. A class that is not found leaves an exception
  pending, behind which the next call is undefined. The methods of the helper class are looked
  up through the new reference.
\<close>

definition load_class :: "(string \<Rightarrow> bool) \<Rightarrow> string \<Rightarrow> connector \<Rightarrow> fault + jref option \<times> connector" where
  "load_class found name c = (if found name then Inr (NewGlobalRef c) else Inl DanglingPointer)"

definition jniLoad ::
  "getenv_result \<Rightarrow> (string \<Rightarrow> bool) \<Rightarrow> connector \<Rightarrow> fault + bool \<times> connector" where
  "jniLoad ans found c =
     (if ans \<noteq> JniOk then Inr (False, c)
      else
        res_bind (load_class found ''com/zafaco/moduleSpeed/jni/JniSpeedMeasurementClient'' c) (\<lambda>(r1, c1).
        res_bind (need r1) (\<lambda>_.
        res_bind (load_class found ''com/zafaco/moduleSpeed/jni/exception/AndroidJniCppException''
                    (c1\<lparr>jniHelperClass := r1\<rparr>)) (\<lambda>(r2, c2).
        if \<not> found ''com/zafaco/moduleSpeed/models/speed/SpeedMeasurementState$SpeedPhaseState'' \<or>
           \<not> found ''com/zafaco/moduleSpeed/models/speed/SpeedMeasurementState$PingPhaseState'' \<or>
           \<not> found ''com/zafaco/moduleSpeed/models/speed/SpeedMeasurementState''
        then Inl DanglingPointer
        else
        res_bind (load_class found ''com/zafaco/moduleSpeed/models/speed/JniSpeedMeasurementResult''
                    (c2\<lparr>jniExceptionClass := r2\<rparr>)) (\<lambda>(r3, c3).
        res_bind (load_class found ''com/zafaco/moduleSpeed/models/rtt/RttUdpResult''
                    (c3\<lparr>speedMeasurementResultClazz := r3\<rparr>)) (\<lambda>(r4, c4).
        res_bind (load_class found ''com/zafaco/moduleSpeed/models/speed/BandwidthResult''
                    (c4\<lparr>resultUdpClazz := r4\<rparr>)) (\<lambda>(r5, c5).
        res_map (\<lambda>(r6, c6). (True, c6\<lparr>timeClazz := r6, javaVM := True\<rparr>))
          (load_class found ''com/zafaco/moduleSpeed/models/time/TimeInfo''
                    (c5\<lparr>resultBandwidthClazz := r5\<rparr>)))))))))"

definition registerSharedObject :: "connector \<Rightarrow> connector" where
  "registerSharedObject c =
     (let (r1, c1) = NewGlobalRef c;
          (r2, c2) = NewGlobalRef (c1\<lparr>jniCaller := r1\<rparr>);
          (r3, c3) = NewGlobalRef (c2\<lparr>baseMeasurementState := r2\<rparr>);
          (r4, c4) = NewGlobalRef (c3\<lparr>downloadMeasurementState := r3\<rparr>);
          (r5, c5) = NewGlobalRef (c4\<lparr>uploadMeasurementState := r4\<rparr>)
      in c5\<lparr>pingMeasurementState := r5\<rparr>)"

definition setSpeedSettings :: "java_task \<Rightarrow> connector \<Rightarrow> connector" where
  "setSpeedSettings t c =
     c\<lparr>measurementServerUrl := measurementServerUrl c @
         (case speedServerAddrs t of None \<Rightarrow> [] | Some urls \<Rightarrow> urls),
       speedTaskDesc := java_settings t\<rparr>"

text \<open>One \<open>if\<close> of \<open>unregisterSharedObject\<close>.\<close>

definition release :: "jref option \<Rightarrow> jni_event list" where
  "release r = (case r of None \<Rightarrow> [] | Some x \<Rightarrow> [DeleteRef x])"

definition unregisterSharedObject :: "jvm_answer \<Rightarrow> connector \<Rightarrow> connector" where
  "unregisterSharedObject e c =
     (if \<not> getJniEnv c e then c
      else
        let es = release (jniExceptionClass c) @ release (jniHelperClass c) @
              release (speedMeasurementResultClazz c) @ release (resultUdpClazz c) @
              release (resultBandwidthClazz c) @ release (timeClazz c) @
              release (baseMeasurementState c) @ release (downloadMeasurementState c) @
              release (uploadMeasurementState c) @ release (pingMeasurementState c) @
              release (jniCaller c)
        in emit es
             (c\<lparr>jniExceptionClass := None, jniHelperClass := None,
                speedMeasurementResultClazz := None, resultUdpClazz := None,
                resultBandwidthClazz := None, timeClazz := None, baseMeasurementState := None,
                downloadMeasurementState := None, uploadMeasurementState := None,
                pingMeasurementState := None, jniCaller := None\<rparr>))"

section \<open>Numbers for Java\<close>

text \<open>\<open>static_cast<int>\<close> of a floating-point number, as json11's \<open>int_value\<close> does it.\<close>

definition truncate :: "real \<Rightarrow> int" where
  "truncate x = (if 0 \<le> x then \<lfloor>x\<rfloor> else - \<lfloor>- x\<rfloor>)"

definition int_value :: "json \<Rightarrow> fault + int" where
  "int_value j =
     (let n = truncate (number_value j)
      in if n < - 2147483648 \<or> 2147483648 \<le> n then Inl SignedOverflow else Inr n)"

definition is_string :: "json \<Rightarrow> bool" where
  "is_string j \<longleftrightarrow> (case j of JStr _ \<Rightarrow> True | _ \<Rightarrow> False)"

definition is_number :: "json \<Rightarrow> bool" where
  "is_number j \<longleftrightarrow> (case j of JNum _ \<Rightarrow> True | _ \<Rightarrow> False)"

definition is_array :: "json \<Rightarrow> bool" where
  "is_array j \<longleftrightarrow> (case j of JArr _ \<Rightarrow> True | _ \<Rightarrow> False)"

definition is_object :: "json \<Rightarrow> bool" where
  "is_object j \<longleftrightarrow> (case j of JObj _ \<Rightarrow> True | _ \<Rightarrow> False)"

text \<open>Statements in sequence: the first exception ends it.\<close>

fun in_order :: "(fault + 'a) list \<Rightarrow> fault + 'a list" where
  "in_order [] = Inr []"
| "in_order (r # rs) = res_bind r (\<lambda>x. res_map (\<lambda>xs. x # xs) (in_order rs))"

text \<open>
  A setter with a number from a string of the message; \<open>stol\<close> reads a 64-bit \<open>long\<close>. The call
  keeps the descriptor and the argument as the code passes them, a reference to a box where the
  descriptor promises a primitive number; JNI leaves the effect open, so it is not a failure here.
\<close>

definition set_long :: "string \<Rightarrow> string \<Rightarrow> json \<Rightarrow> fault + jcall" where
  "set_long setter k j =
     res_map (\<lambda>v. JCall setter ''(J)V'' [JBoxedLong v]) (stoll (string_value (json_at j k)))"

definition set_int :: "string \<Rightarrow> string \<Rightarrow> json \<Rightarrow> fault + jcall" where
  "set_int setter k j =
     res_map (\<lambda>v. JCall setter ''(I)V'' [JBoxedInt (i32 v)]) (stoll (string_value (json_at j k)))"

definition set_float :: "string \<Rightarrow> string \<Rightarrow> json \<Rightarrow> fault + jcall" where
  "set_float setter k j = Inr (JCall setter ''(F)V'' [JBoxedFloat (number_value (json_at j k))])"

definition set_text :: "string \<Rightarrow> string \<Rightarrow> json \<Rightarrow> fault + jcall" where
  "set_text setter k j =
     Inr (JCall setter ''(Ljava/lang/String;)V'' [JString (string_value (json_at j k))])"

definition setBandwidthResult :: "json \<Rightarrow> fault + jcall list" where
  "setBandwidthResult j =
     in_order
       [set_long ''setBytes'' ''bytes'' j,
        set_long ''setBytesDistinct'' ''bytes_distinct'' j,
        set_long ''setBytesTotal'' ''bytes_total'' j,
        set_long ''setBytesSlowStart'' ''bytes_slow_start'' j,
        set_long ''setDurationNs'' ''duration_ns'' j,
        set_long ''setDurationNsDistinct'' ''duration_ns_distinct'' j,
        set_long ''setDurationNsTotal'' ''duration_ns_total'' j,
        set_long ''setRelativeTimeNsMeasurementStart'' ''relative_time_ns_measurement_start'' j,
        set_long ''setThroughputAvgBps'' ''throughput_avg_bps'' j,
        set_int ''setNumStreamsEnd'' ''num_streams_end'' j,
        set_int ''setNumStreamsStart'' ''num_streams_start'' j,
        set_float ''setProgress'' ''progress'' j]"

text \<open>The values that stand for a missing entry are handed over as null references.\<close>

definition boxed_or_null :: "int \<Rightarrow> jarg" where
  "boxed_or_null v = (if v \<noteq> - 1 then JBoxedLong v else JNullRef)"

definition add_rtt :: "json \<Rightarrow> fault + jcall" where
  "add_rtt j =
     res_bind (if is_number (json_at j ''rtt_ns'') then int_value (json_at j ''rtt_ns'') else Inr (- 1))
       (\<lambda>rtt. res_map (\<lambda>stamp. JCall ''addSingleRtt'' ''(JJ)V'' [boxed_or_null rtt, boxed_or_null stamp])
          (if is_string (json_at j ''relative_time_ns_measurement_start'')
           then stoll (string_value (json_at j ''relative_time_ns_measurement_start''))
           else Inr (- 1)))"

definition rtt_result :: "json \<Rightarrow> fault + jcall list" where
  "rtt_result j =
     in_order
       ([set_long ''setAverageNs'' ''average_ns'' j,
         set_long ''setDurationNs'' ''duration_ns'' j,
         set_long ''setMaxNs'' ''max_ns'' j,
         set_long ''setMedianNs'' ''median_ns'' j,
         set_long ''setMinNs'' ''min_ns'' j,
         set_int ''setNumError'' ''num_error'' j,
         set_int ''setNumMissing'' ''num_missing'' j,
         set_int ''setNumReceived'' ''num_received'' j,
         set_int ''setNumSent'' ''num_sent'' j,
         set_int ''setPacketSize'' ''packet_size'' j,
         set_text ''setPeer'' ''peer'' j,
         set_float ''setProgress'' ''progress'' j,
         set_long ''setStandardDeviationNs'' ''standard_deviation_ns'' j] @
        map add_rtt (array_items (json_at j ''rtts'')))"

text \<open>An optional number of \<open>time_info\<close>; the first is handed over unboxed, the others boxed.\<close>

definition time_setter :: "(int \<Rightarrow> jarg) \<Rightarrow> string \<Rightarrow> string \<Rightarrow> json \<Rightarrow> (fault + jcall) list" where
  "time_setter box setter k j =
     (if is_string (json_at j k)
      then [res_map (\<lambda>v. JCall setter ''(J)V'' [box v]) (stoll (string_value (json_at j k)))]
      else [])"

definition time_result :: "json \<Rightarrow> fault + jcall list" where
  "time_result j =
     in_order
       (time_setter JLong ''setDownloadStart'' ''download_start'' j @
        time_setter JBoxedLong ''setDownloadEnd'' ''download_end'' j @
        time_setter JBoxedLong ''setRttUdpStart'' ''rtt_udp_start'' j @
        time_setter JBoxedLong ''setRttUdpEnd'' ''rtt_udp_end'' j @
        time_setter JBoxedLong ''setUploadStart'' ''upload_start'' j @
        time_setter JBoxedLong ''setUploadEnd'' ''upload_end'' j)"

section \<open>Messages\<close>

definition phase_string :: "MeasurementPhase \<Rightarrow> string" where
  "phase_string p = (case p of INIT \<Rightarrow> ''INIT'' | PhaseIP \<Rightarrow> ''IP'' | PING \<Rightarrow> ''PING''
     | PhaseDOWNLOAD \<Rightarrow> ''DOWNLOAD'' | PhaseUPLOAD \<Rightarrow> ''UPLOAD'' | END \<Rightarrow> ''END'')"

definition set_phase :: "jref \<Rightarrow> MeasurementPhase \<Rightarrow> jni_event" where
  "set_phase base p =
     CallVoid base (JCall ''setMeasurementPhaseByStringValue'' ''(Ljava/lang/String;)V''
       [JString (phase_string p)])"

text \<open>
  \<open>passJniSpeedState\<close>: the case of the download falls through into the case of the upload,
  which keeps a target that is already set. The average in milliseconds is the truncated
  quotient; the code divides in \<open>double\<close>, which is the same up to 2^53 nanoseconds.
\<close>

definition throughput_target :: "MeasurementPhase \<Rightarrow> connector \<Rightarrow> jref option" where
  "throughput_target p c =
     (let toFill = (if p = PhaseDOWNLOAD then downloadMeasurementState c else None)
      in if toFill = None then uploadMeasurementState c else toFill)"

definition speed_switch :: "MeasurementPhase \<Rightarrow> json \<Rightarrow> connector \<Rightarrow> fault + connector" where
  "speed_switch p j c =
     (if p = PING then
        (if is_string (json_at j ''average_ns'')
         then res_bind (stoll (string_value (json_at j ''average_ns''))) (\<lambda>v.
                res_map (\<lambda>r. emit [SetLong r ''averageMs'' (v sdiv 1000000)] c)
                  (need (pingMeasurementState c)))
         else Inr c)
      else if p = PhaseDOWNLOAD \<or> p = PhaseUPLOAD then
        (if is_string (json_at j ''throughput_avg_bps'')
         then res_bind (stoll (string_value (json_at j ''throughput_avg_bps''))) (\<lambda>v.
                res_map (\<lambda>r. emit [SetLong r ''throughputAvgBps'' v] c)
                  (need (throughput_target p c)))
         else Inr c)
      else Inr c)"

definition passJniSpeedState :: "MeasurementPhase \<Rightarrow> json \<Rightarrow> connector \<Rightarrow> fault + connector" where
  "passJniSpeedState p j c =
     res_bind (speed_switch p j c) (\<lambda>c1.
       if is_number (json_at j ''progress'')
       then res_map (\<lambda>r. emit [SetFloat r ''progress'' (number_value (json_at j ''progress''))] c1)
              (need (baseMeasurementState c1))
       else Inr c1)"

text \<open>\<open>v.at(v.size() - 1)\<close>: on an empty vector the index is \<open>2^64 - 1\<close> and \<open>at\<close> throws.\<close>

definition last_item :: "json \<Rightarrow> fault + json" where
  "last_item j = (if array_items j = [] then Inl OutOfRange else Inr (last (array_items j)))"

definition no_progress :: "connector \<Rightarrow> fault + connector" where
  "no_progress c = res_map (\<lambda>r. emit [SetFloat r ''progress'' 0] c) (need (baseMeasurementState c))"

text \<open>
  The three blocks of \<open>callback\<close> on the phase: which entry of the message they read (and insert
  as null where it is missing), and what they do with it.
\<close>

definition phase_key :: "MeasurementPhase \<Rightarrow> string option" where
  "phase_key p = (case p of PING \<Rightarrow> Some ''rtt_udp_info'' | PhaseDOWNLOAD \<Rightarrow> Some ''download_info''
     | PhaseUPLOAD \<Rightarrow> Some ''upload_info'' | _ \<Rightarrow> None)"

definition live_state :: "MeasurementPhase \<Rightarrow> json \<Rightarrow> connector \<Rightarrow> fault + connector" where
  "live_state p j c =
     (if p = PING then
        (if is_object j then passJniSpeedState PING j c else no_progress c)
      else
        (if is_array j then res_bind (last_item j) (\<lambda>x. passJniSpeedState p x c) else no_progress c))"

definition java_void :: "string \<Rightarrow> jarg list \<Rightarrow> jcall" where
  "java_void method args = JCall method ''(Ljava/lang/String;)V'' args"

definition connector_callback ::
  "'c lib \<Rightarrow> jvm_answer \<Rightarrow> MeasurementPhase \<Rightarrow> jobject \<Rightarrow> connector \<Rightarrow>
     fault + jobject \<times> connector" where
  "connector_callback lib e phase m c =
     (if \<not> getJniEnv c e then Inr (m, c)
      else
        res_bind (need (speedMeasurementResultClazz c)) (\<lambda>_.
        res_bind (need (baseMeasurementState c)) (\<lambda>base.
        let c1 = emit [set_phase base phase] c
        in res_bind
             (case phase_key phase of
                None \<Rightarrow> Inr (m, c1)
              | Some k \<Rightarrow> res_map (Pair (obj_touch k m)) (live_state phase (obj_at m k) c1))
             (\<lambda>(m1, c2).
                res_map (\<lambda>caller.
                    (m1, emit
                       [CallVoid caller (java_void ''cppCallback''
                          [JString (json_dump lib (JObj m1)), JNew ''JniSpeedMeasurementResult'' []]),
                        CallVoid caller (java_void ''cppCallback'' [JString ''''])] c2))
                  (need (jniCaller c2))))))"

text \<open>
  \<open>callbackFinished\<close>, block by block: each adds calls on the result object.
\<close>

definition finished_rtt :: "json \<Rightarrow> connector \<Rightarrow> fault + jcall list" where
  "finished_rtt j c =
     (if is_object j then
        res_bind (need (resultUdpClazz c)) (\<lambda>_.
          res_map (\<lambda>calls. [JCall ''setRttUdpResult'' ''(Lcom/zafaco/moduleSpeed/models/rtt/RttUdpResult;)V''
                              [JNew ''RttUdpResult'' calls]])
            (rtt_result j))
      else Inr [])"

definition add_bandwidth :: "string \<Rightarrow> json \<Rightarrow> fault + jcall" where
  "add_bandwidth method j =
     res_map (\<lambda>calls. JCall method ''(Lcom/zafaco/moduleSpeed/models/speed/BandwidthResult;)V''
                        [JNew ''BandwidthResult'' calls])
       (setBandwidthResult j)"

definition finished_speed :: "string \<Rightarrow> json \<Rightarrow> connector \<Rightarrow> fault + jcall list" where
  "finished_speed method j c =
     (if is_array j then
        res_bind (need (resultBandwidthClazz c)) (\<lambda>_. in_order (map (add_bandwidth method) (array_items j)))
      else Inr [])"

definition finished_time :: "json \<Rightarrow> connector \<Rightarrow> fault + jcall list" where
  "finished_time j c =
     (if is_object j then
        res_bind (need (timeClazz c)) (\<lambda>_.
          res_map (\<lambda>calls. [JCall ''setTimeInfo'' ''(Lcom/zafaco/moduleSpeed/models/time/TimeInfo;)V''
                              [JNew ''TimeInfo'' calls]])
            (time_result j))
      else Inr [])"

definition finished_peer :: "json \<Rightarrow> jcall list" where
  "finished_peer j =
     (if is_object j \<and> is_string (json_at j ''ip'')
      then [java_void ''setMeasurementServerIp'' [JString (string_value (json_at j ''ip''))]]
      else [])"

definition finished_message :: "jobject \<Rightarrow> jobject" where
  "finished_message m =
     fold obj_touch [''rtt_udp_info'', ''download_info'', ''upload_info'', ''time_info'', ''peer_info''] m"

definition callbackFinished ::
  "'c lib \<Rightarrow> jvm_answer \<Rightarrow> jobject \<Rightarrow> connector \<Rightarrow> fault + jobject \<times> connector" where
  "callbackFinished lib e m c =
     (if \<not> getJniEnv c e then Inr (m, c)
      else
        res_bind (need (speedMeasurementResultClazz c)) (\<lambda>_.
        res_bind (finished_rtt (obj_at m ''rtt_udp_info'') c) (\<lambda>rtt.
        res_bind (finished_speed ''addDownloadInfo'' (obj_at m ''download_info'') c) (\<lambda>dl.
        res_bind (finished_speed ''addUploadInfo'' (obj_at m ''upload_info'') c) (\<lambda>ul.
        res_bind (finished_time (obj_at m ''time_info'') c) (\<lambda>time.
        let peer = finished_peer (obj_at m ''peer_info'');
            m1 = finished_message m
        in res_map (\<lambda>caller.
               (m1, emit
                  (CallVoid caller (JCall ''cppCallbackFinished''
                     ''(Ljava/lang/String;Lcom/zafaco/moduleSpeed/models/speed/JniSpeedMeasurementResult;)V''
                     [JString (json_dump lib (JObj m1)),
                      JNew ''JniSpeedMeasurementResult'' (rtt @ dl @ ul @ time @ peer)]) #
                   (case baseMeasurementState c of
                      None \<Rightarrow> []
                    | Some base \<Rightarrow> [SetFloat base ''progress'' 1, set_phase base END])) c))
             (need (jniCaller c))))))))"

section \<open>Measurements\<close>

datatype log_priority = LogDebug | LogInfo | LogWarn | LogError | LogFatal

definition printLog :: "string \<Rightarrow> log_priority" where
  "printLog category =
     (if category = ''DEBUG'' then LogDebug
      else if category = ''INFO'' then LogInfo
      else if category = ''WARN'' then LogWarn
      else if category = ''CRITICAL'' then LogError
      else if category = ''ERROR'' then LogFatal
      else LogInfo)"

definition android_parameters :: "connector \<Rightarrow> json" where
  "android_parameters c =
     (let s = speedTaskDesc c
      in JObj [(''rtt'', JObj [(''performMeasurement'', JBool (performRtt s)),
                               (''ping_query'', JStr (to_string_int (rttCount s)))]),
               (''download'', JObj [(''performMeasurement'', JBool (performDownload s)),
                                    (''streams'', JStr (to_string_int (downloadStreams s)))]),
               (''upload'', JObj [(''performMeasurement'', JBool (performUpload s)),
                                  (''streams'', JStr (to_string_int (uploadStreams s)))]),
               (''platform'', JStr ''mobile''),
               (''clientos'', JStr ''android''),
               (''wsTargetPort'', JStr (to_string_int (speedServerPort s))),
               (''wsTargetPortRtt'', JStr (to_string_int (speedServerPortRtt s))),
               (''wsWss'', JStr (if isEncrypted s then ''1'' else ''0'')),
               (''wsTargets'', JArr (map JStr (measurementServerUrl c)))])"

text \<open>
  \<open>startMeasurement\<close>, up to the first test case. The handler is there for what
  \<open>measurementStart\<close> throws; none of the operations in \<open>measurement_init\<close> does.
\<close>

definition startMeasurement ::
  "'c lib \<Rightarrow> 'c \<Rightarrow> nat \<Rightarrow> connector \<Rightarrow> 'c world \<Rightarrow> fault + 'c world" where
  "startMeasurement lib cfg0 rnd c w =
     (let s = speedTaskDesc c;
          w1 = w\<lparr>DEBUG_FLAG := False, RUNNING := True, RTT := performRtt s,
                 DOWNLOAD := performDownload s, UPLOAD := performUpload s\<rparr>
      in case measurement_init lib cfg0 rnd (json_dump lib (android_parameters c)) w1 of
           Inl f \<Rightarrow> if caught f then Inr (shutdown lib w1) else Inl f
         | Inr v \<Rightarrow> Inr v)"

definition stopMeasurement :: "'c lib \<Rightarrow> 'c world \<Rightarrow> 'c world" where
  "stopMeasurement lib w = measurementStop lib w"

section \<open>The entry points\<close>

text \<open>
  The functions that Java calls, and the two that the callback object calls, as operations on the
  connector. \<open>JNI_OnUnload\<close> and \<open>cleanUp\<close> both release.
\<close>

datatype connector_op =
    OnLoad getenv_result "string \<Rightarrow> bool"
  | ShareMeasurementState java_task
  | CleanUp jvm_answer
  | Deliver jvm_answer MeasurementPhase jobject
  | DeliverFinished jvm_answer jobject

definition connector_step :: "'c lib \<Rightarrow> connector_op \<Rightarrow> connector \<Rightarrow> fault + connector" where
  "connector_step lib oper c =
     (case oper of
        OnLoad ans found \<Rightarrow> res_map snd (jniLoad ans found c)
      | ShareMeasurementState t \<Rightarrow> Inr (setSpeedSettings t (registerSharedObject c))
      | CleanUp e \<Rightarrow> Inr (unregisterSharedObject e c)
      | Deliver e p m \<Rightarrow> res_map snd (connector_callback lib e p m c)
      | DeliverFinished e m \<Rightarrow> res_map snd (callbackFinished lib e m c))"

fun connector_run :: "'c lib \<Rightarrow> connector_op list \<Rightarrow> connector \<Rightarrow> fault + connector" where
  "connector_run lib [] c = Inr c"
| "connector_run lib (oper # opers) c = res_bind (connector_step lib oper c) (connector_run lib opers)"

section \<open>References\<close>

text \<open>What the connector does to a Java virtual machine without touching references.\<close>

definition ref_free :: "jni_event \<Rightarrow> bool" where
  "ref_free ev \<longleftrightarrow> (case ev of NewRef _ \<Rightarrow> False | DeleteRef _ \<Rightarrow> False | _ \<Rightarrow> True)"

fun live_refs :: "jni_event list \<Rightarrow> jref multiset \<Rightarrow> jref multiset" where
  "live_refs [] M = M"
| "live_refs (ev # evs) M =
     live_refs evs (case ev of NewRef r \<Rightarrow> add_mset r M | DeleteRef r \<Rightarrow> M - {#r#} | _ \<Rightarrow> M)"

definition live :: "connector \<Rightarrow> jref multiset" where
  "live c = live_refs (jni c) {#}"

definition some_refs :: "jref option list \<Rightarrow> jref multiset" where
  "some_refs rs = mset (concat (map (\<lambda>r. case r of None \<Rightarrow> [] | Some x \<Rightarrow> [x]) rs))"

definition class_refs :: "connector \<Rightarrow> jref multiset" where
  "class_refs c = some_refs [jniHelperClass c, jniExceptionClass c, speedMeasurementResultClazz c,
     resultUdpClazz c, resultBandwidthClazz c, timeClazz c]"

definition state_refs :: "connector \<Rightarrow> jref multiset" where
  "state_refs c = some_refs [jniCaller c, baseMeasurementState c, downloadMeasurementState c,
     uploadMeasurementState c, pingMeasurementState c]"

lemma live_refs_append: "live_refs (xs @ ys) M = live_refs ys (live_refs xs M)"
  by (induction xs arbitrary: M) simp_all

lemma live_refs_free: "list_all ref_free evs \<Longrightarrow> live_refs evs M = M"
  by (induction evs arbitrary: M) (auto simp: ref_free_def split: jni_event.splits)

lemma live_emit: "live (emit evs c) = live_refs evs (live c)"
  by (simp add: live_def emit_def live_refs_append)

lemma some_refs_simps [simp]:
  "some_refs [] = {#}"
  "some_refs (r # rs) = (case r of None \<Rightarrow> {#} | Some x \<Rightarrow> {#x#}) + some_refs rs"
  by (simp_all add: some_refs_def split: option.splits)

lemma emit_members [simp]:
  "class_refs (emit evs c) = class_refs c" "state_refs (emit evs c) = state_refs c"
  "measurementServerUrl (emit evs c) = measurementServerUrl c"
  "speedTaskDesc (emit evs c) = speedTaskDesc c" "javaVM (emit evs c) = javaVM c"
  "jniCaller (emit evs c) = jniCaller c" "baseMeasurementState (emit evs c) = baseMeasurementState c"
  "refs (emit evs c) = refs c" "refs_pos (emit evs c) = refs_pos c"
  "pingMeasurementState (emit evs c) = pingMeasurementState c"
  "downloadMeasurementState (emit evs c) = downloadMeasurementState c"
  "uploadMeasurementState (emit evs c) = uploadMeasurementState c"
  by (simp_all add: emit_def class_refs_def state_refs_def)

lemma emit_emit [simp]: "emit ys (emit xs c) = emit (xs @ ys) c"
  by (simp add: emit_def)

text \<open>
  The interface through which the callback object reaches Java: an operation that fails, or makes
  calls and changes no member.
\<close>

locale java_sink =
  fixes deliver :: "'x \<Rightarrow> connector \<Rightarrow> fault + jobject \<times> connector"
  assumes calls_only: "deliver x c = Inr (m, c') \<Longrightarrow> \<exists>evs. c' = emit evs c \<and> list_all ref_free evs"
begin

lemma keeps_live: "deliver x c = Inr (m, c') \<Longrightarrow> live c' = live c"
  using calls_only by (fastforce simp: live_emit live_refs_free)

lemma keeps_members:
  assumes "deliver x c = Inr (m, c')"
  shows "class_refs c' = class_refs c" "state_refs c' = state_refs c"
    "measurementServerUrl c' = measurementServerUrl c" "speedTaskDesc c' = speedTaskDesc c"
  using calls_only [OF assms] by auto

end

lemma ref_free_simps [simp]:
  "ref_free (CallVoid r j)" "ref_free (SetFloat r f x)" "ref_free (SetLong r f v)" "ref_free (set_phase r p)"
  by (simp_all add: ref_free_def set_phase_def)

lemma res_bindE:
  assumes "res_bind r f = Inr y"
  obtains x where "r = Inr x" "f x = Inr y"
  using assms by (auto simp: res_bind_Inr_iff)

lemma need_Inr [res_simps]: "need r = Inr x \<longleftrightarrow> r = Some x"
  by (simp add: need_def split: option.split)

lemma speed_switch_calls:
  "speed_switch p j c = Inr c1 \<Longrightarrow> c1 = c \<or> (\<exists>r f v. c1 = emit [SetLong r f v] c)"
  unfolding speed_switch_def by (cases p) (auto simp: res_simps split: if_splits)

lemma passJniSpeedState_calls:
  assumes "passJniSpeedState p j c = Inr c'"
  shows "\<exists>evs. c' = emit evs c \<and> list_all ref_free evs"
proof -
  have e: "emit [] c = c" by (simp add: emit_def)
  obtain c1 where c1: "speed_switch p j c = Inr c1"
    and c': "c' = c1 \<or> (\<exists>r x. c' = emit [SetFloat r ''progress'' x] c1)"
    using assms unfolding passJniSpeedState_def by (auto simp: res_simps split: if_splits)
  obtain evs where v: "c1 = emit evs c" "list_all ref_free evs"
    using speed_switch_calls [OF c1] e by (metis list.pred_inject ref_free_simps(3))
  from c' show ?thesis
  proof
    assume "c' = c1" with v show ?thesis by blast
  next
    assume "\<exists>r x. c' = emit [SetFloat r ''progress'' x] c1"
    then obtain r x where "c' = emit [SetFloat r ''progress'' x] c1" by blast
    with v show ?thesis by (intro exI [of _ "evs @ [SetFloat r ''progress'' x]"]) simp
  qed
qed

lemma no_progress_calls: "no_progress c = Inr c' \<Longrightarrow> \<exists>r. c' = emit [SetFloat r ''progress'' 0] c"
  by (auto simp: no_progress_def res_map_Inr_iff)

lemma live_state_calls:
  assumes "live_state p j c = Inr c'"
  shows "\<exists>evs. c' = emit evs c \<and> list_all ref_free evs"
proof -
  consider "no_progress c = Inr c'" | q x where "passJniSpeedState q x c = Inr c'"
    using assms by (auto simp: live_state_def res_bind_Inr_iff split: if_splits)
  then show ?thesis
  proof cases
    case 1
    then obtain r where "c' = emit [SetFloat r ''progress'' 0] c" using no_progress_calls by blast
    then show ?thesis by (intro exI [of _ "[SetFloat r ''progress'' 0]"]) simp
  qed (rule passJniSpeedState_calls)
qed

definition callback_calls :: "'c lib \<Rightarrow> jref \<Rightarrow> jobject \<Rightarrow> jni_event list" where
  "callback_calls lib caller m =
     [CallVoid caller (java_void ''cppCallback''
        [JString (json_dump lib (JObj m)), JNew ''JniSpeedMeasurementResult'' []]),
      CallVoid caller (java_void ''cppCallback'' [JString ''''])]"

lemma connector_callback_Inr:
  assumes "connector_callback lib e p m c = Inr (m', c')" "getJniEnv c e"
  shows "\<exists>base c2 caller. baseMeasurementState c = Some base \<and>
      (case phase_key p of
         None \<Rightarrow> m' = m \<and> c2 = emit [set_phase base p] c
       | Some k \<Rightarrow> m' = obj_touch k m \<and> live_state p (obj_at m k) (emit [set_phase base p] c) = Inr c2) \<and>
      jniCaller c2 = Some caller \<and> c' = emit (callback_calls lib caller m') c2"
proof (cases "phase_key p")
  case None
  then show ?thesis
    using assms unfolding connector_callback_def callback_calls_def
    by (auto simp: res_simps Let_def)
next
  case (Some k)
  then show ?thesis
    using assms unfolding connector_callback_def callback_calls_def
    by (auto simp: res_simps Let_def)
qed

lemma ref_free_callback_calls [simp]: "list_all ref_free (callback_calls lib caller m)"
  by (simp add: callback_calls_def)

interpretation cbk: java_sink "\<lambda>(lib, e, p, m). connector_callback lib e p m"
proof unfold_locales
  fix x c m c'
  assume a: "(case x of (lib, e, p, m) \<Rightarrow> connector_callback lib e p m) c = Inr (m, c')"
  obtain lib e p m0 where x: "x = (lib, e, p, m0)" by (cases x)
  have e: "emit [] c = c" by (simp add: emit_def)
  show "\<exists>evs. c' = emit evs c \<and> list_all ref_free evs"
  proof (cases "getJniEnv c e")
    case False
    then show ?thesis using a e by (intro exI [of _ "[]"]) (simp add: x connector_callback_def)
  next
    case True
    obtain base c2 caller where s: "case phase_key p of
         None \<Rightarrow> m = m0 \<and> c2 = emit [set_phase base p] c
       | Some k \<Rightarrow> m = obj_touch k m0 \<and> live_state p (obj_at m0 k) (emit [set_phase base p] c) = Inr c2"
      and c': "c' = emit (callback_calls lib caller m) c2"
      using connector_callback_Inr [of lib e p m0 c m c'] a True unfolding x by auto
    obtain evs where "c2 = emit evs c" "list_all ref_free evs"
    proof (cases "phase_key p")
      case None
      with s show thesis by (intro that [of "[set_phase base p]"]) simp_all
    next
      case (Some k)
      with s obtain evs where "c2 = emit evs (emit [set_phase base p] c)" "list_all ref_free evs"
        using live_state_calls by fastforce
      then show thesis by (intro that [of "set_phase base p # evs"]) simp_all
    qed
    then show ?thesis
      using c' by (intro exI [of _ "evs @ callback_calls lib caller m"]) simp
  qed
qed

interpretation fin: java_sink "\<lambda>(lib, e, m). callbackFinished lib e m"
proof unfold_locales
  fix x c m c'
  assume a: "(case x of (lib, e, m) \<Rightarrow> callbackFinished lib e m) c = Inr (m, c')"
  obtain lib e m0 where x: "x = (lib, e, m0)" by (cases x)
  have e: "emit [] c = c" by (simp add: emit_def)
  show "\<exists>evs. c' = emit evs c \<and> list_all ref_free evs"
  proof (cases "getJniEnv c e")
    case False
    then show ?thesis using a e by (intro exI [of _ "[]"]) (simp add: x callbackFinished_def)
  next
    case True
    then obtain caller d where c': "c' = emit (CallVoid caller d # (case baseMeasurementState c of
          None \<Rightarrow> [] | Some base \<Rightarrow> [SetFloat base ''progress'' 1, set_phase base END])) c"
      using a unfolding x callbackFinished_def
      by (auto simp: res_bind_Inr_iff res_map_Inr_iff Let_def)
    then show ?thesis by (intro exI conjI, assumption) (simp split: option.split)
  qed
qed

text \<open>What an operation overwrites without releasing it.\<close>

definition overwritten :: "connector_op \<Rightarrow> connector \<Rightarrow> jref multiset" where
  "overwritten oper c = (case oper of
     OnLoad ans found \<Rightarrow> if ans = JniOk then class_refs c else {#}
   | ShareMeasurementState t \<Rightarrow> state_refs c
   | _ \<Rightarrow> {#})"

fun lost_refs :: "'c lib \<Rightarrow> connector_op list \<Rightarrow> connector \<Rightarrow> jref multiset" where
  "lost_refs lib [] c = {#}"
| "lost_refs lib (oper # opers) c = overwritten oper c +
     (case connector_step lib oper c of Inl _ \<Rightarrow> {#} | Inr c' \<Rightarrow> lost_refs lib opers c')"

definition new_refs :: "jref option \<Rightarrow> jref multiset" where
  "new_refs r = some_refs [r]"

definition creation :: "jref option \<Rightarrow> jni_event list" where
  "creation r = (case r of None \<Rightarrow> [] | Some x \<Rightarrow> [NewRef x])"

lemma live_creation: "live_refs (creation r) M = M + some_refs [r]"
  by (simp add: creation_def split: option.split)

lemma live_release: "some_refs [r] \<subseteq># M \<Longrightarrow> live_refs (release r) M = M - some_refs [r]"
  by (simp add: release_def split: option.split)

lemma NewGlobalRef_unfold:
  "NewGlobalRef c = (refs c (refs_pos c),
     c\<lparr>refs_pos := Suc (refs_pos c), jni := jni c @ creation (refs c (refs_pos c))\<rparr>)"
  by (simp add: NewGlobalRef_def emit_def creation_def Let_def)

lemma registerSharedObject_unfold:
  "registerSharedObject c =
     (let n = refs_pos c; r = refs c
      in c\<lparr>jniCaller := r n, baseMeasurementState := r (n + 1), downloadMeasurementState := r (n + 2),
           uploadMeasurementState := r (n + 3), pingMeasurementState := r (n + 4),
           refs_pos := n + 5,
           jni := jni c @ creation (r n) @ creation (r (n + 1)) @ creation (r (n + 2)) @
                    creation (r (n + 3)) @ creation (r (n + 4))\<rparr>)"
  by (simp add: registerSharedObject_def NewGlobalRef_unfold eval_nat_numeral Let_def)

lemma register_refs:
  "live (registerSharedObject c) = live c + state_refs (registerSharedObject c)"
  "class_refs (registerSharedObject c) = class_refs c"
  by (simp_all add: registerSharedObject_unfold Let_def live_def live_refs_append live_creation
      state_refs_def class_refs_def ac_simps del: some_refs_simps(2)) (simp add: ac_simps)

lemma load_class_Inr: "load_class found name c = Inr (r, c') \<longleftrightarrow> found name \<and> (r, c') = NewGlobalRef c"
  by (auto simp: load_class_def)

lemma jniLoad_refs:
  assumes "jniLoad ans found c = Inr (b, c')"
  shows "if ans = JniOk then live c' = live c + class_refs c' \<and> state_refs c' = state_refs c \<and> b
    else c' = c \<and> \<not> b"
proof (cases "ans = JniOk")
  case True
  then show ?thesis
    using assms
    by (auto simp: jniLoad_def res_simps load_class_Inr NewGlobalRef_unfold live_def live_refs_append
        live_creation class_refs_def state_refs_def split: if_splits) 
qed (use assms in \<open>auto simp: jniLoad_def\<close>)

lemma live_members [simp]:
  "live (c\<lparr>jniHelperClass := r\<rparr>) = live c" "live (c\<lparr>jniExceptionClass := r\<rparr>) = live c"
  "live (c\<lparr>speedMeasurementResultClazz := r\<rparr>) = live c" "live (c\<lparr>resultUdpClazz := r\<rparr>) = live c"
  "live (c\<lparr>resultBandwidthClazz := r\<rparr>) = live c" "live (c\<lparr>timeClazz := r\<rparr>) = live c"
  "live (c\<lparr>jniCaller := r\<rparr>) = live c" "live (c\<lparr>baseMeasurementState := r\<rparr>) = live c"
  "live (c\<lparr>downloadMeasurementState := r\<rparr>) = live c" "live (c\<lparr>uploadMeasurementState := r\<rparr>) = live c"
  "live (c\<lparr>pingMeasurementState := r\<rparr>) = live c" "live (c\<lparr>measurementServerUrl := us\<rparr>) = live c"
  "live (c\<lparr>speedTaskDesc := t\<rparr>) = live c"
  by (simp_all add: live_def)

lemma live_releases: "live_refs (concat (map release rs)) (some_refs rs + M) = M"
  by (induction rs arbitrary: M) (auto simp: live_refs_append release_def split: option.split)

lemma unregister_refs:
  assumes "live c = class_refs c + state_refs c + L"
  shows "live (unregisterSharedObject e c) =
      class_refs (unregisterSharedObject e c) + state_refs (unregisterSharedObject e c) + L"
    and "getJniEnv c e \<Longrightarrow> class_refs (unregisterSharedObject e c) = {#}"
    and "getJniEnv c e \<Longrightarrow> state_refs (unregisterSharedObject e c) = {#}"
proof -
  let ?rs = "[jniExceptionClass c, jniHelperClass c, speedMeasurementResultClazz c, resultUdpClazz c,
    resultBandwidthClazz c, timeClazz c, baseMeasurementState c, downloadMeasurementState c,
    uploadMeasurementState c, pingMeasurementState c, jniCaller c]"
  have "class_refs c + state_refs c = some_refs ?rs"
    by (simp add: class_refs_def state_refs_def ac_simps)
  with assms have "live c = some_refs ?rs + L" by simp
  then have l: "live_refs (concat (map release ?rs)) (live c) = L" by (simp only: live_releases)
  show "getJniEnv c e \<Longrightarrow> class_refs (unregisterSharedObject e c) = {#}"
    "getJniEnv c e \<Longrightarrow> state_refs (unregisterSharedObject e c) = {#}"
    by (simp_all add: unregisterSharedObject_def Let_def) (simp_all add: class_refs_def state_refs_def)
  show "live (unregisterSharedObject e c) =
      class_refs (unregisterSharedObject e c) + state_refs (unregisterSharedObject e c) + L"
  proof (cases "getJniEnv c e")
    case True
    then have "live (unregisterSharedObject e c) = L"
      using l by (simp add: unregisterSharedObject_def live_emit)
    with True show ?thesis
      by (simp add: unregisterSharedObject_def Let_def) (simp add: class_refs_def state_refs_def)
  qed (use assms in \<open>simp add: unregisterSharedObject_def\<close>)
qed

lemma setSpeedSettings_refs [simp]:
  "live (setSpeedSettings t c) = live c" "class_refs (setSpeedSettings t c) = class_refs c"
  "state_refs (setSpeedSettings t c) = state_refs c"
  by (simp_all add: setSpeedSettings_def class_refs_def state_refs_def)

lemma connector_step_refs:
  assumes "connector_step lib oper c = Inr c'" "live c = class_refs c + state_refs c + L"
  shows "live c' = class_refs c' + state_refs c' + (L + overwritten oper c)"
proof (cases oper)
  case (OnLoad ans found)
  with assms(1) obtain b where "jniLoad ans found c = Inr (b, c')"
    by (auto simp: connector_step_def res_simps)
  from jniLoad_refs [OF this] show ?thesis
    using assms(2) by (auto simp: OnLoad overwritten_def ac_simps split: if_splits)
next
  case (ShareMeasurementState t)
  then have "c' = setSpeedSettings t (registerSharedObject c)"
    using assms(1) by (simp add: connector_step_def)
  then show ?thesis
    using assms(2) by (simp add: ShareMeasurementState overwritten_def register_refs ac_simps)
next
  case (CleanUp e)
  then have "c' = unregisterSharedObject e c" using assms(1) by (simp add: connector_step_def)
  then show ?thesis
    using unregister_refs(1) [OF assms(2), of e] by (simp add: CleanUp overwritten_def)
next
  case (Deliver e p m)
  with assms(1) obtain m' where r: "connector_callback lib e p m c = Inr (m', c')"
    by (auto simp: connector_step_def res_simps)
  show ?thesis
    using cbk.keeps_live [of "(lib, e, p, m)" c m' c'] cbk.keeps_members [of "(lib, e, p, m)" c m' c'] r assms(2)
    by (simp add: Deliver overwritten_def)
next
  case (DeliverFinished e m)
  with assms(1) obtain m' where r: "callbackFinished lib e m c = Inr (m', c')"
    by (auto simp: connector_step_def res_simps)
  show ?thesis
    using fin.keeps_live [of "(lib, e, m)" c m' c'] fin.keeps_members [of "(lib, e, m)" c m' c'] r assms(2)
    by (simp add: DeliverFinished overwritten_def)
qed

lemma connector_run_refs:
  assumes "connector_run lib opers c = Inr c'" "live c = class_refs c + state_refs c + L"
  shows "live c' = class_refs c' + state_refs c' + (L + lost_refs lib opers c)"
  using assms
proof (induction opers arbitrary: c L)
  case (Cons oper opers)
  obtain c1 where s: "connector_step lib oper c = Inr c1" and r: "connector_run lib opers c1 = Inr c'"
    using Cons.prems(1) by (auto simp: res_simps)
  have "live c' = class_refs c' + state_refs c' + (L + overwritten oper c + lost_refs lib opers c1)"
    by (rule Cons.IH [OF r connector_step_refs [OF s Cons.prems(2)]])
  then show ?case by (simp add: s ac_simps)
qed simp

text \<open>C31: In every run of the entry points and deliveries, the global references that exist are
  those the connector holds and those it overwrote; after a clean-up with an environment only the
  overwritten ones are left.\<close>

theorem references_accounted:
  assumes "connector_run lib opers (getInstance supply) = Inr c"
  shows "live c = class_refs c + state_refs c + lost_refs lib opers (getInstance supply)
    \<and> (getJniEnv c e \<longrightarrow> live (unregisterSharedObject e c) = lost_refs lib opers (getInstance supply))"
proof -
  have "live (getInstance supply) =
      class_refs (getInstance supply) + state_refs (getInstance supply) + {#}"
    by (simp add: getInstance_def live_def class_refs_def state_refs_def)
  from connector_run_refs [OF assms this]
  have l: "live c = class_refs c + state_refs c + lost_refs lib opers (getInstance supply)" by simp
  then show ?thesis using unregister_refs [OF l] by (simp add: add.assoc)
qed

lemma shares_run:
  assumes "\<forall>n. supply n \<noteq> None" "refs c = supply"
  shows "\<exists>c'. connector_run lib (map ShareMeasurementState ts) c = Inr c' \<and> refs c' = supply \<and>
      size (live c') = size (live c) + 5 * length ts \<and>
      measurementServerUrl c' = measurementServerUrl c @
        concat (map (\<lambda>t. case speedServerAddrs t of None \<Rightarrow> [] | Some us \<Rightarrow> us) ts) \<and>
      (ts \<noteq> [] \<longrightarrow> size (state_refs c') = 5 \<and> speedTaskDesc c' = java_settings (last ts))"
  using assms(2)
proof (induction ts arbitrary: c)
  case (Cons t ts)
  let ?c = "setSpeedSettings t (registerSharedObject c)"
  have some: "\<exists>x. supply n = Some x" for n using assms(1) by simp
  have f: "refs ?c = supply" "measurementServerUrl ?c = measurementServerUrl c @
      (case speedServerAddrs t of None \<Rightarrow> [] | Some us \<Rightarrow> us)" "speedTaskDesc ?c = java_settings t"
    using Cons.prems by (simp_all add: setSpeedSettings_def registerSharedObject_unfold Let_def)
  have s: "size (state_refs ?c) = 5"
    using some [of "refs_pos c"] some [of "refs_pos c + 1"] some [of "refs_pos c + 2"]
      some [of "refs_pos c + 3"] some [of "refs_pos c + 4"] Cons.prems
    by (auto simp: state_refs_def registerSharedObject_unfold Let_def setSpeedSettings_def)
  have l: "size (live ?c) = size (live c) + 5" using s by (simp add: register_refs)
  from Cons.IH [OF f(1)] show ?case
    using f s l by (cases "ts = []") (auto simp: connector_step_def)
qed simp

text \<open>Sharing the state again without a clean-up leaks: every further call makes five new
  references and forgets the five old ones, and the addresses of the servers pile up, so that a
  measurement may go to a server of an earlier one.\<close>

lemma shares_accumulate:
  assumes "\<forall>n. supply n \<noteq> None" "ts \<noteq> []"
  shows "\<exists>c. connector_run lib (map ShareMeasurementState ts) (getInstance supply) = Inr c \<and>
      size (live c) = 5 * length ts \<and> size (state_refs c) = 5 \<and>
      measurementServerUrl c =
        concat (map (\<lambda>t. case speedServerAddrs t of None \<Rightarrow> [] | Some us \<Rightarrow> us) ts) \<and>
      speedTaskDesc c = java_settings (last ts)"
proof -
  have "refs (getInstance supply) = supply" "live (getInstance supply) = {#}"
    "measurementServerUrl (getInstance supply) = []"
    by (simp_all add: getInstance_def live_def)
  with shares_run [OF assms(1), of "getInstance supply" lib ts] assms(2) show ?thesis by auto
qed

text \<open>A message that arrives after a clean-up is delivered through a null reference.\<close>

lemma delivered_after_cleanup:
  assumes "getJniEnv c e" "getJniEnv c e'"
  shows "connector_callback lib e' p m (unregisterSharedObject e c) = Inl DanglingPointer"
proof -
  have "getJniEnv (unregisterSharedObject e c) e'"
    "speedMeasurementResultClazz (unregisterSharedObject e c) = None"
    using assms by (simp_all add: unregisterSharedObject_def Let_def getJniEnv_def emit_def)
  then show ?thesis by (simp add: connector_callback_def need_def)
qed

end
