(* ===== verification/Android.thy ===== *)
theory Android
  imports Connector
begin

text \<open>
  What the connector hands to Java and what starts there: the numbers of the evaluation
  (\<open>bandwidth_carried\<close>), of the ping (\<open>rtt_carried\<close>) and of the final message
  (\<open>completed_reaches_java\<close>) on their way from \<open>CCallback\<close> through the connector, the live
  state during download and upload, the descriptors of the setters, and the start of a
  measurement from the app's settings. The calls of the setters are the connector's side of the
  interface: each number comes out of the message text unchanged and is put into a box, and a
  reference to that box is the argument. As the setters take primitive numbers
  (\<open>boxed_for_primitive\<close>), what they see is the reference, not the number in the box.
\<close>

section \<open>Numbers are read back as they were printed\<close>

lemma in_order_append:
  "in_order (xs @ ys) = res_bind (in_order xs) (\<lambda>us. res_map ((@) us) (in_order ys))"
proof (induction xs)
  case Nil
  show ?case by (cases "in_order ys") simp_all
next
  case (Cons r rs)
  then show ?case by (cases r; cases "in_order rs"; cases "in_order ys") simp_all
qed

lemma in_order_Inr: "in_order rs = Inr xs \<longleftrightarrow> rs = map Inr xs"
proof (induction rs arbitrary: xs)
  case (Cons r rs)
  then show ?case by (cases xs; cases r) (auto simp: res_simps)
qed auto

text \<open>A number in the message that \<open>std::to_string\<close> printed.\<close>

definition printed :: "json \<Rightarrow> string \<Rightarrow> u64 \<Rightarrow> bool" where
  "printed j k v \<longleftrightarrow> json_at j k = JStr (to_string_u64 v)"

definition fits :: "u64 \<Rightarrow> bool" where
  "fits v \<longleftrightarrow> uint v < 2 ^ 63"

lemma set_long_printed:
  "printed j k v \<Longrightarrow> set_long setter k j =
     (if fits v then Inr (JCall setter ''(J)V'' [JBoxedLong (uint v)]) else Inl OutOfRange)"
  by (simp add: set_long_def printed_def fits_def stoll_to_string_u64)

lemma set_int_printed:
  "json_at j k = JStr (to_string_int n) \<Longrightarrow> - 2147483648 \<le> n \<Longrightarrow> n < 2147483648 \<Longrightarrow>
   set_int setter k j = Inr (JCall setter ''(I)V'' [JBoxedInt n])"
  by (simp add: set_int_def stoll_to_string_int i32_id)

definition bandwidth_values :: "'c lib \<Rightarrow> step_acc \<Rightarrow> u64 \<Rightarrow> (string \<times> u64) list" where
  "bandwidth_values lib a seconds =
     (let m = aggregate_data lib a seconds
      in [(''setBytes'', datasize m div 8), (''setBytesDistinct'', bytes_distinct_aggregate a),
          (''setBytesTotal'', datasize_total m div 8), (''setBytesSlowStart'', datasize_slow_start m div 8),
          (''setDurationNs'', duration_ns m), (''setDurationNsDistinct'', 500000000),
          (''setDurationNsTotal'', totaltime m),
          (''setRelativeTimeNsMeasurementStart'', relative_time_ns_measurement_start a),
          (''setThroughputAvgBps'', avg m)])"

definition streams_at_end :: "string \<Rightarrow> 'c lib \<Rightarrow> step_acc \<Rightarrow> u64 \<Rightarrow> int" where
  "streams_at_end cmd lib a seconds =
     (if cmd = ''finish'' \<and> measurement_phase_progress (aggregate_data lib a seconds) = 1
      then agg_streams a else 0)"

lemma bandwidth_calls:
  assumes "- 2147483648 \<le> conf_instances w" "conf_instances w < 2147483648"
    "- 2147483648 \<le> agg_streams a" "agg_streams a < 2147483648"
  shows "setBandwidthResult (JObj (step_object lib cmd seconds a w)) =
    (if list_all (\<lambda>(k, v). fits v) (bandwidth_values lib a seconds)
     then Inr (map (\<lambda>(setter, v). JCall setter ''(J)V'' [JBoxedLong (uint v)]) (bandwidth_values lib a seconds) @
        [JCall ''setNumStreamsEnd'' ''(I)V'' [JBoxedInt (streams_at_end cmd lib a seconds)],
         JCall ''setNumStreamsStart'' ''(I)V'' [JBoxedInt (conf_instances w)],
         JCall ''setProgress'' ''(F)V''
           [JBoxedFloat (measurement_phase_progress (aggregate_data lib a seconds))]])
     else Inl OutOfRange)"
proof -
  let ?j = "JObj (step_object lib cmd seconds a w)"
  let ?m = "aggregate_data lib a seconds"
  have n: "to_string_u64 500000000 = ''500000000''"
    by (simp add: to_string_u64_def dec_nat.simps digit_chr_def char_of_def bit_0)
  have z: "to_string_int 0 = ''0''"
    by (simp add: to_string_int_def dec_nat.simps digit_chr_def char_of_def bit_0)
  note d = printed_def json_at_def step_object_def getMeasurementResultsAggregate_def
  have p: "printed ?j ''bytes'' (datasize ?m div 8)" "printed ?j ''bytes_distinct'' (bytes_distinct_aggregate a)"
    "printed ?j ''bytes_total'' (datasize_total ?m div 8)"
    "printed ?j ''bytes_slow_start'' (datasize_slow_start ?m div 8)"
    "printed ?j ''duration_ns'' (duration_ns ?m)" "printed ?j ''duration_ns_distinct'' 500000000"
    "printed ?j ''duration_ns_total'' (totaltime ?m)"
    "printed ?j ''relative_time_ns_measurement_start'' (relative_time_ns_measurement_start a)"
    "printed ?j ''throughput_avg_bps'' (avg ?m)"
    by (simp_all add: d obj_at_def jo.get_put n)
  have e: "json_at ?j ''num_streams_end'' = JStr (to_string_int (streams_at_end cmd lib a seconds))"
    "json_at ?j ''num_streams_start'' = JStr (to_string_int (conf_instances w))"
    "json_at ?j ''progress'' = JNum (measurement_phase_progress ?m)"
    by (simp_all add: d obj_at_def jo.get_put streams_at_end_def z)
  have r: "- 2147483648 \<le> streams_at_end cmd lib a seconds" "streams_at_end cmd lib a seconds < 2147483648"
    using assms(3,4) by (simp_all add: streams_at_end_def)
  note s = p [THEN set_long_printed] set_int_printed [OF e(1) r] set_int_printed [OF e(2) assms(1,2)]
  show ?thesis
    by (simp add: setBandwidthResult_def s set_float_def e(3) bandwidth_values_def Let_def)
qed

text \<open>C30: For the result of a half second the connector makes one setter call per field, and the box
  whose reference it passes holds exactly the number that was counted: printing with \<open>std::to_string\<close>
  and reading with \<open>stoll\<close> or \<open>stoi\<close> loses nothing. A number that is no \<open>long long\<close> makes the
  delivery throw \<open>std::out_of_range\<close>. The setters are declared for primitive numbers, so what Java
  gets is the reference to the box and not its contents.\<close>

theorem bandwidth_carried:
  assumes "- 2147483648 \<le> conf_instances w" "conf_instances w < 2147483648"
    "- 2147483648 \<le> agg_streams a" "agg_streams a < 2147483648"
  shows "setBandwidthResult (JObj (step_object lib cmd seconds a w)) =
    (if list_all (\<lambda>(k, v). fits v) (bandwidth_values lib a seconds)
     then Inr (map (\<lambda>(setter, v). JCall setter ''(J)V'' [JBoxedLong (uint v)]) (bandwidth_values lib a seconds) @
        [JCall ''setNumStreamsEnd'' ''(I)V'' [JBoxedInt (streams_at_end cmd lib a seconds)],
         JCall ''setNumStreamsStart'' ''(I)V'' [JBoxedInt (conf_instances w)],
         JCall ''setProgress'' ''(F)V''
           [JBoxedFloat (measurement_phase_progress (aggregate_data lib a seconds))]])
     else Inl OutOfRange)"
  using assms by (rule bandwidth_calls)

definition rtt_values :: "measurement_data \<Rightarrow> (string \<times> u64) list" where
  "rtt_values m =
     [(''setAverageNs'', avg m * 1000), (''setDurationNs'', totaltime m * 1000),
      (''setMaxNs'', data_max m * 1000), (''setMedianNs'', median_ns m), (''setMinNs'', data_min m * 1000)]"

definition rtt_counts :: "measurement_data \<Rightarrow> (string \<times> int) list" where
  "rtt_counts m =
     [(''setNumError'', errors m), (''setNumMissing'', missing m), (''setNumReceived'', replies m),
      (''setNumSent'', requests m), (''setPacketSize'', packetsize m)]"

definition single_rtt :: "imap \<Rightarrow> int \<Rightarrow> real \<Rightarrow> jcall" where
  "single_rtt stamps i r = JCall ''addSingleRtt'' ''(JJ)V''
     [boxed_or_null (truncate (r * 1000)), JBoxedLong (uint (imap_at stamps i))]"

text \<open>The round trip times that the 1 s time-out of the socket allows.\<close>

definition rtt_fits :: "real \<Rightarrow> bool" where
  "rtt_fits r \<longleftrightarrow> 0 \<le> r \<and> r * 1000 < 2147483648"

lemma add_rtt_entry:
  assumes "rtt_fits r" "fits s"
  shows "add_rtt (JObj [(''rtt_ns'', JNum (r * 1000)),
           (''relative_time_ns_measurement_start'', JStr (to_string_u64 s))]) =
     Inr (JCall ''addSingleRtt'' ''(JJ)V'' [boxed_or_null (truncate (r * 1000)), JBoxedLong (uint s)])"
proof -
  have "0 \<le> r * 1000" "r * 1000 < 2147483648" using assms(1) by (simp_all add: rtt_fits_def)
  then have t: "\<not> truncate (r * 1000) < - 2147483648" "\<not> 2147483648 \<le> truncate (r * 1000)"
    by (simp_all add: truncate_def)
  have "uint s \<noteq> - 1" using uint_ge_0 [of s] by linarith
  then show ?thesis
    using t assms(2)
    by (simp add: add_rtt_def json_at_def obj_at_def is_number_def is_string_def int_value_def
        stoll_to_string_u64 fits_def boxed_or_null_def)
qed

lemma add_rtt_list:
  assumes "\<forall>r\<in>set rtts. rtt_fits r" "\<And>i. fits (imap_at stamps i)"
  shows "in_order (map add_rtt (rtt_list stamps n rtts)) =
     Inr (map (\<lambda>i. single_rtt stamps (n + int i) (rtts ! i)) [0..<length rtts])"
  using assms(1)
proof (induction rtts arbitrary: n)
  case (Cons r rtts)
  have "in_order (map add_rtt (rtt_list stamps (n + 1) rtts)) =
     Inr (map (\<lambda>i. single_rtt stamps (n + 1 + int i) (rtts ! i)) [0..<length rtts])"
    using Cons by simp
  then show ?case
    using Cons.prems add_rtt_entry [OF _ assms(2), of r n]
    by (simp add: single_rtt_def add.assoc map_upt_Suc del: upt_Suc)
qed simp

lemma rtt_calls:
  assumes "list_all (\<lambda>(k, v). fits v) (rtt_values m)" "fits (standard_deviation_ns m)"
    "list_all (\<lambda>(k, n). - 2147483648 \<le> n \<and> n < 2147483648) (rtt_counts m)"
    "\<forall>r\<in>set (interim_values m). rtt_fits r" "\<And>i. fits (imap_at stamps i)"
  shows "rtt_result (JObj (rtt_object m (rtt_list stamps 1 (interim_values m)))) =
    Inr (map (\<lambda>(setter, v). JCall setter ''(J)V'' [JBoxedLong (uint v)]) (rtt_values m) @
         map (\<lambda>(setter, n). JCall setter ''(I)V'' [JBoxedInt n]) (rtt_counts m) @
         [JCall ''setPeer'' ''(Ljava/lang/String;)V'' [JString ''''],
          JCall ''setProgress'' ''(F)V'' [JBoxedFloat (measurement_phase_progress m)],
          JCall ''setStandardDeviationNs'' ''(J)V'' [JBoxedLong (uint (standard_deviation_ns m))]] @
         map (\<lambda>i. single_rtt stamps (1 + int i) (interim_values m ! i)) [0..<length (interim_values m)])"
proof -
  let ?j = "JObj (rtt_object m (rtt_list stamps 1 (interim_values m)))"
  have p: "printed ?j ''average_ns'' (avg m * 1000)" "printed ?j ''duration_ns'' (totaltime m * 1000)"
    "printed ?j ''max_ns'' (data_max m * 1000)" "printed ?j ''median_ns'' (median_ns m)"
    "printed ?j ''min_ns'' (data_min m * 1000)"
    "printed ?j ''standard_deviation_ns'' (standard_deviation_ns m)"
    by (simp_all add: printed_def json_at_def rtt_object_def obj_at_def)
  have i: "json_at ?j ''num_error'' = JStr (to_string_int (errors m))"
    "json_at ?j ''num_missing'' = JStr (to_string_int (missing m))"
    "json_at ?j ''num_received'' = JStr (to_string_int (replies m))"
    "json_at ?j ''num_sent'' = JStr (to_string_int (requests m))"
    "json_at ?j ''packet_size'' = JStr (to_string_int (packetsize m))"
    by (simp_all add: json_at_def rtt_object_def obj_at_def)
  have o: "json_at ?j ''peer'' = JNull" "json_at ?j ''progress'' = JNum (measurement_phase_progress m)"
    "json_at ?j ''rtts'' = JArr (rtt_list stamps 1 (interim_values m))"
    by (simp_all add: json_at_def rtt_object_def obj_at_def)
  note l = p [THEN set_long_printed] i [THEN set_int_printed]
  show ?thesis
    using assms(1-3) add_rtt_list [OF assms(4,5), of 1]
    by (simp add: rtt_result_def in_order_append l set_float_def set_text_def o rtt_values_def rtt_counts_def)
qed

text \<open>C37: For the RTT result the connector makes one setter call per field and one \<open>addSingleRtt\<close> per
  round trip; the boxes whose references it passes hold exactly the counts and statistics of the ping,
  and for entry n its round trip time in nanoseconds and its stamp. As the setters are declared for
  primitive numbers, what Java gets is the reference to a box and not its contents. The peer is always
  the empty string: the key \<open>peer\<close> that the connector reads is never written.\<close>

theorem rtt_carried:
  assumes "list_all (\<lambda>(k, v). fits v) (rtt_values m)" "fits (standard_deviation_ns m)"
    "list_all (\<lambda>(k, n). - 2147483648 \<le> n \<and> n < 2147483648) (rtt_counts m)"
    "\<forall>r\<in>set (interim_values m). rtt_fits r" "\<And>i. fits (imap_at stamps i)"
  shows "rtt_result (JObj (rtt_object m (rtt_list stamps 1 (interim_values m)))) =
    Inr (map (\<lambda>(setter, v). JCall setter ''(J)V'' [JBoxedLong (uint v)]) (rtt_values m) @
         map (\<lambda>(setter, n). JCall setter ''(I)V'' [JBoxedInt n]) (rtt_counts m) @
         [JCall ''setPeer'' ''(Ljava/lang/String;)V'' [JString ''''],
          JCall ''setProgress'' ''(F)V'' [JBoxedFloat (measurement_phase_progress m)],
          JCall ''setStandardDeviationNs'' ''(J)V'' [JBoxedLong (uint (standard_deviation_ns m))]] @
         map (\<lambda>i. single_rtt stamps (1 + int i) (interim_values m ! i)) [0..<length (interim_values m)])"
  using assms by (rule rtt_calls)

section \<open>Times\<close>

definition time_keys :: "string list" where
  "time_keys = [''download_start'', ''download_end'', ''rtt_udp_start'', ''rtt_udp_end'',
     ''upload_start'', ''upload_end'']"

definition time_ok :: "json \<Rightarrow> bool" where
  "time_ok j \<longleftrightarrow> (\<forall>k\<in>set time_keys. json_at j k = JNull \<or> (\<exists>v. printed j k v \<and> fits v))"

lemma time_setter_ok:
  assumes "json_at j k = JNull \<or> (\<exists>v. printed j k v \<and> fits v)"
  shows "\<exists>calls. in_order (time_setter box setter k j) = Inr calls"
  using assms
  by (auto simp: time_setter_def printed_def is_string_def stoll_to_string_u64 fits_def)

lemma time_result_ok: "time_ok j \<Longrightarrow> \<exists>calls. time_result j = Inr calls"
proof -
  assume "time_ok j"
  then have k: "k \<in> set time_keys \<Longrightarrow> \<exists>calls. in_order (time_setter box setter k j) = Inr calls"
    for k box setter
    by (intro time_setter_ok) (simp add: time_ok_def)
  have "\<exists>calls. in_order (concat (map (\<lambda>(box, setter, k). time_setter box setter k j) ts)) = Inr calls"
    if "\<forall>(box, setter, k)\<in>set ts. k \<in> set time_keys" for ts
    using that
  proof (induction ts)
    case (Cons t ts)
    obtain box setter key where t: "t = (box, setter, key)" by (cases t)
    then show ?case using Cons k [of key box setter] by (auto simp: in_order_append)
  qed simp
  from this [of "[(JLong, ''setDownloadStart'', ''download_start''),
      (JBoxedLong, ''setDownloadEnd'', ''download_end''), (JBoxedLong, ''setRttUdpStart'', ''rtt_udp_start''),
      (JBoxedLong, ''setRttUdpEnd'', ''rtt_udp_end''), (JBoxedLong, ''setUploadStart'', ''upload_start''),
      (JBoxedLong, ''setUploadEnd'', ''upload_end'')]"]
  show ?thesis by (simp add: time_result_def time_keys_def)
qed

section \<open>The final message\<close>

text \<open>How the callback object's events reach the connector.\<close>

fun deliver_events ::
  "'c lib \<Rightarrow> jvm_answer \<Rightarrow> MeasurementPhase \<Rightarrow> out_event list \<Rightarrow> connector \<Rightarrow> fault + connector" where
  "deliver_events lib e p [] c = Inr c"
| "deliver_events lib e p (ev # evs) c =
     res_bind
       (case ev of
          PlatformCallback m \<Rightarrow> connector_step lib (Deliver e p m) c
        | PlatformFinished m \<Rightarrow> connector_step lib (DeliverFinished e m) c
        | _ \<Rightarrow> Inr c)
       (deliver_events lib e p evs)"

definition ready :: "connector \<Rightarrow> jvm_answer \<Rightarrow> bool" where
  "ready c e \<longleftrightarrow> getJniEnv c e \<and> speedMeasurementResultClazz c \<noteq> None \<and> resultUdpClazz c \<noteq> None \<and>
     resultBandwidthClazz c \<noteq> None \<and> timeClazz c \<noteq> None \<and> jniCaller c \<noteq> None \<and>
     baseMeasurementState c \<noteq> None"

text \<open>Results as the callback object publishes them, with numbers that fit a \<open>long long\<close>.\<close>

definition bandwidth_ok :: "'c lib \<Rightarrow> json \<Rightarrow> bool" where
  "bandwidth_ok lib j \<longleftrightarrow> (\<exists>cmd seconds a w. j = JObj (step_object lib cmd seconds a (w :: 'c world)) \<and>
     - 2147483648 \<le> conf_instances w \<and> conf_instances w < 2147483648 \<and>
     - 2147483648 \<le> agg_streams a \<and> agg_streams a < 2147483648 \<and>
     list_all (\<lambda>(k, v). fits v) (bandwidth_values lib a seconds))"

definition rtt_ok :: "jobject \<Rightarrow> bool" where
  "rtt_ok r \<longleftrightarrow> (\<exists>m stamps. r = rtt_object m (rtt_list stamps 1 (interim_values m)) \<and>
     list_all (\<lambda>(k, v). fits v) (rtt_values m) \<and> fits (standard_deviation_ns m) \<and>
     list_all (\<lambda>(k, n). - 2147483648 \<le> n \<and> n < 2147483648) (rtt_counts m) \<and>
     (\<forall>r\<in>set (interim_values m). rtt_fits r) \<and> (\<forall>i. fits (imap_at stamps i)))"

definition results_ok :: "'c lib \<Rightarrow> 'c world \<Rightarrow> bool" where
  "results_ok lib w \<longleftrightarrow>
     (\<forall>j\<in>set (jMeasurementResultsDownload w @ jMeasurementResultsUpload w). bandwidth_ok lib j) \<and>
     (jMeasurementResultsRttUdp w = [] \<or> rtt_ok (jMeasurementResultsRttUdp w)) \<and>
     time_ok (JObj (jMeasurementResultsTime w))"

lemma bandwidth_ok_calls: "bandwidth_ok lib j \<Longrightarrow> \<exists>calls. setBandwidthResult j = Inr calls"
  by (auto simp: bandwidth_ok_def bandwidth_calls)

lemma rtt_ok_calls: "rtt_ok r \<Longrightarrow> \<exists>calls. rtt_result (JObj r) = Inr calls"
  by (auto simp: rtt_ok_def rtt_calls)

fun method_of :: "jcall \<Rightarrow> string" where
  "method_of (JCall method d args) = method"

definition calls_of :: "string \<Rightarrow> jcall list \<Rightarrow> jcall list" where
  "calls_of method calls = filter (\<lambda>x. method_of x = method) calls"

lemma in_order_map:
  assumes "\<forall>x\<in>set xs. \<exists>y. f x = Inr y"
  shows "\<exists>ys. in_order (map f xs) = Inr ys \<and> length ys = length xs \<and> (\<forall>y\<in>set ys. \<exists>x. f x = Inr y)"
  using assms
proof (induction xs)
  case (Cons x xs)
  then obtain y ys where "f x = Inr y" "in_order (map f xs) = Inr ys" "length ys = length xs"
    "\<forall>y\<in>set ys. \<exists>x. f x = Inr y" by auto
  then show ?case by auto
qed simp

lemma finished_speed_ok:
  assumes "\<forall>j\<in>set js. bandwidth_ok lib j" "resultBandwidthClazz c \<noteq> None"
    "j = (if js = [] then JNull else JArr js)"
  shows "\<exists>calls. finished_speed method j c = Inr calls \<and> length calls = length js \<and>
    (\<forall>x\<in>set calls. method_of x = method)"
proof (cases "js = []")
  case False
  have "\<forall>j\<in>set js. \<exists>y. add_bandwidth method j = Inr y"
    using assms(1) bandwidth_ok_calls by (fastforce simp: add_bandwidth_def)
  from in_order_map [OF this] obtain ys where "in_order (map (add_bandwidth method) js) = Inr ys"
    "length ys = length js" "\<forall>y\<in>set ys. \<exists>x. add_bandwidth method x = Inr y" by blast
  then show ?thesis
    using False assms(2,3)
    by (auto simp: finished_speed_def is_array_def need_def add_bandwidth_def res_simps)
qed (use assms(3) in \<open>simp add: finished_speed_def is_array_def\<close>)

lemma finished_rtt_ok:
  assumes "r = [] \<or> rtt_ok r" "resultUdpClazz c \<noteq> None" "j = (if r = [] then JNull else JObj r)"
  shows "\<exists>calls. finished_rtt j c = Inr calls \<and> length calls = (if r = [] then 0 else 1) \<and>
    (\<forall>x\<in>set calls. method_of x = ''setRttUdpResult'')"
proof (cases "r = []")
  case False
  then obtain calls where "rtt_result (JObj r) = Inr calls" using assms(1) rtt_ok_calls by blast
  with False assms(2,3) show ?thesis by (auto simp: finished_rtt_def is_object_def need_def)
qed (use assms(3) in \<open>simp add: finished_rtt_def is_object_def\<close>)

lemma finished_time_ok:
  assumes "time_ok (JObj r)" "timeClazz c \<noteq> None" "j = (if r = [] then JNull else JObj r)"
  shows "\<exists>calls. finished_time j c = Inr calls \<and> (\<forall>x\<in>set calls. method_of x = ''setTimeInfo'')"
proof (cases "r = []")
  case False
  obtain calls where "time_result (JObj r) = Inr calls" using assms(1) time_result_ok by blast
  with False assms(2,3) show ?thesis by (auto simp: finished_time_def is_object_def need_def)
qed (use assms(3) in \<open>simp add: finished_time_def is_object_def\<close>)

lemma platform_message_at:
  "obj_at (platform_message cmd msg code descr w) ''rtt_udp_info'' =
     (if jMeasurementResultsRttUdp w = [] then JNull else JObj (jMeasurementResultsRttUdp w))"
  "obj_at (platform_message cmd msg code descr w) ''download_info'' =
     (if jMeasurementResultsDownload w = [] then JNull else JArr (jMeasurementResultsDownload w))"
  "obj_at (platform_message cmd msg code descr w) ''upload_info'' =
     (if jMeasurementResultsUpload w = [] then JNull else JArr (jMeasurementResultsUpload w))"
  "obj_at (platform_message cmd msg code descr w) ''time_info'' =
     (if jMeasurementResultsTime w = [] then JNull else JObj (jMeasurementResultsTime w))"
  by (simp_all add: platform_message_def put_obj_def put_arr_def Let_def) (auto simp: obj_at_def)

lemma finished_calls:
  assumes "ready c e" "results_ok lib w" and m_def: "m = platform_message cmd msg code descr w"
  shows "\<exists>res. callbackFinished lib e m c = Inr (finished_message m, emit
        [CallVoid (the (jniCaller c)) (JCall ''cppCallbackFinished''
           ''(Ljava/lang/String;Lcom/zafaco/moduleSpeed/models/speed/JniSpeedMeasurementResult;)V''
           [JString (json_dump lib (JObj (finished_message m))), JNew ''JniSpeedMeasurementResult'' res]),
         SetFloat (the (baseMeasurementState c)) ''progress'' 1,
         set_phase (the (baseMeasurementState c)) END] c) \<and>
      length (calls_of ''addDownloadInfo'' res) = length (jMeasurementResultsDownload w) \<and>
      length (calls_of ''addUploadInfo'' res) = length (jMeasurementResultsUpload w) \<and>
      length (calls_of ''setRttUdpResult'' res) = (if jMeasurementResultsRttUdp w = [] then 0 else 1)"
proof -
  have r: "getJniEnv c e" "speedMeasurementResultClazz c \<noteq> None" "resultUdpClazz c \<noteq> None"
    "resultBandwidthClazz c \<noteq> None" "timeClazz c \<noteq> None" "jniCaller c \<noteq> None"
    "baseMeasurementState c \<noteq> None"
    using assms(1) by (simp_all add: ready_def)
  have at: "obj_at m ''rtt_udp_info'' =
     (if jMeasurementResultsRttUdp w = [] then JNull else JObj (jMeasurementResultsRttUdp w))"
    "obj_at m ''download_info'' =
     (if jMeasurementResultsDownload w = [] then JNull else JArr (jMeasurementResultsDownload w))"
    "obj_at m ''upload_info'' =
     (if jMeasurementResultsUpload w = [] then JNull else JArr (jMeasurementResultsUpload w))"
    "obj_at m ''time_info'' =
     (if jMeasurementResultsTime w = [] then JNull else JObj (jMeasurementResultsTime w))"
    unfolding m_def by (rule platform_message_at)+
  have k: "\<forall>j\<in>set (jMeasurementResultsDownload w). bandwidth_ok lib j"
    "\<forall>j\<in>set (jMeasurementResultsUpload w). bandwidth_ok lib j"
    "jMeasurementResultsRttUdp w = [] \<or> rtt_ok (jMeasurementResultsRttUdp w)"
    "time_ok (JObj (jMeasurementResultsTime w))"
    using assms(2) by (simp_all add: results_ok_def)
  obtain rtt where rtt: "finished_rtt (obj_at m ''rtt_udp_info'') c = Inr rtt"
    "length rtt = (if jMeasurementResultsRttUdp w = [] then 0 else 1)"
    "\<forall>x\<in>set rtt. method_of x = ''setRttUdpResult''"
    using finished_rtt_ok [OF k(3) r(3) at(1)] by blast
  obtain dl where dl: "finished_speed ''addDownloadInfo'' (obj_at m ''download_info'') c = Inr dl"
    "length dl = length (jMeasurementResultsDownload w)" "\<forall>x\<in>set dl. method_of x = ''addDownloadInfo''"
    using finished_speed_ok [OF k(1) r(4) at(2), of "''addDownloadInfo''"] by blast
  obtain ul where ul: "finished_speed ''addUploadInfo'' (obj_at m ''upload_info'') c = Inr ul"
    "length ul = length (jMeasurementResultsUpload w)" "\<forall>x\<in>set ul. method_of x = ''addUploadInfo''"
    using finished_speed_ok [OF k(2) r(4) at(3), of "''addUploadInfo''"] by blast
  obtain ti where ti: "finished_time (obj_at m ''time_info'') c = Inr ti"
    "\<forall>x\<in>set ti. method_of x = ''setTimeInfo''"
    using finished_time_ok [OF k(4) r(5) at(4)] by blast
  let ?peer = "finished_peer (obj_at m ''peer_info'')"
  have peer: "\<forall>x\<in>set ?peer. method_of x = ''setMeasurementServerIp''"
    by (simp add: finished_peer_def java_void_def)
  let ?res = "rtt @ dl @ ul @ ti @ ?peer"
  have f: "calls_of k xs = (if k = k' then xs else [])" if "\<forall>x\<in>set xs. method_of x = k'" for k k' xs
    using that by (induction xs) (auto simp: calls_of_def)
  have a: "calls_of k (xs @ ys) = calls_of k xs @ calls_of k ys" for k xs ys by (simp add: calls_of_def)
  have l: "length (calls_of ''addDownloadInfo'' ?res) = length (jMeasurementResultsDownload w)"
    "length (calls_of ''addUploadInfo'' ?res) = length (jMeasurementResultsUpload w)"
    "length (calls_of ''setRttUdpResult'' ?res) = (if jMeasurementResultsRttUdp w = [] then 0 else 1)"
    by (simp_all add: a f [OF rtt(3)] f [OF dl(3)] f [OF ul(3)] f [OF ti(2)] f [OF peer] rtt(2) dl(2) ul(2))
  obtain k cl b where s: "speedMeasurementResultClazz c = Some k" "jniCaller c = Some cl"
    "baseMeasurementState c = Some b" using r by blast
  have "callbackFinished lib e m c = Inr (finished_message m, emit
        [CallVoid (the (jniCaller c)) (JCall ''cppCallbackFinished''
           ''(Ljava/lang/String;Lcom/zafaco/moduleSpeed/models/speed/JniSpeedMeasurementResult;)V''
           [JString (json_dump lib (JObj (finished_message m))), JNew ''JniSpeedMeasurementResult'' ?res]),
         SetFloat (the (baseMeasurementState c)) ''progress'' 1,
         set_phase (the (baseMeasurementState c)) END] c)"
    by (simp add: callbackFinished_def r(1) need_def s rtt(1) dl(1) ul(1) ti(1) Let_def)
  with l show ?thesis by blast
qed

text \<open>C29: The message \<open>completed\<close> of a measurement whose numbers fit reaches Java: the callback
  gets the final result with one entry per half second of download and upload and the RTT result,
  the progress is 1 and the phase END. No exception is thrown on the way.\<close>

theorem completed_reaches_java:
  assumes "target lib = Android" "ready c e" "results_ok lib w"
  shows "\<exists>evs c' res msg_object.
      out (callbackToPlatform lib ''completed'' msg code descr (w\<lparr>currentTestPhase := END\<rparr>)) = out w @ evs \<and>
      deliver_events lib e END evs c = Inr c' \<and>
      jni c' = jni c @ set_phase (the (baseMeasurementState c)) END #
        callback_calls lib (the (jniCaller c)) msg_object @
        [CallVoid (the (jniCaller c)) (JCall ''cppCallbackFinished''
           ''(Ljava/lang/String;Lcom/zafaco/moduleSpeed/models/speed/JniSpeedMeasurementResult;)V''
           [JString (json_dump lib (JObj (finished_message msg_object))), JNew ''JniSpeedMeasurementResult'' res]),
         SetFloat (the (baseMeasurementState c)) ''progress'' 1,
         set_phase (the (baseMeasurementState c)) END] \<and>
      length (calls_of ''addDownloadInfo'' res) = length (jMeasurementResultsDownload w) \<and>
      length (calls_of ''addUploadInfo'' res) = length (jMeasurementResultsUpload w) \<and>
      length (calls_of ''setRttUdpResult'' res) = (if jMeasurementResultsRttUdp w = [] then 0 else 1)"
proof -
  let ?w = "w\<lparr>currentTestPhase := END\<rparr>"
  let ?m = "platform_message ''completed'' msg code descr ?w"
  let ?c = "emit (set_phase (the (baseMeasurementState c)) END # callback_calls lib (the (jniCaller c)) ?m) c"
  obtain k cl b where s: "getJniEnv c e" "speedMeasurementResultClazz c = Some k" "jniCaller c = Some cl"
    "baseMeasurementState c = Some b" using assms(2) by (auto simp: ready_def)
  have cb: "connector_callback lib e END ?m c = Inr (?m, ?c)"
    by (simp add: connector_callback_def s need_def phase_key_def callback_calls_def)
  have rc: "ready ?c e" using assms(2) by (simp add: ready_def emit_def getJniEnv_def)
  have rw: "results_ok lib ?w" using assms(3) by (simp add: results_ok_def)
  obtain res where fin: "callbackFinished lib e ?m ?c = Inr (finished_message ?m, emit
        [CallVoid (the (jniCaller ?c)) (JCall ''cppCallbackFinished''
           ''(Ljava/lang/String;Lcom/zafaco/moduleSpeed/models/speed/JniSpeedMeasurementResult;)V''
           [JString (json_dump lib (JObj (finished_message ?m))), JNew ''JniSpeedMeasurementResult'' res]),
         SetFloat (the (baseMeasurementState ?c)) ''progress'' 1,
         set_phase (the (baseMeasurementState ?c)) END] ?c)"
    and l: "length (calls_of ''addDownloadInfo'' res) = length (jMeasurementResultsDownload ?w)"
      "length (calls_of ''addUploadInfo'' res) = length (jMeasurementResultsUpload ?w)"
      "length (calls_of ''setRttUdpResult'' res) = (if jMeasurementResultsRttUdp ?w = [] then 0 else 1)"
    using finished_calls [OF rc rw, of ?m "''completed''" msg code descr] by blast
  have ev: "platform_events lib ''completed'' ?m ?w = [PlatformCallback ?m, PlatformFinished ?m, DetachThread]"
    using assms(1) by (simp add: platform_events_def)
  have "out (callbackToPlatform lib ''completed'' msg code descr ?w) =
      out w @ [PlatformCallback ?m, PlatformFinished ?m, DetachThread]"
    by (simp add: callbackToPlatform_def Let_def ev)
  moreover have "deliver_events lib e END [PlatformCallback ?m, PlatformFinished ?m, DetachThread] c =
      Inr (emit
        [CallVoid (the (jniCaller ?c)) (JCall ''cppCallbackFinished''
           ''(Ljava/lang/String;Lcom/zafaco/moduleSpeed/models/speed/JniSpeedMeasurementResult;)V''
           [JString (json_dump lib (JObj (finished_message ?m))), JNew ''JniSpeedMeasurementResult'' res]),
         SetFloat (the (baseMeasurementState ?c)) ''progress'' 1,
         set_phase (the (baseMeasurementState ?c)) END] ?c)"
    by (simp only: deliver_events.simps connector_step_def connector_op.case out_event.case cb fin
        res_map_simps res_bind_simps snd_conv)
  ultimately show ?thesis
    using l by (intro exI [where x = "[PlatformCallback ?m, PlatformFinished ?m, DetachThread]"] exI [where x = res]
        exI [where x = ?m] exI conjI) (assumption | simp add: emit_def)+
qed

section \<open>Live state\<close>

lemma connector_callback_phase:
  assumes "phase_key p = Some k" "getJniEnv c e" "speedMeasurementResultClazz c \<noteq> None"
    "baseMeasurementState c = Some base" "jniCaller c = Some caller"
    "live_state p (obj_at m k) (emit [set_phase base p] c) = Inr (emit evs (emit [set_phase base p] c))"
  shows "connector_callback lib e p m c = Inr (obj_touch k m,
    emit (set_phase base p # evs @ callback_calls lib caller (obj_touch k m)) c)"
proof -
  obtain r where "speedMeasurementResultClazz c = Some r" using assms(3) by blast
  then show ?thesis
    using assms by (simp add: connector_callback_def callback_calls_def need_def del: emit_emit)
      (simp add: callback_calls_def)
qed

text \<open>While download or upload runs, every callback sets the throughput of the latest half
  second on that test's state object and its progress on the base object; before the first result
  the progress is zero. A missing download object is replaced by the upload's.\<close>

lemma live_throughput:
  assumes "p = PhaseDOWNLOAD \<and> rs = jMeasurementResultsDownload w \<or>
      p = PhaseUPLOAD \<and> rs = jMeasurementResultsUpload w"
    "getJniEnv c e" "speedMeasurementResultClazz c \<noteq> None" "baseMeasurementState c = Some base"
    "jniCaller c = Some caller" "throughput_target p c = Some target_object"
    "rs = [] \<or> last rs = JObj (step_object lib cmd seconds a u) \<and> fits (avg (aggregate_data lib a seconds))"
  shows "\<exists>m. connector_callback lib e p (platform_message cmd' msg code descr w) c =
    Inr (m, emit (set_phase base p #
      (if rs = [] then [SetFloat base ''progress'' 0]
       else [SetLong target_object ''throughputAvgBps'' (uint (avg (aggregate_data lib a seconds))),
             SetFloat base ''progress'' (measurement_phase_progress (aggregate_data lib a seconds))]) @
      callback_calls lib caller m) c)"
proof -
  let ?m = "platform_message cmd' msg code descr w"
  let ?c = "emit [set_phase base p] c"
  let ?r = "aggregate_data lib a seconds"
  have p: "p \<noteq> PING" "p = PhaseDOWNLOAD \<or> p = PhaseUPLOAD" "phase_key p \<noteq> None"
    using assms(1) by (auto simp: phase_key_def)
  then obtain k where k: "phase_key p = Some k" by blast
  have j: "obj_at ?m k = (if rs = [] then JNull else JArr rs)"
    using assms(1) k by (auto simp: phase_key_def platform_message_at)
  have t: "throughput_target p ?c = Some target_object"
    using assms(6) by (cases "p = PhaseDOWNLOAD") (simp_all add: throughput_target_def Let_def split: if_splits)
  let ?evs = "if rs = [] then [SetFloat base ''progress'' 0]
       else [SetLong target_object ''throughputAvgBps'' (uint (avg ?r)),
             SetFloat base ''progress'' (measurement_phase_progress ?r)]"
  have "live_state p (if rs = [] then JNull else JArr rs) ?c = Inr (emit ?evs ?c)"
  proof (cases "rs = []")
    case True
    then show ?thesis using p assms(4) by (simp add: live_state_def is_array_def no_progress_def need_def)
  next
    case False
    then have l: "last rs = JObj (step_object lib cmd seconds a u)" and f: "fits (avg ?r)"
      using assms(7) by auto
    have "json_at (last rs) ''throughput_avg_bps'' = JStr (to_string_u64 (avg ?r))"
      "json_at (last rs) ''progress'' = JNum (measurement_phase_progress ?r)"
      by (simp_all add: l json_at_def step_object_def getMeasurementResultsAggregate_def obj_at_def jo.get_put)
    then have "passJniSpeedState p (last rs) ?c = Inr (emit ?evs ?c)"
      using False p(1,2) f t assms(4)
      by (simp add: passJniSpeedState_def speed_switch_def is_string_def is_number_def
          stoll_to_string_u64 fits_def need_def)
    with False p show ?thesis by (simp add: live_state_def is_array_def last_item_def)
  qed
  from connector_callback_phase [OF k assms(2-5) this [folded j]] show ?thesis by blast
qed

section \<open>Arguments and descriptors\<close>

text \<open>
  The kinds of the parameters in a method descriptor: true for a reference. A call matches its
  descriptor when the arguments have these kinds; surplus arguments are ignored.
\<close>

function parameter_kinds :: "string \<Rightarrow> bool list" where
  "parameter_kinds [] = []"
| "parameter_kinds (ch # chs) =
     (if ch = CHR '')'' then []
      else if ch = CHR ''L'' then True # parameter_kinds (tl (dropWhile (\<lambda>x. x \<noteq> CHR '';'') chs))
      else False # parameter_kinds chs)"
  by pat_completeness auto
termination
proof (relation "measure length")
  fix ch :: char and chs :: string
  have "length (dropWhile (\<lambda>x. x \<noteq> CHR '';'') chs) \<le> length chs" by (rule length_dropWhile_le)
  then show "(tl (dropWhile (\<lambda>x. x \<noteq> CHR '';'') chs), ch # chs) \<in> measure length" by simp
qed auto

definition is_reference :: "jarg \<Rightarrow> bool" where
  "is_reference x \<longleftrightarrow> (case x of JLong _ \<Rightarrow> False | _ \<Rightarrow> True)"

fun call_matches :: "jcall \<Rightarrow> bool" where
  "call_matches (JCall method descr args) \<longleftrightarrow>
     (let ks = parameter_kinds (tl descr) in take (length ks) (map is_reference args) = ks)"

lemma used_kinds:
  "parameter_kinds ''J)V'' = [False]" "parameter_kinds ''I)V'' = [False]"
  "parameter_kinds ''F)V'' = [False]" "parameter_kinds ''JJ)V'' = [False, False]"
  "parameter_kinds ''Ljava/lang/String;)V'' = [True]"
  by simp_all

lemma setter_matches:
  "set_long s key j = Inr x \<Longrightarrow> method_of x = s \<and> \<not> call_matches x"
  "set_int s key j = Inr x \<Longrightarrow> method_of x = s \<and> \<not> call_matches x"
  "set_float s key j = Inr x \<Longrightarrow> method_of x = s \<and> \<not> call_matches x"
  "set_text s key j = Inr x \<Longrightarrow> method_of x = s \<and> call_matches x"
  by (auto simp: set_long_def set_int_def set_float_def set_text_def res_simps used_kinds is_reference_def
      simp del: parameter_kinds.simps)

lemma add_rtt_no_match: "add_rtt o1 = Inr x \<Longrightarrow> \<not> call_matches x"
  by (auto simp: add_rtt_def res_simps used_kinds is_reference_def boxed_or_null_def
      simp del: parameter_kinds.simps split: if_splits)

lemma in_order_no_match:
  "in_order rs = Inr xs \<Longrightarrow> (\<And>r x. r \<in> set rs \<Longrightarrow> r = Inr x \<Longrightarrow> \<not> call_matches x) \<Longrightarrow>
     filter call_matches xs = []"
  by (induction rs arbitrary: xs) (auto simp: res_simps)

lemma bandwidth_boxed:
  assumes "setBandwidthResult j = Inr calls"
  shows "length calls = 12 \<and> filter call_matches calls = []"
proof
  note b = assms [unfolded setBandwidthResult_def]
  show "filter call_matches calls = []"
    by (rule in_order_no_match [OF b]) (auto simp del: call_matches.simps dest: setter_matches(1-3) [OF sym])
  show "length calls = 12" using arg_cong [OF b [unfolded in_order_Inr], of length] by simp
qed

lemma rtt_boxed:
  assumes r: "rtt_result j = Inr calls"
  shows "map method_of (filter call_matches calls) = [''setPeer'']"
proof -
  let ?a = "[set_long ''setAverageNs'' ''average_ns'' j, set_long ''setDurationNs'' ''duration_ns'' j,
    set_long ''setMaxNs'' ''max_ns'' j, set_long ''setMedianNs'' ''median_ns'' j,
    set_long ''setMinNs'' ''min_ns'' j, set_int ''setNumError'' ''num_error'' j,
    set_int ''setNumMissing'' ''num_missing'' j, set_int ''setNumReceived'' ''num_received'' j,
    set_int ''setNumSent'' ''num_sent'' j, set_int ''setPacketSize'' ''packet_size'' j]"
  let ?p = "set_text ''setPeer'' ''peer'' j"
  let ?b = "[set_float ''setProgress'' ''progress'' j,
    set_long ''setStandardDeviationNs'' ''standard_deviation_ns'' j] @ map add_rtt (array_items (json_at j ''rtts''))"
  have "rtt_result j = in_order (?a @ [?p] @ ?b)" by (simp add: rtt_result_def)
  then have "res_bind (in_order ?a) (\<lambda>xs. res_map ((@) xs)
      (res_bind (in_order [?p]) (\<lambda>ps. res_map ((@) ps) (in_order ?b)))) = Inr calls"
    using r by (simp only: in_order_append)
  then obtain xs ps ys where c: "in_order ?a = Inr xs" "in_order [?p] = Inr ps" "in_order ?b = Inr ys"
    "calls = xs @ ps @ ys"
    by (auto simp only: res_bind_Inr_iff res_map_Inr_iff)
  have "filter call_matches xs = []"
    by (rule in_order_no_match [OF c(1)]) (auto simp del: call_matches.simps dest: setter_matches(1-3) [OF sym])
  moreover have "filter call_matches ys = []"
    by (rule in_order_no_match [OF c(3)]) (auto simp del: call_matches.simps dest: setter_matches(1-3) [OF sym] add_rtt_no_match [OF sym])
  moreover have "map method_of (filter call_matches ps) = [''setPeer'']"
    using c(2) setter_matches(4) by (auto simp: res_simps simp del: call_matches.simps)
  ultimately show ?thesis by (simp add: c(4))
qed

lemma time_boxed:
  assumes r: "time_result j = Inr calls"
  shows "map method_of (filter call_matches calls) =
    (if is_string (json_at j ''download_start'') then [''setDownloadStart''] else [])"
proof -
  have t: "map method_of (filter call_matches xs) =
      (if is_string (json_at j key) \<and> (\<forall>v. \<not> is_reference (box v)) then [setter] else [])"
    if "in_order (time_setter box setter key j) = Inr xs" "\<forall>v. is_reference (box v) = is_reference (box 0)"
    for box setter key xs
    using that(1) that(2) [rule_format]
    by (cases "is_reference (box 0)")
      (auto simp: time_setter_def res_simps used_kinds simp del: parameter_kinds.simps split: if_splits)
  have b: "map method_of (filter call_matches xs) = []"
    if "in_order (time_setter JBoxedLong setter key j) = Inr xs" for setter key xs
    using t [OF that] by (simp add: is_reference_def)
  obtain x1 x2 x3 x4 x5 x6 where
    x: "in_order (time_setter JLong ''setDownloadStart'' ''download_start'' j) = Inr x1"
      "in_order (time_setter JBoxedLong ''setDownloadEnd'' ''download_end'' j) = Inr x2"
      "in_order (time_setter JBoxedLong ''setRttUdpStart'' ''rtt_udp_start'' j) = Inr x3"
      "in_order (time_setter JBoxedLong ''setRttUdpEnd'' ''rtt_udp_end'' j) = Inr x4"
      "in_order (time_setter JBoxedLong ''setUploadStart'' ''upload_start'' j) = Inr x5"
      "in_order (time_setter JBoxedLong ''setUploadEnd'' ''upload_end'' j) = Inr x6"
    and c: "calls = x1 @ x2 @ x3 @ x4 @ x5 @ x6"
    using r unfolding time_result_def in_order_append by (auto simp only: res_bind_Inr_iff res_map_Inr_iff)
  have "map method_of (filter call_matches x1) =
      (if is_string (json_at j ''download_start'') then [''setDownloadStart''] else [])"
    using t [OF x(1)] by (simp add: is_reference_def)
  with b [OF x(2)] b [OF x(3)] b [OF x(4)] b [OF x(5)] b [OF x(6)] show ?thesis by (simp add: c)
qed

text \<open>C38: The setters of numbers are called with the wrong kind of argument: they take primitive
  numbers, but the connector hands over references to boxed ones, for all twelve numbers of a
  half second and for every number of the RTT result; only the peer's name and the start of the
  download are handed over as the descriptor says.\<close>

theorem boxed_for_primitive:
  shows "(setBandwidthResult j = Inr calls \<longrightarrow> length calls = 12 \<and> filter call_matches calls = [])
    \<and> (rtt_result j = Inr calls \<longrightarrow> map method_of (filter call_matches calls) = [''setPeer''])
    \<and> (time_result j = Inr calls \<longrightarrow>
        map method_of (filter call_matches calls) =
          (if is_string (json_at j ''download_start'') then [''setDownloadStart''] else []))"
  using bandwidth_boxed rtt_boxed time_boxed by blast

section \<open>The start from the app's settings\<close>

definition android_config :: "connector \<Rightarrow> string \<Rightarrow> (string \<times> string) list" where
  "android_config c host =
     (let s = speedTaskDesc c
      in [(''DNS_HOSTNAME'', host), (''PORT'', to_string_int (speedServerPort s)),
          (''PING_PORT'', to_string_int (speedServerPortRtt s)), (''TLS'', if isEncrypted s then ''1'' else ''0''),
          (''DL_STREAMS'', to_string_int (downloadStreams s)),
          (''UL_STREAMS'', to_string_int (uploadStreams s)),
          (''PING_QUERY'', to_string_int (rttCount s))])"

definition configured :: "'c lib \<Rightarrow> (string \<times> string) list \<Rightarrow> 'c \<Rightarrow> 'c" where
  "configured lib kvs cfg = fold (\<lambda>(k, v) cfg. writeString lib cfg ''ias'' k v) kvs cfg"

lemma android_parameters_at:
  fixes c :: connector
  defines "p \<equiv> object_items (android_parameters c)"
  shows "obj_at p ''wsTargets'' = JArr (map JStr (measurementServerUrl c))"
    "obj_at p ''platform'' = JStr ''mobile''" "obj_at p ''clientos'' = JStr ''android''"
    "obj_at p ''wsTargetPort'' = JStr (to_string_int (speedServerPort (speedTaskDesc c)))"
    "obj_at p ''wsTargetPortRtt'' = JStr (to_string_int (speedServerPortRtt (speedTaskDesc c)))"
    "obj_at p ''wsWss'' = JStr (if isEncrypted (speedTaskDesc c) then ''1'' else ''0'')"
    "json_at (obj_at p ''rtt'') ''performMeasurement'' = JBool (performRtt (speedTaskDesc c))"
    "json_at (obj_at p ''rtt'') ''ping_query'' = JStr (to_string_int (rttCount (speedTaskDesc c)))"
    "json_at (obj_at p ''download'') ''performMeasurement'' = JBool (performDownload (speedTaskDesc c))"
    "json_at (obj_at p ''download'') ''streams'' = JStr (to_string_int (downloadStreams (speedTaskDesc c)))"
    "json_at (obj_at p ''upload'') ''performMeasurement'' = JBool (performUpload (speedTaskDesc c))"
    "json_at (obj_at p ''upload'') ''streams'' = JStr (to_string_int (uploadStreams (speedTaskDesc c)))"
  by (simp_all add: p_def android_parameters_def Let_def obj_at_def json_at_def)

definition any_wanted :: "task_settings \<Rightarrow> bool" where
  "any_wanted s \<longleftrightarrow> performRtt s \<or> performDownload s \<or> performUpload s"

lemma callback_error_frame:
  "\<exists>v. callback lib ''error'' msg code descr w = Inr v \<and> hasError v = hasError w \<and>
     error_flags v = error_flags w \<and> pXml v = pXml w \<and> IP v = IP w \<and> RTT v = RTT w \<and>
     DOWNLOAD v = DOWNLOAD w \<and> UPLOAD v = UPLOAD w"
proof -
  let ?w = "init_peer (w\<lparr>trace := trace w @ [(''error'', msg)]\<rparr>)"
  have i: "hasError ?w = hasError w" "error_flags ?w = error_flags w" "pXml ?w = pXml w" "IP ?w = IP w"
    "RTT ?w = RTT w" "DOWNLOAD ?w = DOWNLOAD w" "UPLOAD ?w = UPLOAD w"
    by (simp_all add: init_peer_def error_flags_def)
  have s: "hasError (stamp_end u) = hasError u" "error_flags (stamp_end u) = error_flags u"
    "pXml (stamp_end u) = pXml u" "IP (stamp_end u) = IP u" "RTT (stamp_end u) = RTT u"
    "DOWNLOAD (stamp_end u) = DOWNLOAD u" "UPLOAD (stamp_end u) = UPLOAD u" for u :: "'a world"
    by (simp_all add: stamp_end_def error_flags_def get_timestamp_def)
  have "callback lib ''error'' msg code descr w =
      Inr (report_to_platform lib ''error'' msg code descr ?w)"
    by (simp add: callback_def Let_def)
  moreover have "report_to_platform lib ''error'' msg code descr u =
      callbackToPlatform lib ''error'' msg code descr (stamp_end u)" for u :: "'a world"
    by (simp add: report_to_platform_def Let_def)
  ultimately show ?thesis by (simp add: callbackToPlatform_def Let_def i s error_flags_def)
     (simp add: i s error_flags_def [symmetric])
qed

text \<open>The world in which \<open>measurementStart\<close> makes the callback object.\<close>

lemma android_config_written:
  assumes "target lib = Android" "\<not> exited w" "RUNNING w"
    and w2_def: "w2 = write_config lib (object_items (android_parameters c)) t
      ((reset_globals w)\<lparr>PLATFORM := s1, CLIENT_OS := s2, pXml := cfg0\<rparr>)"
  shows "pXml w2 = configured lib (android_config c t) cfg0"
    "RUNNING w2 \<and> \<not> error_flags w2 \<and> \<not> hasError w2 \<and> IP w2" "\<not> exited w2"
    "RTT w2 = performRtt (speedTaskDesc c)" "DOWNLOAD w2 = performDownload (speedTaskDesc c)"
    "UPLOAD w2 = performUpload (speedTaskDesc c)"
  using assms(2,3) android_parameters_at [of c]
  by (simp_all add: w2_def write_config_def Let_def assms(1) configured_def android_config_def
      reset_globals_def error_flags_def exited_def)

text \<open>And the new callback object beside it.\<close>

lemma CCallback_new_frame:
  "pXml (CCallback_new j w) = pXml w" "RUNNING (CCallback_new j w) = RUNNING w"
  "error_flags (CCallback_new j w) = error_flags w" "hasError (CCallback_new j w) = hasError w"
  "IP (CCallback_new j w) = IP w" "RTT (CCallback_new j w) = RTT w"
  "DOWNLOAD (CCallback_new j w) = DOWNLOAD w" "UPLOAD (CCallback_new j w) = UPLOAD w"
  "exited (CCallback_new j w) = exited w"
  by (simp_all add: CCallback_new_def Let_def get_timestamp_def error_flags_def exited_def)

lemma android_init:
  assumes "target lib = Android" "\<not> exited w"
    "json_parse lib (json_dump lib (android_parameters c)) = (android_parameters c, '''')"
    "RUNNING w"
  shows "measurementServerUrl c = [] \<Longrightarrow>
      measurement_init lib cfg0 rnd (json_dump lib (android_parameters c)) w = Inl DivisionByZero"
    and "measurementServerUrl c \<noteq> [] \<Longrightarrow>
      \<exists>v. measurement_init lib cfg0 rnd (json_dump lib (android_parameters c)) w = Inr v \<and>
        main_pc v = MainSelect 1 \<and> RUNNING v = any_wanted (speedTaskDesc c) \<and>
        \<not> error_flags v \<and> \<not> hasError v \<and> IP v \<and>
        RTT v = performRtt (speedTaskDesc c) \<and> DOWNLOAD v = performDownload (speedTaskDesc c) \<and>
        UPLOAD v = performUpload (speedTaskDesc c) \<and>
        pXml v = configured lib (android_config c
            (measurementServerUrl c ! (rnd mod length (measurementServerUrl c)))) cfg0"
proof -
  let ?p = "object_items (android_parameters c)"
  note at = android_parameters_at [of c]
  have e: "\<not> exited (reset_globals w)" using assms(2) by (simp add: exited_def reset_globals_def)
  show "measurement_init lib cfg0 rnd (json_dump lib (android_parameters c)) w = Inl DivisionByZero"
    if "measurementServerUrl c = []"
    using that e by (simp add: measurement_init_def assms(3) at pick_target_def)
  assume ne: "measurementServerUrl c \<noteq> []"
  let ?t = "measurementServerUrl c ! (rnd mod length (measurementServerUrl c))"
  have "rnd mod length (measurementServerUrl c) < length (measurementServerUrl c)" using ne by simp
  then have t: "pick_target (array_items (obj_at ?p ''wsTargets'')) rnd = Inr (JStr ?t)"
    using ne by (simp add: at pick_target_def)
  define w2 where "w2 = write_config lib ?p ?t ((reset_globals w)\<lparr>PLATFORM := string_value (obj_at ?p ''platform''),
                       CLIENT_OS := string_value (obj_at ?p ''clientos''), pXml := cfg0\<rparr>)"
  note f2 = android_config_written [OF assms(1,2,4) w2_def]
  define w3 where "w3 host = CCallback_new (JObj (obj_put ''wsTarget'' (JStr host) ?p)) w2" for host
  have c3: "pXml (w3 host) = pXml w2" "RUNNING (w3 host) = RUNNING w2"
    "error_flags (w3 host) = error_flags w2" "hasError (w3 host) = hasError w2" "IP (w3 host) = IP w2"
    "RTT (w3 host) = RTT w2" "DOWNLOAD (w3 host) = DOWNLOAD w2" "UPLOAD (w3 host) = UPLOAD w2" for host
    by (simp_all add: w3_def CCallback_new_frame)
  have n: "no_test_enabled (w3 host) = (\<not> any_wanted (speedTaskDesc c))" for host
    by (auto simp: no_test_enabled_def c3 f2 any_wanted_def)
  let ?cfg = "writeString lib cfg0 (conf_sProvider (reset_globals w)) ''DNS_HOSTNAME'' ?t"
  obtain host where h: "host = readString lib ?cfg (conf_sProvider (reset_globals w)) ''DNS_HOSTNAME'' ''example.com''"
    by blast
  have m: "measurement_init lib cfg0 rnd (json_dump lib (android_parameters c)) w =
      (if no_test_enabled (w3 host) then
         res_map (\<lambda>v. let v1 = shutdown lib v in if exited v1 then v1 else v1\<lparr>main_pc := MainSelect 1\<rparr>)
           (callback lib ''error'' ''no test case enabled'' 1 ''no test case enabled'' (w3 host))
       else Inr ((w3 host)\<lparr>main_pc := MainSelect 1\<rparr>))"
    using e by (simp add: measurement_init_def assms(3) t w2_def w3_def Let_def h)
  have ef: "error_flags (v\<lparr>main_pc := pc\<rparr>) = error_flags v"
    "error_flags (v\<lparr>RUNNING := b\<rparr>) = error_flags v" for v :: "'a world" and pc b
    by (simp_all add: error_flags_def)
  show "\<exists>v. measurement_init lib cfg0 rnd (json_dump lib (android_parameters c)) w = Inr v \<and>
        main_pc v = MainSelect 1 \<and> RUNNING v = any_wanted (speedTaskDesc c) \<and>
        \<not> error_flags v \<and> \<not> hasError v \<and> IP v \<and>
        RTT v = performRtt (speedTaskDesc c) \<and> DOWNLOAD v = performDownload (speedTaskDesc c) \<and>
        UPLOAD v = performUpload (speedTaskDesc c) \<and>
        pXml v = configured lib (android_config c ?t) cfg0"
  proof (cases "any_wanted (speedTaskDesc c)")
    case True
    then show ?thesis using m f2 by (simp add: n c3 ef)
  next
    case False
    obtain v where v: "callback lib ''error'' ''no test case enabled'' 1 ''no test case enabled'' (w3 host) = Inr v"
      "hasError v = hasError (w3 host)" "error_flags v = error_flags (w3 host)" "pXml v = pXml (w3 host)"
      "IP v = IP (w3 host)" "RTT v = RTT (w3 host)" "DOWNLOAD v = DOWNLOAD (w3 host)"
      "UPLOAD v = UPLOAD (w3 host)"
      using callback_error_frame by metis
    have x: "\<not> exited (v\<lparr>RUNNING := False\<rparr>)"
      using cb.send_frame(8) [OF v(1)] CCallback_new_frame(9) [of _ w2] f2(3) by (simp add: exited_def w3_def)
    show ?thesis using m False f2 v x assms(1)
      by (simp add: n shutdown_def Let_def c3 ef)
  qed
qed

text \<open>C32: When json11 reads back what it printed, the app's settings arrive unchanged: the wanted
  tests are switched on, the configuration holds ports, streams, encryption and number of pings,
  one of the known servers is the target, and the first test case is next. Without a wanted test
  the measurement is stopped at once; without a server the program divides by zero.\<close>

theorem android_start:
  assumes "target lib = Android" "\<not> exited w"
    "json_parse lib (json_dump lib (android_parameters c)) = (android_parameters c, '''')"
  shows "(measurementServerUrl c = [] \<longrightarrow> startMeasurement lib cfg0 rnd c w = Inl DivisionByZero)
    \<and> (measurementServerUrl c \<noteq> [] \<longrightarrow>
        (\<exists>v. startMeasurement lib cfg0 rnd c w = Inr v \<and> main_pc v = MainSelect 1 \<and>
          RUNNING v = any_wanted (speedTaskDesc c) \<and> \<not> error_flags v \<and> \<not> hasError v \<and> IP v \<and>
          RTT v = performRtt (speedTaskDesc c) \<and> DOWNLOAD v = performDownload (speedTaskDesc c) \<and>
          UPLOAD v = performUpload (speedTaskDesc c) \<and>
          pXml v = configured lib (android_config c
              (measurementServerUrl c ! (rnd mod length (measurementServerUrl c)))) cfg0))"
proof -
  let ?s = "speedTaskDesc c"
  let ?w = "w\<lparr>DEBUG_FLAG := False, RUNNING := True, RTT := performRtt ?s,
                 DOWNLOAD := performDownload ?s, UPLOAD := performUpload ?s\<rparr>"
  have w: "\<not> exited ?w" "RUNNING ?w" using assms(2) by (simp_all add: exited_def)
  have s: "startMeasurement lib cfg0 rnd c w =
      (case measurement_init lib cfg0 rnd (json_dump lib (android_parameters c)) ?w of
         Inl f \<Rightarrow> if caught f then Inr (shutdown lib ?w) else Inl f | Inr v \<Rightarrow> Inr v)"
    by (simp add: startMeasurement_def Let_def)
  note i = android_init [OF assms(1) w(1) assms(3) w(2), of cfg0 rnd]
  show ?thesis
  proof (intro conjI impI)
    assume "measurementServerUrl c = []"
    from i(1) [OF this] show "startMeasurement lib cfg0 rnd c w = Inl DivisionByZero"
      by (simp add: s caught_def)
  next
    assume "measurementServerUrl c \<noteq> []"
    from i(2) [OF this] show "\<exists>v. startMeasurement lib cfg0 rnd c w = Inr v \<and> main_pc v = MainSelect 1 \<and>
          RUNNING v = any_wanted (speedTaskDesc c) \<and> \<not> error_flags v \<and> \<not> hasError v \<and> IP v \<and>
          RTT v = performRtt (speedTaskDesc c) \<and> DOWNLOAD v = performDownload (speedTaskDesc c) \<and>
          UPLOAD v = performUpload (speedTaskDesc c) \<and>
          pXml v = configured lib (android_config c
              (measurementServerUrl c ! (rnd mod length (measurementServerUrl c)))) cfg0"
      unfolding s by auto
  qed
qed

section \<open>Witnesses\<close>

definition task0 :: java_task where
  "task0 = \<lparr>speedServerAddrs = Some [''peer''], java_settings = \<lparr>rttCount = 10, downloadStreams = 4,
     uploadStreams = 4, speedServerPort = 443, speedServerPortRtt = 80, performDownload = True,
     performUpload = False, performRtt = True, isEncrypted = True\<rparr>\<rparr>"

definition attached :: jvm_answer where
  "attached = \<lparr>ja_getenv = JniOk, ja_attach = False\<rparr>"

text \<open>A connector behind \<open>JNI_OnLoad\<close> and \<open>shareMeasurementState\<close>.\<close>

definition shared :: connector where
  "shared = (getInstance Some)\<lparr>javaVM := True, jniHelperClass := Some 0, jniExceptionClass := Some 1,
     speedMeasurementResultClazz := Some 2, resultUdpClazz := Some 3, resultBandwidthClazz := Some 4,
     timeClazz := Some 5, jniCaller := Some 6, baseMeasurementState := Some 7,
     downloadMeasurementState := Some 8, uploadMeasurementState := Some 9, pingMeasurementState := Some 10,
     measurementServerUrl := [''peer''], speedTaskDesc := java_settings task0, refs_pos := 11,
     jni := map NewRef [0..<11]\<rparr>"

lemma shared_run:
  "connector_run (lib0 Android) [OnLoad JniOk (\<lambda>_. True), ShareMeasurementState task0] (getInstance Some) = Inr shared"
  by (simp add: connector_step_def jniLoad_def load_class_def NewGlobalRef_unfold creation_def need_def
      registerSharedObject_unfold setSpeedSettings_def getInstance_def shared_def task0_def Let_def upt_conv_Cons)

lemma shared_ready: "ready shared attached"
  by (simp add: ready_def shared_def attached_def getJniEnv_def)

lemma references_accounted_witness:
  "live (unregisterSharedObject attached shared) = {#}"
proof -
  have "lost_refs (lib0 Android) [OnLoad JniOk (\<lambda>_. True), ShareMeasurementState task0] (getInstance Some) = {#}"
    by (simp add: connector_step_def jniLoad_def load_class_def NewGlobalRef_unfold creation_def need_def
      registerSharedObject_unfold getInstance_def Let_def overwritten_def class_refs_def state_refs_def)
  then show ?thesis
    using references_accounted [OF shared_run, of attached] shared_ready by (simp add: ready_def)
qed

definition step0 :: json where
  "step0 = JObj (step_object (lib0 Android) ''report'' 10 (new_acc (lib0 Android)) world0)"

lemma step0_values:
  "list_all (\<lambda>(k, v). fits v) (bandwidth_values (lib0 Android) (new_acc (lib0 Android)) 10)"
  "agg_streams (new_acc (lib0 Android)) = 0" "conf_instances world0 = 1"
  by (simp_all add: bandwidth_values_def aggregate_data_def new_acc_def new_data_def data0_def fits_def Let_def)

lemma bandwidth_carried_witness:
  "\<exists>calls. setBandwidthResult step0 = Inr calls \<and>
     calls ! 9 = JCall ''setNumStreamsEnd'' ''(I)V'' [JBoxedInt 0]"
proof -
  have "streams_at_end ''report'' (lib0 Android) (new_acc (lib0 Android)) 10 = 0"
    by (simp add: streams_at_end_def)
  then show ?thesis
    using bandwidth_carried [of world0 "new_acc (lib0 Android)" "lib0 Android" "''report''" 10] step0_values
    by (simp add: step0_def bandwidth_values_def Let_def)
qed

definition rtt0 :: measurement_data where
  "rtt0 = data0\<lparr>interim_values := [900, 1100]\<rparr>"

lemma rtt0_ok:
  "list_all (\<lambda>(k, v). fits v) (rtt_values rtt0)" "fits (standard_deviation_ns rtt0)"
  "list_all (\<lambda>(k, n). - 2147483648 \<le> n \<and> n < 2147483648) (rtt_counts rtt0)"
  "\<forall>r\<in>set (interim_values rtt0). rtt_fits r" "fits (imap_at [(1, 7)] i)"
  by (simp_all add: rtt_values_def rtt_counts_def rtt0_def data0_def fits_def rtt_fits_def imap_at_def)

lemma rtt_carried_witness:
  "\<exists>calls. rtt_result (JObj (rtt_object rtt0 (rtt_list [(1, 7)] 1 [900, 1100]))) = Inr calls \<and>
     calls ! 10 = JCall ''setPeer'' ''(Ljava/lang/String;)V'' [JString ''''] \<and>
     calls ! 13 = JCall ''addSingleRtt'' ''(JJ)V'' [JBoxedLong 900000, JBoxedLong 7]"
proof -
  have "interim_values rtt0 = [900, 1100]" by (simp add: rtt0_def)
  then show ?thesis
    using rtt_carried [OF rtt0_ok] 
    by (simp add: rtt_values_def rtt_counts_def nth_append upt_conv_Cons single_rtt_def
        boxed_or_null_def truncate_def imap_at_def)
qed

definition done0 :: "unit world" where
  "done0 = world0\<lparr>jMeasurementResultsDownload := [step0, step0],
     jMeasurementResultsRttUdp := rtt_object rtt0 (rtt_list [(1, 7)] 1 (interim_values rtt0)),
     jMeasurementResultsTime := [(''download_start'', JStr (to_string_u64 5))]\<rparr>"

lemma done0_ok: "results_ok (lib0 Android) done0"
proof -
  have "bandwidth_ok (lib0 Android) step0"
    unfolding bandwidth_ok_def
    by (intro exI conjI) (rule step0_def, use step0_values in simp_all)
  moreover have "rtt_ok (jMeasurementResultsRttUdp done0)"
    unfolding rtt_ok_def using rtt0_ok by (intro exI conjI) (simp add: done0_def, auto)
  moreover have "time_ok (JObj (jMeasurementResultsTime done0))"
    by (auto simp: time_ok_def time_keys_def done0_def json_at_def obj_at_def printed_def fits_def)
  ultimately show ?thesis by (simp add: results_ok_def done0_def)
qed

lemma completed_reaches_java_witness:
  "\<exists>evs c' res. deliver_events (lib0 Android) attached END evs shared = Inr c' \<and>
     length (calls_of ''addDownloadInfo'' res) = 2 \<and> length (calls_of ''setRttUdpResult'' res) = 1 \<and>
     (\<exists>text. CallVoid 6 (JCall ''cppCallbackFinished''
        ''(Ljava/lang/String;Lcom/zafaco/moduleSpeed/models/speed/JniSpeedMeasurementResult;)V''
        [JString text, JNew ''JniSpeedMeasurementResult'' res]) \<in> set (jni c'))"
proof -
  have s: "jniCaller shared = Some 6" by (simp add: shared_def)
  have d: "length (jMeasurementResultsDownload done0) = 2" "jMeasurementResultsRttUdp done0 \<noteq> []"
    by (simp_all add: done0_def rtt_object_def)
  obtain evs c' res m where "deliver_events (lib0 Android) attached END evs shared = Inr c'"
    "jni c' = jni shared @ set_phase (the (baseMeasurementState shared)) END #
        callback_calls (lib0 Android) (the (jniCaller shared)) m @
        [CallVoid (the (jniCaller shared)) (JCall ''cppCallbackFinished''
           ''(Ljava/lang/String;Lcom/zafaco/moduleSpeed/models/speed/JniSpeedMeasurementResult;)V''
           [JString (json_dump (lib0 Android) (JObj (finished_message m))), JNew ''JniSpeedMeasurementResult'' res]),
         SetFloat (the (baseMeasurementState shared)) ''progress'' 1,
         set_phase (the (baseMeasurementState shared)) END]"
    "length (calls_of ''addDownloadInfo'' res) = length (jMeasurementResultsDownload done0)"
    "length (calls_of ''setRttUdpResult'' res) = (if jMeasurementResultsRttUdp done0 = [] then 0 else 1)"
    using completed_reaches_java [OF _ shared_ready done0_ok, of "''m''" 0 "''''"] by auto
  with s d show ?thesis by (intro exI [of _ evs] exI [of _ c'] exI [of _ res]) auto
qed

lemma boxed_for_primitive_witness:
  "\<exists>calls. setBandwidthResult step0 = Inr calls \<and> length calls = 12 \<and> filter call_matches calls = []"
proof -
  obtain calls where "setBandwidthResult step0 = Inr calls"
    using bandwidth_calls [of world0 "new_acc (lib0 Android)" "lib0 Android" "''report''" 10] step0_values
    by (auto simp: step0_def)
  then show ?thesis using boxed_for_primitive [of step0] by blast
qed

lemma android_start_witness:
  "\<exists>v. startMeasurement ((lib0 Android)\<lparr>json_dump := \<lambda>_. ''x'', json_parse := \<lambda>_. (android_parameters shared, '''')\<rparr>)
       () 3 shared world0 = Inr v \<and> main_pc v = MainSelect 1 \<and> RUNNING v \<and> RTT v \<and> DOWNLOAD v \<and> \<not> UPLOAD v"
proof -
  let ?lib = "(lib0 Android)\<lparr>json_dump := \<lambda>_. ''x'', json_parse := \<lambda>_. (android_parameters shared, '''')\<rparr>"
  have "\<not> exited world0" by (simp add: exited_def world0_def)
  then show ?thesis
    using android_start [of ?lib world0 shared "()" 3]
    by (auto simp: shared_def task0_def any_wanted_def)
qed

end
