(* ===== verification/System.thy ===== *)
theory System
  imports Interplay
begin

text \<open>
  The whole client: the main thread, the timer and the test threads in any order. The steps are
  those of \<open>Client\<close>, \<open>Timer\<close> and \<open>Interplay\<close>; thread creation succeeds. The invariant
  \<open>system_inv\<close> ties together where the main thread is, which test cases have been performed,
  where the timer is and which objects the callback may reach.
\<close>

section \<open>Runs\<close>

inductive system_step :: "'c lib \<Rightarrow> 'c world \<Rightarrow> 'c world \<Rightarrow> bool" for lib where
  main: "system_step lib w (main_step lib raw (\<lambda>_. True) w)"
| timer: "timer_step lib w = Inr v \<Longrightarrow> system_step lib w v"
| threads: "threads_step lib w v \<Longrightarrow> system_step lib w v"

inductive system_run :: "'c lib \<Rightarrow> 'c world \<Rightarrow> 'c world \<Rightarrow> bool" for lib where
  refl: "system_run lib w w"
| step: "system_run lib w u \<Longrightarrow> system_step lib u v \<Longrightarrow> system_run lib w v"

text \<open>Behind \<open>measurement_init\<close>.\<close>

definition fresh_start :: "'c world \<Rightarrow> bool" where
  "fresh_start w \<longleftrightarrow> (main_pc w = MainSelect 1 \<or> exited w) \<and> timer_pc (timer w) = TimerDone \<and>
     \<not> PERFORMED_IP w \<and> \<not> PERFORMED_RTT w \<and> \<not> PERFORMED_DOWNLOAD w \<and> \<not> PERFORMED_UPLOAD w"

definition wanted :: "int \<Rightarrow> 'a globals_scheme \<Rightarrow> bool" where
  "wanted tc w = (if tc = 1 then IP w else if tc = 2 then RTT w else if tc = 3 then DOWNLOAD w else UPLOAD w)"

text \<open>The objects that the callback of a test case reads exist.\<close>

definition reachable_objects :: "int \<Rightarrow> 'c world \<Rightarrow> bool" where
  "reachable_objects tc w =
     (if tc = 1 then (case ipThread w of None \<Rightarrow> False | Some p \<Rightarrow> p \<in> dom (ip_heap w))
      else if tc = 2 then (case pingThread w of None \<Rightarrow> False | Some p \<Rightarrow> p \<in> dom (ping_heap w))
      else if tc = 3 then conf_sTestName w = ''download'' \<and> set (vDownloadThreads w) \<subseteq> dom (dl_heap w)
      else conf_sTestName w = ''upload'' \<and> set (vUploadThreads w) \<subseteq> dom (ul_heap w))"

definition undisturbed :: "'a globals_scheme \<Rightarrow> bool" where
  "undisturbed w \<longleftrightarrow> RUNNING w \<and> \<not> hasError w"

section \<open>What a step keeps\<close>

text \<open>
  \<open>kept w v\<close>: what every step of the timer and of the test threads leaves alone, or moves in one
  direction only.
\<close>

definition scene :: "'c world \<Rightarrow>
    int \<times> bool list \<times> nat option \<times> nat option \<times> nat list \<times> nat list \<times> string \<times> nat set list" where
  "scene w = (mTestCase w, [IP w, RTT w, DOWNLOAD w, UPLOAD w], ipThread w, pingThread w,
     vDownloadThreads w, vUploadThreads w, conf_sTestName w,
     [dom (ip_heap w), dom (ping_heap w), dom (dl_heap w), dom (ul_heap w)])"

definition kept :: "'c world \<Rightarrow> 'c world \<Rightarrow> bool" where
  "kept w v \<longleftrightarrow> scene v = scene w \<and> (undisturbed v \<longrightarrow> undisturbed w)"

lemma scene_eqD:
  assumes "scene v = scene w"
  shows "mTestCase v = mTestCase w" "wanted tc v = wanted tc w"
    "reachable_objects tc v = reachable_objects tc w"
proof -
  have e: "mTestCase v = mTestCase w" "IP v = IP w" "RTT v = RTT w" "DOWNLOAD v = DOWNLOAD w"
    "UPLOAD v = UPLOAD w" "ipThread v = ipThread w" "pingThread v = pingThread w"
    "vDownloadThreads v = vDownloadThreads w" "vUploadThreads v = vUploadThreads w"
    "conf_sTestName v = conf_sTestName w" "dom (ip_heap v) = dom (ip_heap w)"
    "dom (ping_heap v) = dom (ping_heap w)" "dom (dl_heap v) = dom (dl_heap w)"
    "dom (ul_heap v) = dom (ul_heap w)"
    using assms by (simp_all add: scene_def)
  show "mTestCase v = mTestCase w" by (fact e)
  show "wanted tc v = wanted tc w" by (simp only: wanted_def e)
  show "reachable_objects tc v = reachable_objects tc w" by (simp only: reachable_objects_def e)
qed

definition same_flags :: "'a globals_scheme \<Rightarrow> 'b globals_scheme \<Rightarrow> bool" where
  "same_flags w v \<longleftrightarrow> PERFORMED_IP v = PERFORMED_IP w \<and> PERFORMED_RTT v = PERFORMED_RTT w \<and>
     PERFORMED_DOWNLOAD v = PERFORMED_DOWNLOAD w \<and> PERFORMED_UPLOAD v = PERFORMED_UPLOAD w \<and>
     currentTestPhase v = currentTestPhase w"

lemma kept_refl [simp]: "kept w w"
  by (simp add: kept_def)

lemma kept_trans: "kept u v \<Longrightarrow> kept v w \<Longrightarrow> kept u w"
  by (simp add: kept_def)

lemma same_flags_trans: "same_flags u v \<Longrightarrow> same_flags v w \<Longrightarrow> same_flags u w"
  by (simp add: same_flags_def)

lemma worker_effect_kept:
  assumes "worker_effect w v"
  shows "kept w v" "same_flags w v" "timer v = timer w" "main_pc v = main_pc w"
    "dom (ip_heap v) = dom (ip_heap w)" "dom (ping_heap v) = dom (ping_heap w)"
    "dom (dl_heap v) = dom (dl_heap w)" "dom (ul_heap v) = dom (ul_heap w)"
proof -
  have e: "erase_worker v = erase_worker w" using assms by (simp add: worker_effect_def)
  have f: "mTestCase v = mTestCase w" "IP v = IP w" "RTT v = RTT w" "DOWNLOAD v = DOWNLOAD w"
    "UPLOAD v = UPLOAD w" "ipThread v = ipThread w" "pingThread v = pingThread w"
    "vDownloadThreads v = vDownloadThreads w" "vUploadThreads v = vUploadThreads w"
    "ip_heap v = ip_heap w" "ping_heap v = ping_heap w" "conf_sTestName v = conf_sTestName w"
    "currentTestPhase v = currentTestPhase w"
    using arg_cong [OF e, of mTestCase] arg_cong [OF e, of IP] arg_cong [OF e, of RTT]
      arg_cong [OF e, of DOWNLOAD] arg_cong [OF e, of UPLOAD] arg_cong [OF e, of ipThread]
      arg_cong [OF e, of pingThread] arg_cong [OF e, of vDownloadThreads]
      arg_cong [OF e, of vUploadThreads] arg_cong [OF e, of ip_heap] arg_cong [OF e, of ping_heap]
      arg_cong [OF e, of conf_sTestName] arg_cong [OF e, of currentTestPhase]
    by (simp_all add: erase_worker_def)
  note g = worker_effect_frame [OF assms]
  have "scene v = scene w" by (simp add: scene_def f g)
  then show "kept w v" using assms by (auto simp: kept_def undisturbed_def worker_effect_def)
  show "same_flags w v" by (simp add: same_flags_def f g)
  show "timer v = timer w" "main_pc v = main_pc w"
    "dom (ip_heap v) = dom (ip_heap w)" "dom (ping_heap v) = dom (ping_heap w)"
    "dom (dl_heap v) = dom (dl_heap w)" "dom (ul_heap v) = dom (ul_heap w)"
    by (simp_all add: f g)
qed

lemma kept_heaps:
  "p \<in> dom (ip_heap v) \<Longrightarrow> kept w (v\<lparr>ip_heap := (ip_heap v)(p \<mapsto> a)\<rparr>) = kept w v"
  "p \<in> dom (ping_heap v) \<Longrightarrow> kept w (v\<lparr>ping_heap := (ping_heap v)(p \<mapsto> b)\<rparr>) = kept w v"
  "p \<in> dom (dl_heap v) \<Longrightarrow> kept w (v\<lparr>dl_heap := (dl_heap v)(p \<mapsto> c)\<rparr>) = kept w v"
  "p \<in> dom (ul_heap v) \<Longrightarrow> kept w (v\<lparr>ul_heap := (ul_heap v)(p \<mapsto> d)\<rparr>) = kept w v"
  by (simp_all add: kept_def scene_def undisturbed_def insert_absorb)

lemma threads_step_kept:
  assumes "threads_step lib w v"
  shows "kept w v \<and> same_flags w v \<and> timer v = timer w \<and> (main_pc v = main_pc w \<or> exited v)"
  using assms
proof (induction rule: threads_step.induct)
  case (ip w p t e t' v)
  note k = worker_effect_kept [OF ipt.effect [OF ip(2)]]
  have "p \<in> dom (ip_heap v)" using ip(1) k(5) by blast
  then show ?case using k by (simp add: kept_heaps same_flags_def)
next
  case (ping w p t pe t' v)
  note k = worker_effect_kept [OF pg.effect [OF ping(2)]]
  have "p \<in> dom (ping_heap v)" using ping(1) k(6) by blast
  then show ?case using k by (simp add: kept_heaps same_flags_def)
next
  case (download w p t e t' v)
  note k = worker_effect_kept [OF dl.effect [OF download(2)]]
  have "p \<in> dom (dl_heap v)" using download(1) k(7) by blast
  then show ?case using k by (simp add: kept_heaps same_flags_def)
next
  case (upload w p t e t' v)
  note k = worker_effect_kept [OF ul.effect [OF upload(2)]]
  have "p \<in> dom (ul_heap v)" using upload(1) k(8) by blast
  then show ?case using k by (simp add: kept_heaps same_flags_def)
next
  case (stop w)
  then show ?case
    by (simp add: measurementStop_def shutdown_def Let_def kept_def scene_def undisturbed_def
        same_flags_def exited_def)
qed

lemma callback_kept:
  assumes "callback lib cmd msg code descr w = Inr v"
  shows "kept w v" "main_pc v = main_pc w" "timer v = timer w" "cmd \<noteq> ''finish'' \<Longrightarrow> same_flags w v"
proof -
  note e = callback_effect [OF assms]
  have c: "erase_cb v = erase_cb w" using e(1) by (simp add: cb_effect_def)
  note f = erase_cb_frame [OF c]
  have n: "conf_sTestName v = conf_sTestName w" using arg_cong [OF c, of conf_sTestName] by (simp add: erase_cb_def)
  have "scene v = scene w" using e(1) by (simp add: scene_def f n cb_effect_def)
  then show "kept w v" using e(1) by (auto simp: kept_def undisturbed_def f cb_effect_def)
  show "main_pc v = main_pc w" "timer v = timer w" by (fact f)+
  show "cmd \<noteq> ''finish'' \<Longrightarrow> same_flags w v"
    using e(2,4) by (simp add: flags_kept_def completes_def same_flags_def)
qed

text \<open>\<open>quiet w v\<close>: nothing of what the main thread waits for has changed, but for the timer.\<close>

definition quiet :: "'c world \<Rightarrow> 'c world \<Rightarrow> bool" where
  "quiet w v \<longleftrightarrow> kept w v \<and> same_flags w v \<and> main_pc v = main_pc w"

lemma quiet_refl [simp]: "quiet w w"
  by (simp add: quiet_def same_flags_def)

lemma quiet_trans: "quiet u v \<Longrightarrow> quiet v w \<Longrightarrow> quiet u w"
  using kept_trans same_flags_trans by (simp add: quiet_def) blast

lemma quiet_updates [simp]:
  "quiet w (v\<lparr>timer := t\<rparr>) = quiet w v" "quiet w (v\<lparr>TIMER_STOPPED := b\<rparr>) = quiet w v"
  "quiet w (v\<lparr>TIMER_RUNNING := b\<rparr>) = quiet w v" "quiet w (v\<lparr>TIMER_ACTIVE := b\<rparr>) = quiet w v"
  "quiet w (v\<lparr>clock_pos := n\<rparr>) = quiet w v" "quiet w (v\<lparr>TIMER_DURATION := i\<rparr>) = quiet w v"
  "quiet w (v\<lparr>TIMER_INDEX := i\<rparr>) = quiet w v" "quiet w (set_pc pc v) = quiet w v"
  by (simp_all add: quiet_def kept_def scene_def same_flags_def undisturbed_def set_pc_def)

lemma quiet_left [simp]: "quiet (w\<lparr>timer := t\<rparr>) v = quiet w v"
  by (simp add: quiet_def kept_def scene_def same_flags_def undisturbed_def)

lemma callback_quiet: "callback lib cmd msg code descr w = Inr v \<Longrightarrow> cmd \<noteq> ''finish'' \<Longrightarrow> quiet w v"
  unfolding quiet_def by (blast intro: callback_kept)

lemma signal_error_quiet: "signal_error lib msg code pc w = Inr v \<Longrightarrow> quiet w v"
  by (auto simp: signal_error_def res_map_Inr_iff dest: callback_quiet)

lemma advance_timer_quiet: "quiet w (advance_timer w)"
  by (simp add: advance_timer_def get_timestamp_def Let_def)

lemma outer_step_quiet: "outer_step lib w = Inr v \<Longrightarrow> quiet w v"
  by (auto simp: outer_step_def res_map_Inr_iff res_map_Inr_iff [THEN eq_iff_swap]
      dest: callback_quiet signal_error_quiet split: if_split_asm)

lemma delay_step_quiet: "delay_step lib w = Inr v \<Longrightarrow> quiet w v"
  by (auto simp: delay_step_def res_map_Inr_iff get_timestamp_def dest: callback_quiet)

lemma body_step_quiet:
  assumes "body_step lib w = Inr v"
  shows "quiet w v"
proof -
  let ?w = "w\<lparr>timer := (timer w)\<lparr>streamsDroppedSignaled := True\<rparr>\<rparr>"
  let ?a = "advance_timer w"
  show ?thesis
  proof (cases "STREAMS_DROPPED w \<and> \<not> streamsDroppedSignaled (timer w)")
    case True
    then have "signal_error lib ''measurement streams dropped'' 9 TimerOuter ?w = Inr v"
      using assms by (simp only: body_step_def if_True simp_thms)
    then show ?thesis using signal_error_quiet by fastforce
  next
    case False
    then have b: "(if TIMER_INDEX ?a \<noteq> current_index (timer ?a) then
             res_map (set_pc TimerInner)
               (callback lib ''report'' ''measurement report'' 0 ''''
                  (?a\<lparr>timer := (timer ?a)\<lparr>current_index := TIMER_INDEX ?a\<rparr>\<rparr>))
           else Inr (set_pc TimerInner ?a)) = Inr v"
      using assms by (simp only: body_step_def if_False simp_thms Let_def)
    show ?thesis
    proof (cases "TIMER_INDEX ?a \<noteq> current_index (timer ?a)")
      case True
      with b obtain u where u: "callback lib ''report'' ''measurement report'' 0 ''''
          (?a\<lparr>timer := (timer ?a)\<lparr>current_index := TIMER_INDEX ?a\<rparr>\<rparr>) = Inr u" "v = set_pc TimerInner u"
        by (auto simp: res_map_Inr_iff)
      have "quiet ?a u" using callback_quiet [OF u(1)] by simp
      then show ?thesis using quiet_trans [OF advance_timer_quiet] by (simp add: u(2))
    next
      case False
      with b have "v = set_pc TimerInner ?a" by simp
      then show ?thesis using advance_timer_quiet by simp
    qed
  qed
qed

lemma timer_step_kept:
  assumes "timer_step lib w = Inr v"
  shows "timer_pc (timer w) = TimerDone \<and> v = w
    \<or> timer_pc (timer w) \<noteq> TimerDone \<and> quiet w v
    \<or> timer_pc (timer w) = TimerLeft \<and> timer_pc (timer v) = TimerDone \<and> kept w v \<and>
      main_pc v = main_pc w \<and> undisturbed w \<and> flags_kept ''finish'' (mTestCase w) w v \<and>
      currentTestPhase v = (if all_performed v then END else currentTestPhase w)"
proof (cases "timer_pc (timer w)")
  case TimerLeft
  show ?thesis
  proof (cases "RUNNING w \<and> \<not> hasError w")
    case True
    then obtain u where u: "callback lib ''finish'' ''measurement completed'' 0 '''' w = Inr u"
      "v = set_pc TimerDone (u\<lparr>TIMER_ACTIVE := False\<rparr>)"
      using assms TimerLeft by (auto simp: timer_step_def left_step_def res_map_Inr_iff)
    note e = callback_effect [OF u(1)] and k = callback_kept [OF u(1)]
    have "kept w v" "main_pc v = main_pc w" "timer_pc (timer v) = TimerDone"
      using k by (simp_all add: u(2) kept_def scene_def undisturbed_def set_pc_def)
    moreover have "flags_kept ''finish'' (mTestCase w) w v"
      "currentTestPhase v = (if all_performed v then END else currentTestPhase w)"
      using e(2,4) by (simp_all add: u(2) flags_kept_def completes_def all_performed_def set_pc_def)
    ultimately show ?thesis using TimerLeft True by (simp add: undisturbed_def)
  next
    case False
    then have f: "(RUNNING w \<and> \<not> hasError w) = False" by simp
    have "left_step lib w = Inr v" using assms TimerLeft by (simp add: timer_step_def)
    then have "v = set_pc TimerDone (w\<lparr>TIMER_ACTIVE := False\<rparr>)"
      unfolding left_step_def f by simp
    then show ?thesis using TimerLeft by simp
  qed
next
  case TimerInner
  then have "v = inner_step w" using assms by (simp add: timer_step_def)
  then show ?thesis using TimerInner by (simp add: inner_step_def)
qed (use assms in \<open>simp_all add: timer_step_def outer_step_quiet delay_step_quiet body_step_quiet\<close>)

section \<open>The invariant\<close>

definition over :: "main_pc \<Rightarrow> bool" where
  "over pc \<longleftrightarrow> (case pc of MainShutdown \<Rightarrow> True | MainReturned \<Rightarrow> True | MainExited _ \<Rightarrow> True | _ \<Rightarrow> False)"

definition test_inv :: "int \<Rightarrow> 'c world \<Rightarrow> bool" where
  "test_inv tc w \<longleftrightarrow> mTestCase w = tc \<and> reachable_objects tc w \<and>
     (performed tc w \<longrightarrow> timer_pc (timer w) = TimerDone)"

definition main_place :: "'c world \<Rightarrow> bool" where
  "main_place w \<longleftrightarrow> (case main_pc w of
       MainPause tc \<Rightarrow> timer_pc (timer w) = TimerDone \<and> wanted tc w
     | MainThreads tc \<Rightarrow> test_inv tc w
     | MainPoll tc \<Rightarrow> test_inv tc w
     | MainTimer tc \<Rightarrow> undisturbed w \<longrightarrow> timer_pc (timer w) = TimerDone
     | MainExited _ \<Rightarrow> True
     | _ \<Rightarrow> timer_pc (timer w) = TimerDone)"

definition phase_inv :: "int \<Rightarrow> 'c world \<Rightarrow> bool" where
  "phase_inv n w \<longleftrightarrow>
     (if currentTestPhase w = END then all_performed w \<or> over (main_pc w)
      else int (phase_rank (currentTestPhase w)) < n)"

text \<open>
  \<open>b\<close> says that the measurement began in the phase INIT, as the first one of the process does;
  a later one begins in the phase END that the one before left, until its first test case begins.
\<close>

definition system_inv :: "bool \<Rightarrow> int \<Rightarrow> 'c world \<Rightarrow> bool" where
  "system_inv b n w \<longleftrightarrow> main_inv n w \<and> (\<forall>j. n \<le> j \<and> j \<le> 4 \<longrightarrow> \<not> performed j w) \<and>
     (timer_pc (timer w) \<noteq> TimerDone \<longrightarrow>
        1 \<le> mTestCase w \<and> mTestCase w < n \<and> wanted (mTestCase w) w) \<and>
     (b \<longrightarrow> phase_inv n w) \<and> main_place w"

lemma same_flags_performed:
  "same_flags w v \<Longrightarrow> performed tc v = performed tc w"
  "same_flags w v \<Longrightarrow> currentTestPhase v = currentTestPhase w"
  by (simp_all add: same_flags_def performed_def)

lemma all_performed_wanted:
  "all_performed w \<longleftrightarrow> wanted 1 w = performed 1 w \<and> wanted 2 w = performed 2 w \<and>
     wanted 3 w = performed 3 w \<and> wanted 4 w = performed 4 w"
  by (simp add: all_performed_def wanted_def performed_def)

lemma all_performed_kept:
  assumes "kept w v" "same_flags w v"
  shows "all_performed v = all_performed w"
proof -
  have "scene v = scene w" using assms(1) by (simp add: kept_def)
  note e = scene_eqD(2) [OF this] and f = same_flags_performed(1) [OF assms(2)]
  show ?thesis by (simp only: all_performed_wanted e f)
qed

lemma flags_kept_performed:
  "flags_kept ''finish'' tc w v \<Longrightarrow> 1 \<le> tc \<Longrightarrow> tc \<le> 4 \<Longrightarrow> 1 \<le> j \<Longrightarrow> j \<le> 4 \<Longrightarrow>
     performed j v = (performed j w \<or> j = tc)"
  by (auto simp: flags_kept_def performed_def)

lemma phase_le_END: "p \<le> END"
  by (cases p) (simp_all add: less_eq_MeasurementPhase_def)

text \<open>A step of the timer, and of the test threads.\<close>

lemma exited_over: "exited v \<Longrightarrow> over (main_pc v)"
  by (simp add: exited_def over_def split: main_pc.splits)

lemma main_inv_cong: "main_pc v = main_pc w \<or> exited v \<Longrightarrow> main_inv n w \<Longrightarrow> main_inv n v"
  by (auto simp: main_inv_def exited_def split: main_pc.splits)

lemma system_inv_quiet:
  assumes "system_inv b n w" "kept w v" "same_flags w v" "main_pc v = main_pc w \<or> exited v"
    "timer_pc (timer w) = TimerDone \<longrightarrow> timer_pc (timer v) = TimerDone"
  shows "system_inv b n v"
proof -
  note i = assms(1) [unfolded system_inv_def]
  have s: "scene v = scene w" and u: "undisturbed v \<longrightarrow> undisturbed w" using assms(2) by (simp_all add: kept_def)
  note e = scene_eqD [OF s] and f = same_flags_performed [OF assms(3)]
  have "b \<longrightarrow> phase_inv n v"
    using i assms(4) exited_over all_performed_kept [OF assms(2,3)] by (auto simp: phase_inv_def f)
  moreover have "main_place v"
  proof (cases "exited v")
    case True
    then show ?thesis by (simp add: main_place_def exited_def split: main_pc.splits)
  next
    case False
    then have pc: "main_pc v = main_pc w" using assms(4) by blast
    have "main_place w" using i by blast
    then show ?thesis
      using assms(5) u by (cases "main_pc w") (auto simp: main_place_def pc test_inv_def e f)
  qed
  moreover have "main_inv n v" using main_inv_cong [OF assms(4)] i by blast
  ultimately show ?thesis using i assms(5) by (auto simp: system_inv_def e f)
qed

lemma system_inv_timer:
  assumes "system_inv b n w" "timer_step lib w = Inr v"
  shows "system_inv b n v \<and> (b \<longrightarrow> currentTestPhase w \<le> currentTestPhase v)"
  using timer_step_kept [OF assms(2)]
proof (elim disjE conjE)
  assume "v = w"
  then show ?thesis using assms(1) by simp
next
  assume q: "timer_pc (timer w) \<noteq> TimerDone" "quiet w v"
  then have "system_inv b n v" using system_inv_quiet [OF assms(1)] by (simp add: quiet_def)
  then show ?thesis using q(2) by (simp add: quiet_def same_flags_def)
next
  assume l: "timer_pc (timer w) = TimerLeft" "timer_pc (timer v) = TimerDone" "kept w v"
    "main_pc v = main_pc w" "undisturbed w" "flags_kept ''finish'' (mTestCase w) w v"
    "currentTestPhase v = (if all_performed v then END else currentTestPhase w)"
  note i = assms(1) [unfolded system_inv_def]
  have s: "scene v = scene w" using l(3) by (simp add: kept_def)
  note e = scene_eqD [OF s]
  have tc: "1 \<le> mTestCase w" "mTestCase w < n" "wanted (mTestCase w) w" "n \<le> 5"
    using i l(1) by (simp_all add: main_inv_def)
  have n: "1 \<le> n" using i by (simp add: main_inv_def)
  have p: "performed j v = (performed j w \<or> j = mTestCase w)" if "1 \<le> j" "j \<le> 4" for j
    using flags_kept_performed [OF l(6) tc(1) _ that] tc(2,4) by simp
  have a: "all_performed w \<Longrightarrow> all_performed v"
    using tc(3) by (auto simp: all_performed_wanted p e)
  have "b \<longrightarrow> phase_inv n v"
    using i a l(4) by (auto simp: phase_inv_def l(7))
  moreover have "\<forall>j. n \<le> j \<and> j \<le> 4 \<longrightarrow> \<not> performed j v"
    using i tc(2) n by (auto simp: p)
  moreover have "main_place v"
    using i by (cases "main_pc w") (auto simp: main_place_def l(2,4) test_inv_def e)
  moreover have "main_inv n v" using main_inv_cong [of v w] l(4) i by blast
  ultimately have "system_inv b n v" by (simp add: system_inv_def l(2))
  moreover have "currentTestPhase w \<le> currentTestPhase v" by (simp add: l(7) phase_le_END)
  ultimately show ?thesis by blast
qed

section \<open>Steps of the main thread\<close>

lemma spawn_all:
  "\<exists>ps h k. spawn_downloads lib od (\<lambda>_. True) i n (qs, w) = (True, ps, w\<lparr>dl_heap := h, next_ptr := k\<rparr>)"
  "\<exists>ps h k. spawn_uploads lib ou (\<lambda>_. True) i n (qs, w) = (True, ps, w\<lparr>ul_heap := h, next_ptr := k\<rparr>)"
proof (induction n arbitrary: i qs w)
  case 0
  { case 1 show ?case by (simp, intro exI [of _ "dl_heap w"] exI [of _ "next_ptr w"]) simp }
  { case 2 show ?case by (simp, intro exI [of _ "ul_heap w"] exI [of _ "next_ptr w"]) simp }
next
  case (Suc n)
  { case 1
    show ?case using Suc.IH(1) [of "Suc i" "qs @ [next_ptr w]"
        "w\<lparr>dl_heap := (dl_heap w)(next_ptr w \<mapsto> od), next_ptr := Suc (next_ptr w)\<rparr>"]
      by (simp add: Let_def) }
  { case 2
    show ?case using Suc.IH(2) [of "Suc i" "qs @ [next_ptr w]"
        "w\<lparr>ul_heap := (ul_heap w)(next_ptr w \<mapsto> ou), next_ptr := Suc (next_ptr w)\<rparr>"]
      by (simp add: Let_def) }
qed

lemma main_pc_frame [simp]:
  "performed tc (w\<lparr>main_pc := pc\<rparr>) = performed tc w" "wanted tc (w\<lparr>main_pc := pc\<rparr>) = wanted tc w"
  "all_performed (w\<lparr>main_pc := pc\<rparr>) = all_performed w" "undisturbed (w\<lparr>main_pc := pc\<rparr>) = undisturbed w"
  "performed tc (w\<lparr>RUNNING := b\<rparr>) = performed tc w" "wanted tc (w\<lparr>RUNNING := b\<rparr>) = wanted tc w"
  "all_performed (w\<lparr>RUNNING := b\<rparr>) = all_performed w"
  by (simp_all add: performed_def wanted_def all_performed_def undisturbed_def)

lemma tls_overhead_of_result:
  "\<exists>n o1. tls_overhead_of lib provider w = (n, w\<lparr>jMeasurementResultsIp := o1\<rparr>)"
proof -
  have "snd (tls_overhead_of lib provider w) = w\<lparr>jMeasurementResultsIp := jMeasurementResultsIp (snd (tls_overhead_of lib provider w))\<rparr>"
    by (simp add: tls_overhead_of_def Let_def)
  then show ?thesis by (metis prod.collapse)
qed

text \<open>The part of the state that the start of a test case does not touch.\<close>

definition begun_kept :: "'c world \<Rightarrow> 'c world \<Rightarrow> bool" where
  "begun_kept w v \<longleftrightarrow> same_flags w v \<and> timer v = timer w \<and> mTestCase v = mTestCase w \<and>
     conf_sTestName v = conf_sTestName w \<and> IP v = IP w \<and> RTT v = RTT w \<and>
     DOWNLOAD v = DOWNLOAD w \<and> UPLOAD v = UPLOAD w \<and> RUNNING v = RUNNING w \<and>
     hasError v = hasError w \<and> error_flags v = error_flags w \<and> TIMER_RUNNING v = TIMER_RUNNING w \<and>
     trace v = trace w \<and> out v = out w \<and> iosCallbackFunc_set v = iosCallbackFunc_set w"

lemma begin_test_all:
  assumes "1 \<le> tc" "tc \<le> 4" "conf_sTestName w = test_name tc"
    "v = begin_test lib raw (\<lambda>_. True) provider tc w"
  shows "main_pc v = MainThreads tc \<and> reachable_objects tc v \<and> begun_kept w v"
proof -
  consider "tc = 1" | "tc = 2" | "tc = 3" | "tc = 4" using assms(1,2) by linarith
  then show ?thesis
  proof cases
    case 3
    let ?w = "w\<lparr>measurements_streams := 0,
      MEASUREMENT_DURATION := u64 (readLong lib (pXml w) provider ''DL_DURATION'' 10)\<rparr>"
    obtain tls o1 where t: "tls_overhead_of lib provider ?w = (tls, ?w\<lparr>jMeasurementResultsIp := o1\<rparr>)"
      using tls_overhead_of_result by blast
    let ?w1 = "?w\<lparr>jMeasurementResultsIp := o1\<rparr>"
    let ?obj = "Download_new lib (pXml ?w1) provider tls (raw_download raw)"
    obtain ps h k where s: "spawn_downloads lib ?obj (\<lambda>_. True) 0 (nat (conf_instances ?w1)) ([], ?w1) =
        (True, ps, ?w1\<lparr>dl_heap := h, next_ptr := k\<rparr>)"
      using spawn_all(1) by blast
    have v: "v = ?w1\<lparr>dl_heap := h, next_ptr := k, vDownloadThreads := ps, main_pc := MainThreads 3\<rparr>"
      using assms(4) 3 t s by (simp add: begin_test_def Let_def)
    have "set ps \<subseteq> dom h" using spawn_downloads_result [OF s] by auto
    moreover have "conf_sTestName w = ''download''" using assms(3) 3 by (simp add: test_name_def)
    ultimately show ?thesis
      by (simp add: v 3 reachable_objects_def begun_kept_def same_flags_def error_flags_def)
  next
    case 4
    let ?w = "w\<lparr>measurements_streams := 0, MEASUREMENT_DURATION :=
      u64 (i64 (readLong lib (pXml w) provider ''UL_DURATION'' 10 + 2)), measurements_upload_datasize := 0\<rparr>"
    let ?obj = "Upload_new lib (pXml ?w) provider (raw_upload raw)"
    obtain ps h k where s: "spawn_uploads lib ?obj (\<lambda>_. True) 0 (nat (conf_instances ?w)) ([], ?w) =
        (True, ps, ?w\<lparr>ul_heap := h, next_ptr := k\<rparr>)"
      using spawn_all(2) by blast
    have v: "v = ?w\<lparr>ul_heap := h, next_ptr := k, vUploadThreads := ps, main_pc := MainThreads 4\<rparr>"
      using assms(4) 4 s by (simp add: begin_test_def Let_def)
    have "set ps \<subseteq> dom h" using spawn_uploads_result [OF s] by auto
    moreover have "conf_sTestName w = ''upload''" using assms(3) 4 by (simp add: test_name_def)
    ultimately show ?thesis
      by (simp add: v 4 reachable_objects_def begun_kept_def same_flags_def error_flags_def)
  qed (simp_all add: assms(4) begin_test_def Let_def reachable_objects_def begun_kept_def same_flags_def error_flags_def)
qed

lemma startTestCase_all:
  assumes "1 \<le> tc" "tc \<le> 4" "conf_sTestName w = test_name tc"
    "v = startTestCase lib raw (\<lambda>_. True) tc w"
  shows "main_pc v = MainThreads tc" "reachable_objects tc v" "same_flags w v" "mTestCase v = tc"
    "timer_pc (timer v) = TimerOuter" "IP v = IP w" "RTT v = RTT w" "DOWNLOAD v = DOWNLOAD w" "UPLOAD v = UPLOAD w"
proof -
  let ?w1 = "w\<lparr>syncing_threads := [], mTestCase := tc\<rparr>"
  let ?w2 = "if target lib = Desktop then ?w1 else callbackToPlatform lib ''started'' '''' 0 '''' ?w1"
  have "same_flags w (CMeasurement_new lib ?w2)" "mTestCase (CMeasurement_new lib ?w2) = tc"
    "timer_pc (timer (CMeasurement_new lib ?w2)) = TimerOuter" "IP (CMeasurement_new lib ?w2) = IP w"
    "RTT (CMeasurement_new lib ?w2) = RTT w" "DOWNLOAD (CMeasurement_new lib ?w2) = DOWNLOAD w"
    "UPLOAD (CMeasurement_new lib ?w2) = UPLOAD w" "conf_sTestName (CMeasurement_new lib ?w2) = test_name tc"
    by (simp_all add: CMeasurement_new_def CTimer_new_def callbackToPlatform_def same_flags_def Let_def assms(3))
  moreover have "v = begin_test lib raw (\<lambda>_. True) (conf_sProvider ?w2) tc (CMeasurement_new lib ?w2)"
    using assms(4) by (simp only: startTestCase_def Let_def)
  ultimately obtain provider w3 where f: "same_flags w w3" "mTestCase w3 = tc" "timer_pc (timer w3) = TimerOuter"
    "IP w3 = IP w" "RTT w3 = RTT w" "DOWNLOAD w3 = DOWNLOAD w" "UPLOAD w3 = UPLOAD w"
    "conf_sTestName w3 = test_name tc" "v = begin_test lib raw (\<lambda>_. True) provider tc w3"
    by blast
  have b: "main_pc v = MainThreads tc" "reachable_objects tc v" "begun_kept w3 v"
    using begin_test_all [OF assms(1,2) f(8,9)] by simp_all
  show "main_pc v = MainThreads tc" "reachable_objects tc v" by (fact b)+
  show "mTestCase v = tc" "timer_pc (timer v) = TimerOuter" "IP v = IP w" "RTT v = RTT w"
    "DOWNLOAD v = DOWNLOAD w" "UPLOAD v = UPLOAD w"
    using b(3) f(2-7) by (simp_all add: begun_kept_def)
  have "same_flags w3 v" using b(3) by (simp add: begun_kept_def)
  then show "same_flags w v" by (rule same_flags_trans [OF f(1)])
qed

lemma take_test_wanted: "1 \<le> tc \<Longrightarrow> tc \<le> 4 \<Longrightarrow> take_test tc w \<Longrightarrow> wanted tc w"
  by (auto simp: take_test_def wanted_def split: if_splits)

lemma phase_rank_test: "1 \<le> tc \<Longrightarrow> tc \<le> 4 \<Longrightarrow> int (phase_rank (test_phase tc)) = tc \<and> test_phase tc \<noteq> END"
  by (auto simp: test_phase_def)

lemma system_inv_select:
  assumes "system_inv b n w" "main_pc w = MainSelect tc" "v = select_test tc w"
  shows "\<exists>m. system_inv b m v \<and> (b \<longrightarrow> currentTestPhase w \<le> currentTestPhase v)"
proof -
  note i = assms(1) [unfolded system_inv_def]
  have tc: "tc = n" "1 \<le> n" "n \<le> 5" using i assms(2) by (simp_all add: main_inv_def)
  have td: "timer_pc (timer w) = TimerDone" using i assms(2) by (simp add: main_place_def)
  have ph: "b \<longrightarrow> (if currentTestPhase w = END then all_performed w else int (phase_rank (currentTestPhase w)) < n)"
    using i assms(2) by (simp add: phase_inv_def over_def split: if_splits)
  consider "4 < n" | "n \<le> 4" "\<not> take_test n w" | "n \<le> 4" "take_test n w" by linarith
  then show ?thesis
  proof cases
    case 1
    then have v: "v = w\<lparr>currentTestPhase := END, main_pc := MainShutdown\<rparr>"
      using assms(3) tc by (simp add: select_test_def)
    have "\<not> (n \<le> j \<and> j \<le> 4)" for j using 1 by linarith
    then have "system_inv b n v"
      using tc 1 td by (auto simp: v system_inv_def main_inv_def phase_inv_def over_def main_place_def)
    then show ?thesis by (auto simp: v phase_le_END)
  next
    case 2
    then have v: "v = w\<lparr>main_pc := MainSelect (n + 1)\<rparr>" using assms(3) tc by (simp add: select_test_def)
    have "\<forall>j. n + 1 \<le> j \<and> j \<le> 4 \<longrightarrow> \<not> performed j w" using i by simp
    moreover have "performed j v = performed j w" "all_performed v = all_performed w" for j
      by (simp_all add: v performed_def all_performed_def)
    ultimately have "system_inv b (n + 1) v"
      using tc 2(1) td ph
      by (simp add: system_inv_def) (auto simp: v main_inv_def phase_inv_def main_place_def split: if_splits)
    then show ?thesis by (auto simp: v)
  next
    case 3
    then have v: "v = w\<lparr>main_pc := MainPause n\<rparr>" using assms(3) tc by (simp add: select_test_def)
    have "performed j v = performed j w" "all_performed v = all_performed w" for j
      by (simp_all add: v performed_def all_performed_def)
    then have "system_inv b n v"
      using i tc 3(1) td ph take_test_wanted [OF tc(2) 3]
      by (simp add: system_inv_def) (auto simp: v main_inv_def phase_inv_def main_place_def split: if_splits)
    then show ?thesis by (auto simp: v)
  qed
qed

lemma system_inv_start:
  assumes "system_inv b n w" "main_pc w = MainPause tc" "v = start_test lib raw (\<lambda>_. True) tc w"
  shows "\<exists>m. system_inv b m v \<and> (b \<longrightarrow> currentTestPhase w \<le> currentTestPhase v)"
proof -
  note i = assms(1) [unfolded system_inv_def]
  have tc: "tc = n" "1 \<le> n" "n \<le> 4" using i assms(2) by (simp_all add: main_inv_def)
  have td: "timer_pc (timer w) = TimerDone" and w: "wanted n w" using i assms(2) tc by (simp_all add: main_place_def)
  have ph: "b \<longrightarrow> (if currentTestPhase w = END then all_performed w else int (phase_rank (currentTestPhase w)) < n)"
    using i assms(2) by (simp add: phase_inv_def over_def split: if_splits)
  obtain u where u: "v = startTestCase lib raw (\<lambda>_. True) n u" "conf_sTestName u = test_name n"
      "currentTestPhase u = test_phase n" "PERFORMED_IP u = PERFORMED_IP w" "PERFORMED_RTT u = PERFORMED_RTT w"
      "PERFORMED_DOWNLOAD u = PERFORMED_DOWNLOAD w" "PERFORMED_UPLOAD u = PERFORMED_UPLOAD w"
      "IP u = IP w" "RTT u = RTT w" "DOWNLOAD u = DOWNLOAD w" "UPLOAD u = UPLOAD w"
    using assms(3) tc by (simp add: start_test_def Let_def)
  note s = startTestCase_all [OF tc(2,3) u(2,1)]
  have p: "performed j v = performed j w" "wanted j v = wanted j w" for j
    using s(3) by (simp_all add: performed_def wanted_def same_flags_def u(4-11) s(6-9))
  have ph': "currentTestPhase v = test_phase n" using s(3) u(3) by (simp add: same_flags_def)
  have np: "\<not> performed n w" using i tc(3) by blast
  have "\<not> all_performed w"
  proof -
    have "n = 1 \<or> n = 2 \<or> n = 3 \<or> n = 4" using tc(2,3) by linarith
    then show ?thesis using w np by (auto simp: all_performed_wanted)
  qed
  then have lt: "b \<longrightarrow> int (phase_rank (currentTestPhase w)) < n" using ph by (simp split: if_splits)
  have r: "int (phase_rank (test_phase n)) = n" "test_phase n \<noteq> END"
    using phase_rank_test [OF tc(2,3)] by simp_all
  have "system_inv b (n + 1) v"
    using tc s(1,2,4,5) i w np r
    by (simp add: system_inv_def main_inv_def p phase_inv_def ph' main_place_def test_inv_def)
  moreover have "b \<longrightarrow> currentTestPhase w \<le> currentTestPhase v"
    using lt r(1) by (auto simp: ph' less_eq_MeasurementPhase_def)
  ultimately show ?thesis by blast
qed

lemma main_place_over: "exited v \<Longrightarrow> main_place v"
  by (simp add: exited_def main_place_def split: main_pc.splits)

lemma system_inv_main:
  assumes "system_inv b n w" "v = main_step lib raw (\<lambda>_. True) w"
  shows "\<exists>m. system_inv b m v \<and> (b \<longrightarrow> currentTestPhase w \<le> currentTestPhase v)"
proof (cases "main_pc w")
  case (MainSelect tc)
  then show ?thesis using system_inv_select [OF assms(1) MainSelect] assms(2) by (simp add: main_step_def)
next
  case (MainPause tc)
  then show ?thesis using system_inv_start [OF assms(1) MainPause] assms(2) by (simp add: main_step_def)
next
  case (MainThreads tc)
  note i = assms(1) [unfolded system_inv_def]
  have "v = w \<or> v = w\<lparr>main_pc := MainPoll tc\<rparr>"
    using assms(2) MainThreads by (simp add: main_step_def measurement_step_def)
  then show ?thesis
  proof
    assume v: "v = w\<lparr>main_pc := MainPoll tc\<rparr>"
    have "test_inv tc w" using i MainThreads by (simp add: main_place_def)
    have s: "scene v = scene w" by (simp add: v scene_def)
    note e = scene_eqD [OF s]
    have "performed tc v = performed tc w" "timer v = timer w" by (simp_all add: v performed_def)
    with \<open>test_inv tc w\<close> have "test_inv tc v" by (simp add: test_inv_def e)
    then have "system_inv b n v"
      using i MainThreads
      by (auto simp: system_inv_def v main_inv_def main_place_def phase_inv_def over_def)
    then show ?thesis by (auto simp: v)
  qed (use assms(1) in auto)
next
  case (MainPoll tc)
  note i = assms(1) [unfolded system_inv_def]
  have "v = w \<or> v = delete_threads tc (w\<lparr>main_pc := MainTimer tc\<rparr>) \<and> (undisturbed w \<longrightarrow> performed tc w)"
    using assms(2) MainPoll by (auto simp: main_step_def measurement_step_def undisturbed_def)
  then show ?thesis
  proof (elim disjE conjE)
    assume v: "v = delete_threads tc (w\<lparr>main_pc := MainTimer tc\<rparr>)" and d: "undisturbed w \<longrightarrow> performed tc w"
    have t: "test_inv tc w" using i MainPoll by (simp add: main_place_def)
    have f: "main_pc v = MainTimer tc" "timer v = timer w" "mTestCase v = mTestCase w"
      "currentTestPhase v = currentTestPhase w" "performed j v = performed j w" "wanted j v = wanted j w"
      "all_performed v = all_performed w" "undisturbed v = undisturbed w" for j
      by (simp_all add: v delete_threads_def performed_def wanted_def all_performed_def undisturbed_def
          split: option.split)
    have "system_inv b n v"
      using i MainPoll t d
      by (auto simp: system_inv_def main_inv_def f phase_inv_def over_def main_place_def test_inv_def)
    then show ?thesis by (auto simp: f)
  qed (use assms(1) in auto)
next
  case (MainTimer tc)
  note i = assms(1) [unfolded system_inv_def]
  have "v = w \<or> v = w\<lparr>main_pc := MainSelect (tc + 1)\<rparr> \<and> timer_pc (timer w) = TimerDone"
    using assms(2) MainTimer by (auto simp: main_step_def measurement_step_def)
  then show ?thesis
  proof (elim disjE conjE)
    assume v: "v = w\<lparr>main_pc := MainSelect (tc + 1)\<rparr>" and d: "timer_pc (timer w) = TimerDone"
    have "system_inv b n v"
      using i MainTimer d
      by (auto simp: system_inv_def v main_inv_def main_place_def phase_inv_def over_def)
    then show ?thesis by (auto simp: v)
  qed (use assms(1) in auto)
next
  case MainShutdown
  note i = assms(1) [unfolded system_inv_def]
  have v: "v = shutdown lib (w\<lparr>main_pc := MainReturned\<rparr>)"
    using assms(2) MainShutdown by (simp add: main_step_def final_shutdown_def)
  have "system_inv b n v"
    using i MainShutdown
    by (auto simp: system_inv_def v shutdown_def Let_def main_inv_def main_place_def phase_inv_def over_def)
  then show ?thesis by (auto simp: v shutdown_def Let_def)
qed (use assms in \<open>auto simp: main_step_def\<close>)

section \<open>The whole run\<close>

lemma system_step_inv:
  assumes "system_inv b n w" "system_step lib w v"
  shows "\<exists>m. system_inv b m v \<and> (b \<longrightarrow> currentTestPhase w \<le> currentTestPhase v)"
  using assms(2)
proof cases
  case (main raw)
  then show ?thesis using system_inv_main [OF assms(1) main] by blast
next
  case timer
  then show ?thesis using system_inv_timer [OF assms(1)] by blast
next
  case threads
  note k = threads_step_kept [OF threads]
  then have "system_inv b n v" using system_inv_quiet [OF assms(1)] by simp
  then show ?thesis using k by (auto simp: same_flags_def)
qed

lemma system_run_inv:
  assumes "system_run lib w v" "\<exists>n. system_inv b n w"
  shows "(\<exists>m. system_inv b m v) \<and> (b \<longrightarrow> currentTestPhase w \<le> currentTestPhase v)"
  using assms
proof (induction rule: system_run.induct)
  case (step w u v)
  then show ?case using system_step_inv by (meson order.trans)
qed simp

lemma fresh_start_inv: "fresh_start w \<Longrightarrow> system_inv (currentTestPhase w = INIT) 1 w"
  by (auto simp: fresh_start_def system_inv_def main_inv_def performed_def phase_inv_def main_place_def
      exited_def split: main_pc.splits)

section \<open>From the start of the measurement\<close>

lemma reset_globals_fresh:
  "\<not> performed tc (reset_globals w)" "timer (reset_globals w) = timer w" "main_pc (reset_globals w) = main_pc w"
  "currentTestPhase (reset_globals w) = currentTestPhase w" "\<not> hasError (reset_globals w)"
  "\<not> error_flags (reset_globals w)"
  by (simp_all add: reset_globals_def performed_def error_flags_def)

definition launched :: "'c world \<Rightarrow> 'c world \<Rightarrow> bool" where
  "launched w v \<longleftrightarrow> same_flags w v \<and> timer v = timer w \<and> (hasError w \<longrightarrow> hasError v) \<and>
     (error_discipline w \<longrightarrow> error_discipline v)"

lemma launched_trans: "launched u v \<Longrightarrow> launched v w \<Longrightarrow> launched u w"
  using same_flags_trans by (auto simp: launched_def)

lemma launched_parts:
  "launched w (shutdown lib w)" "launched w (write_config lib params host w)"
  "launched w (CCallback_new j w)" "launched w (w\<lparr>main_pc := pc\<rparr>)"
  "launched w (w\<lparr>PLATFORM := p, CLIENT_OS := c, pXml := x\<rparr>)"
  by (simp_all add: launched_def same_flags_def shutdown_def write_config_def CCallback_new_def
      get_timestamp_def error_discipline_def error_flags_def Let_def)

lemma launched_callback:
  assumes "callback lib ''error'' msg code descr w = Inr v"
  shows "launched w v"
  using callback_kept [OF assms] cb.send_monotone(1) [OF assms] cb.send_discipline [OF assms]
  by (simp add: launched_def)

text \<open>A new callback object holds no results but the time of its start.\<close>

definition no_results :: "'c world \<Rightarrow> bool" where
  "no_results w \<longleftrightarrow> jMeasurementResultsPeer w = [] \<and> jMeasurementResultsIp w = [] \<and>
     jMeasurementResultsRttUdp w = [] \<and> jMeasurementResultsDownload w = [] \<and>
     jMeasurementResultsDownloadStreams w = [] \<and> jMeasurementResultsUpload w = [] \<and>
     jMeasurementResultsUploadStreams w = [] \<and>
     (\<exists>n. jMeasurementResultsTime w = [(''measurement_start'', JStr (to_string_int n))])"

text \<open>Where \<open>measurement_init\<close> can end: at once on a desktop without JSON, or behind the configuration,
  with an error first when no test is wanted.\<close>

definition configured :: "'c world \<Rightarrow> 'c world \<Rightarrow> bool" where
  "configured w v \<longleftrightarrow> launched w v \<and> IP v \<and> out v = out w \<and> iosCallbackFunc_set v = iosCallbackFunc_set w \<and>
     ip_heap v = ip_heap w \<and> conf_sTestName v = conf_sTestName w \<and> no_results v \<and> \<not> exited v"

lemma init_cases:
  assumes "measurement_init lib cfg rnd text w0 = Inr w"
  shows "launched (reset_globals w0) w \<and> exited w \<and> (target lib = Desktop \<or> exited w0) \<or>
    (\<exists>u. configured (reset_globals w0) u \<and>
       (w = u\<lparr>main_pc := MainSelect 1\<rparr> \<or>
        (\<exists>v. callback lib ''error'' ''no test case enabled'' 1 ''no test case enabled'' u = Inr v \<and>
           w = (if exited (shutdown lib v) then shutdown lib v else (shutdown lib v)\<lparr>main_pc := MainSelect 1\<rparr>))))"
proof -
  obtain j err where j: "json_parse lib text = (j, err)" by fastforce
  define w1 where "w1 = (if err \<noteq> '''' then shutdown lib (reset_globals w0) else reset_globals w0)"
  have l1: "launched (reset_globals w0) w1"
    using launched_parts(1) by (auto simp: w1_def) (simp add: launched_def same_flags_def)
  have o1: "out w1 = out (reset_globals w0)" "iosCallbackFunc_set w1 = iosCallbackFunc_set (reset_globals w0)"
    "ip_heap w1 = ip_heap (reset_globals w0)" "conf_sTestName w1 = conf_sTestName (reset_globals w0)"
    by (simp_all add: w1_def shutdown_def Let_def)
  show ?thesis
  proof (cases "exited w1")
    case True
    then have "w = w1" using assms j by (simp add: measurement_init_def w1_def Let_def)
    moreover have "target lib = Desktop \<or> exited w0"
      using True by (auto simp: w1_def shutdown_def Let_def exited_def reset_globals_def split: if_splits)
    ultimately show ?thesis using l1 True by simp
  next
    case False
    let ?p = "object_items j"
    obtain t where t: "pick_target (array_items (obj_at ?p ''wsTargets'')) rnd = Inr t"
      using assms j False by (auto simp: measurement_init_def w1_def res_bind_Inr_iff Let_def split: if_splits)
    define w2 where "w2 = write_config lib ?p (string_value t)
      (w1\<lparr>PLATFORM := string_value (obj_at ?p ''platform''), CLIENT_OS := string_value (obj_at ?p ''clientos''), pXml := cfg\<rparr>)"
    define host where "host = readString lib (writeString lib cfg (conf_sProvider w1) ''DNS_HOSTNAME'' (string_value t))
      (conf_sProvider w1) ''DNS_HOSTNAME'' ''example.com''"
    define w3 where "w3 = CCallback_new (JObj (obj_put ''wsTarget'' (JStr host) ?p)) w2"
    have "launched (reset_globals w0) w3"
      unfolding w3_def w2_def
      by (rule launched_trans [OF launched_trans [OF launched_trans [OF l1 launched_parts(5)]
        launched_parts(2)] launched_parts(3)])
    then have c: "configured (reset_globals w0) w3"
      using False
      by (auto simp: configured_def no_results_def w3_def w2_def CCallback_new_def write_config_def get_timestamp_def
          exited_def Let_def o1)
    have r: "(if no_test_enabled w3 then
          res_map (\<lambda>v. let v1 = shutdown lib v in if exited v1 then v1 else v1\<lparr>main_pc := MainSelect 1\<rparr>)
            (callback lib ''error'' ''no test case enabled'' 1 ''no test case enabled'' w3)
        else Inr (w3\<lparr>main_pc := MainSelect 1\<rparr>)) = Inr w"
      using assms False t
      by (simp add: measurement_init_def j w1_def [symmetric] w3_def w2_def host_def Let_def cong: if_cong)
    show ?thesis
    proof (cases "no_test_enabled w3")
      case True
      then obtain v where "callback lib ''error'' ''no test case enabled'' 1 ''no test case enabled'' w3 = Inr v"
        "w = (if exited (shutdown lib v) then shutdown lib v else (shutdown lib v)\<lparr>main_pc := MainSelect 1\<rparr>)"
        using r by (auto simp: res_map_Inr_iff Let_def)
      then show ?thesis using c by blast
    next
      case False
      then show ?thesis using r c by auto
    qed
  qed
qed

lemma init_launched:
  assumes "measurement_init lib cfg rnd text w0 = Inr w"
  shows "launched (reset_globals w0) w \<and> (main_pc w = MainSelect 1 \<or> exited w)"
  using init_cases [OF assms]
proof (elim disjE exE conjE)
  fix u assume u: "configured (reset_globals w0) u" "w = u\<lparr>main_pc := MainSelect 1\<rparr>"
  then have "launched (reset_globals w0) u" by (simp add: configured_def)
  then show ?thesis using launched_trans launched_parts(4) u(2) by fastforce
next
  fix u v assume u: "configured (reset_globals w0) u"
    and v: "callback lib ''error'' ''no test case enabled'' 1 ''no test case enabled'' u = Inr v"
    "w = (if exited (shutdown lib v) then shutdown lib v else (shutdown lib v)\<lparr>main_pc := MainSelect 1\<rparr>)"
  have "launched (reset_globals w0) u" using u by (simp add: configured_def)
  from launched_trans [OF launched_trans [OF this launched_callback [OF v(1)]] launched_parts(1)]
  have "launched (reset_globals w0) (shutdown lib v)" .
  then show ?thesis using launched_trans launched_parts(4) by (auto simp: v(2)) blast
qed simp_all

lemma init_fresh:
  assumes "measurement_init lib cfg rnd text w0 = Inr w" "timer_pc (timer w0) = TimerDone"
  shows "fresh_start w" "error_discipline w" "currentTestPhase w = currentTestPhase w0"
proof -
  have l: "launched (reset_globals w0) w" "main_pc w = MainSelect 1 \<or> exited w"
    using init_launched [OF assms(1)] by blast+
  have sf: "same_flags (reset_globals w0) w" using l(1) by (simp add: launched_def)
  have p: "\<not> performed tc w" for tc
    using same_flags_performed(1) [OF sf] reset_globals_fresh(1) by simp
  show "fresh_start w"
    using l p [of 1] p [of 2] p [of 3] p [of 4] assms(2)
    by (simp add: fresh_start_def launched_def performed_def reset_globals_fresh(2))
  show "error_discipline w" using l(1) reset_globals_fresh(6) [of w0] by (simp add: launched_def error_discipline_def)
  show "currentTestPhase w = currentTestPhase w0"
    using l(1) reset_globals_fresh(4) [of w0] by (simp add: launched_def same_flags_def)
qed

section \<open>The phases\<close>

text \<open>C16: In every run of the whole client, from the start of the process's first measurement and in any
  interleaving of its threads, the phase only moves forward in the order INIT, IP, PING, DOWNLOAD,
  UPLOAD, END. Thread creation succeeds in the run.\<close>

theorem phases_monotone:
  assumes "measurement_init lib cfg rnd text w0 = Inr w" "timer_pc (timer w0) = TimerDone"
    and "currentTestPhase w0 = INIT" "system_run lib w u" "system_run lib u v"
  shows "currentTestPhase u \<le> currentTestPhase v"
proof -
  note f = init_fresh [OF assms(1,2)]
  have "\<exists>n. system_inv True n w" using fresh_start_inv [OF f(1)] f(3) assms(3) by auto
  then have "\<exists>n. system_inv True n u" using system_run_inv [OF assms(4)] by blast
  then show ?thesis using system_run_inv [OF assms(5), of True] by simp
qed

section \<open>A run of the IP test\<close>

text \<open>
  A concrete run from a fresh start, for the witnesses here and in \<open>Lifetimes\<close>: the peer of the
  IP test accepts the connection and closes it again, the timer starts and is about to look at the
  clock. \<open>ip_stage\<close> describes the states on the way.
\<close>

definition ip_params :: json where
  "ip_params = JObj [(''rtt'', JObj [(''performMeasurement'', JBool True)]),
     (''wsTargets'', JArr [JStr ''peer'']), (''wsTargetPort'', JStr ''80'')]"

abbreviation ip_lib :: "unit lib" where
  "ip_lib \<equiv> (lib0 Ios)\<lparr>json_parse := \<lambda>_. (ip_params, [])\<rparr>"

definition ip_process :: "unit world" where
  "ip_process = (process_start () (\<lambda>n. of_nat n * 1000000))\<lparr>RUNNING := True, iosCallbackFunc_set := True\<rparr>"

definition ip_start :: "unit world" where
  "ip_start = (case measurement_init ip_lib () 0 [] ip_process of Inl f \<Rightarrow> ip_process | Inr w \<Rightarrow> w)"

lemmas init_simps = measurement_init_def ip_process_def process_start_def reset_globals_def
  exited_def pick_target_def ip_params_def obj_at_def json_at_def write_config_def CCallback_new_def
  get_timestamp_def no_test_enabled_def Let_def

lemma ip_init:
  "measurement_init ip_lib () 0 [] ip_process = Inr ip_start" "timer_pc (timer ip_process) = TimerDone"
  "currentTestPhase ip_process = INIT"
  by (simp_all add: ip_start_def init_simps)

definition ip_stage ::
  "main_pc \<Rightarrow> timer_pc \<Rightarrow> u64 \<Rightarrow> (int \<times> int) list \<Rightarrow> bool \<Rightarrow> nat \<Rightarrow> run_pc \<Rightarrow> unit world \<Rightarrow> bool" where
  "ip_stage mp tpc t1 sy run cp pc w \<longleftrightarrow>
     main_pc w = mp \<and> timer w = ctimer0\<lparr>timer_pc := tpc, time1 := t1\<rparr> \<and> syncing_threads w = sy \<and>
     TIMER_RUNNING w = run \<and> clock_pos w = cp \<and> clock w = (\<lambda>n. of_nat n * 1000000) \<and>
     TIMER_ACTIVE w \<and> \<not> TIMER_STOPPED w \<and> RUNNING w \<and> \<not> hasError w \<and> \<not> UNREACHABLE w \<and>
     \<not> FORBIDDEN w \<and> \<not> TLS_PARAMETERS_MISSING w \<and> \<not> STREAMS_DROPPED w \<and> mTestCase w = 1 \<and>
     MEASUREMENT_DURATION w = 60 \<and> IP w \<and> \<not> PERFORMED_IP w \<and> ipThread w = Some 0 \<and>
     (\<exists>t. ip_heap w 0 = Some t \<and> run_pc t = pc \<and> (pc = RunReceive \<longrightarrow> pid t = 5 \<and> \<not> dataReceived t)
        \<and> (pc = RunGuard \<longrightarrow> pid t = 5 \<and> \<not> dataReceived t \<and> \<not> m_fStop t) \<and> (pc = RunEntry \<longrightarrow> \<not> m_fStop t))"

lemmas run_simps = main_step_def select_test_def start_test_def take_test_def startTestCase_def begin_test_def
  CMeasurement_new_def test_instances_def initial_delay_def CTimer_new_def callbackToPlatform_def
  get_timestamp_def callback_def init_peer_def report_to_platform_def stamp_end_def set_pc_def Let_def

text \<open>The IP test selected and started.\<close>

abbreviation ip_selected :: "unit world" where
  "ip_selected \<equiv> main_step ip_lib raws0 (\<lambda>_. True) ip_start"

lemma ip_selected_run: "system_run ip_lib ip_start ip_selected"
  by (rule system_run.step [OF system_run.refl system_step.main])

lemma ip_stage_started:
  "ip_stage (MainThreads 1) TimerOuter 0 [] False 1 RunEntry (main_step ip_lib raws0 (\<lambda>_. True) ip_selected)"
  by (simp add: ip_stage_def ip_start_def init_simps run_simps ctimer0_def raws0_def
      Ip_new_def)

definition ip_env :: thread_env where
  "ip_env = \<lparr>te_conn = \<lparr>env_pid = 5, env_socktype = Some 1, env_host = ''h'', env_socket6 = 1, env_socket4 = 1,
     env_response = 0, env_http_duration = 0\<rparr>, te_rx = \<lparr>rx_ret = 0, rx_tls_records = 0, rx_buffer = ''''\<rparr>\<rparr>"

lemma ip_stage_connected:
  assumes "ip_stage mp tpc t1 [] run cp RunEntry w"
  shows "\<exists>v. threads_step ip_lib w v \<and> ip_stage mp tpc t1 [(5, 0)] run (Suc cp) RunGuard v"
proof -
  obtain t where t: "ip_heap w 0 = Some t" "run_pc t = RunEntry" "\<not> m_fStop t"
    using assms by (auto simp: ip_stage_def)
  let ?s = "ip_setup ip_lib (te_conn ip_env) t w"
  have s: "ip_step ip_lib ip_env (t, w) = Inr (fst ?s, snd ?s)" by (simp add: ip_step_def t)
  have "ip_stage mp tpc t1 [(5, 0)] run (Suc cp) RunGuard
      ((snd ?s)\<lparr>ip_heap := (ip_heap (snd ?s))(0 \<mapsto> fst ?s)\<rparr>)"
    using assms t by (simp add: ip_setup_def connect_stream_def resolved_def sync_mark_def
      get_timestamp_def Let_def ip_env_def ip_stage_def i32_def)
  then show ?thesis using threads_step.ip [OF t(1) s] by blast
qed

lemma ip_stage_guarded:
  assumes "ip_stage mp tpc t1 sy run cp RunGuard w"
  shows "\<exists>v. threads_step ip_lib w v \<and> ip_stage mp tpc t1 sy run cp RunReceive v"
proof -
  obtain t where t: "ip_heap w 0 = Some t" "run_pc t = RunGuard" "\<not> m_fStop t" "pid t = 5" "\<not> dataReceived t"
    using assms by (auto simp: ip_stage_def)
  have s: "ip_step ip_lib ip_env (t, w) = Inr (t\<lparr>run_pc := RunReceive\<rparr>, w)"
    using assms t by (simp add: ip_step_def ip_guard_def ip_stage_def)
  have "ip_stage mp tpc t1 sy run cp RunReceive (w\<lparr>ip_heap := (ip_heap w)(0 \<mapsto> t\<lparr>run_pc := RunReceive\<rparr>)\<rparr>)"
    using assms t by (simp add: ip_stage_def)
  then show ?thesis using threads_step.ip [OF t(1) s] by blast
qed

lemma ip_stage_received:
  assumes "ip_stage mp tpc t1 [(5, 0)] run cp RunReceive w"
  shows "\<exists>v. threads_step ip_lib w v \<and> ip_stage mp tpc t1 [(5, 1)] run cp (RunReturned 0) v"
proof -
  obtain t where t: "ip_heap w 0 = Some t" "run_pc t = RunReceive" "pid t = 5" "\<not> dataReceived t"
    using assms by (auto simp: ip_stage_def)
  let ?t = "t\<lparr>mResponse := 0, dataReceived := True, run_pc := RunReturned 0\<rparr>" and ?u = "first_receive t w"
  have s: "ip_step ip_lib ip_env (t, w) = Inr (?t, ?u)" by (simp add: ip_step_def t ip_receive_def ip_env_def)
  have "ip_stage mp tpc t1 [(5, 1)] run cp (RunReturned 0) (?u\<lparr>ip_heap := (ip_heap ?u)(0 \<mapsto> ?t)\<rparr>)"
    using assms t by (simp add: first_receive_def sync_mark_def ip_stage_def i32_def)
  then show ?thesis using threads_step.ip [OF t(1) s] by blast
qed

lemma ip_stage_waited:
  assumes "ip_stage (MainThreads 1) tpc t1 sy run cp (RunReturned 0) w"
  shows "ip_stage (MainPoll 1) tpc t1 sy run cp (RunReturned 0) (main_step ip_lib raws0 (\<lambda>_. True) w)"
  using assms by (auto simp: ip_stage_def main_step_def measurement_step_def threads_ended_def
      all_returned_def returned_def)

lemma ip_stage_info:
  assumes "ip_stage mp tpc t1 sy run cp pc w"
  shows "\<exists>v. callback ip_lib ''info'' msg 0 '''' w = Inr v \<and> ip_stage mp tpc t1 sy run cp pc v"
proof -
  let ?v = "report_to_platform ip_lib ''info'' msg 0 '''' (init_peer (w\<lparr>trace := trace w @ [(''info'', msg)]\<rparr>))"
  have "callback ip_lib ''info'' msg 0 '''' w = Inr ?v" by (simp add: callback_def Let_def)
  moreover have "ip_stage mp tpc t1 sy run cp pc ?v"
    using assms by (simp add: ip_stage_def report_to_platform_def stamp_end_def init_peer_def
        callbackToPlatform_def all_performed_def Let_def)
  ultimately show ?thesis by blast
qed

lemma ip_stage_synced:
  assumes "ip_stage mp TimerOuter t1 [(5, 1)] False cp pc w"
  shows "\<exists>v. timer_step ip_lib w = Inr v \<and> ip_stage mp TimerDelay t1 [(5, 1)] False cp pc v"
proof -
  obtain v where v: "callback ip_lib ''info'' ''starting measurement'' 0 '''' w = Inr v"
    "ip_stage mp TimerOuter t1 [(5, 1)] False cp pc v"
    using ip_stage_info [OF assms] by blast
  have "timer_step ip_lib w = Inr (set_pc TimerDelay v)"
    using assms by (simp add: ip_stage_def timer_step_def outer_step_def loop_condition_def ctimer0_def
        sync_counter_def v(1))
  moreover have "ip_stage mp TimerDelay t1 [(5, 1)] False cp pc (set_pc TimerDelay v)"
    using v(2) by (simp add: ip_stage_def set_pc_def)
  ultimately show ?thesis by blast
qed

lemma ip_stage_running:
  assumes "ip_stage mp TimerDelay t1 sy False cp pc w"
  shows "\<exists>v. timer_step ip_lib w = Inr v \<and>
    ip_stage mp TimerOuter (of_nat cp * 1000000) sy True (Suc cp) pc v"
proof -
  obtain v where v: "callback ip_lib ''info'' ''measurement started'' 0 '''' w = Inr v"
    "ip_stage mp TimerDelay t1 sy False cp pc v"
    using ip_stage_info [OF assms] by blast
  let ?v = "set_pc TimerOuter (v\<lparr>TIMER_RUNNING := True, clock_pos := Suc (clock_pos v),
    timer := (timer v)\<lparr>time1 := clock v (clock_pos v)\<rparr>\<rparr>)"
  have "timer_step ip_lib w = Inr ?v"
    using assms by (simp add: ip_stage_def timer_step_def delay_step_def ctimer0_def get_timestamp_def v(1))
  moreover have "ip_stage mp TimerOuter (of_nat cp * 1000000) sy True (Suc cp) pc ?v"
    using v(2) by (simp add: ip_stage_def set_pc_def)
  ultimately show ?thesis by blast
qed

lemma ip_stage_entered:
  assumes "ip_stage mp TimerOuter t1 sy True cp pc w"
  shows "\<exists>v. timer_step ip_lib w = Inr v \<and> ip_stage mp TimerBody t1 sy True cp pc v"
  using assms by (simp add: ip_stage_def timer_step_def outer_step_def loop_condition_def ctimer0_def
      set_pc_def)

lemma race_reached:
  "\<exists>w. system_run ip_lib ip_start w \<and>
     ip_stage (MainPoll 1) TimerBody 2000000 [(5, 1)] True 3 (RunReturned 0) w"
proof -
  note m = system_step.main and t = system_step.timer and h = system_step.threads
  let ?a = "main_step ip_lib raws0 (\<lambda>_. True) ip_selected"
  have ra: "system_run ip_lib ip_start ?a" by (rule system_run.step [OF ip_selected_run m])
  obtain b where b: "threads_step ip_lib ?a b" "ip_stage (MainThreads 1) TimerOuter 0 [(5, 0)] False 2 RunGuard b"
    using ip_stage_connected [OF ip_stage_started] by (auto simp: numeral_2_eq_2)
  obtain c where c: "threads_step ip_lib b c" "ip_stage (MainThreads 1) TimerOuter 0 [(5, 0)] False 2 RunReceive c"
    using ip_stage_guarded [OF b(2)] by blast
  obtain d where d: "threads_step ip_lib c d"
    "ip_stage (MainThreads 1) TimerOuter 0 [(5, 1)] False 2 (RunReturned 0) d"
    using ip_stage_received [OF c(2)] by blast
  let ?e = "main_step ip_lib raws0 (\<lambda>_. True) d"
  obtain f where f: "timer_step ip_lib ?e = Inr f"
    "ip_stage (MainPoll 1) TimerDelay 0 [(5, 1)] False 2 (RunReturned 0) f"
    using ip_stage_synced [OF ip_stage_waited [OF d(2)]] by blast
  obtain g where g: "timer_step ip_lib f = Inr g"
    "ip_stage (MainPoll 1) TimerOuter 2000000 [(5, 1)] True 3 (RunReturned 0) g"
    using ip_stage_running [OF f(2)] by (auto simp: numeral_2_eq_2 numeral_3_eq_3)
  obtain k where k: "timer_step ip_lib g = Inr k"
    "ip_stage (MainPoll 1) TimerBody 2000000 [(5, 1)] True 3 (RunReturned 0) k"
    using ip_stage_entered [OF g(2)] by blast
  note s = system_run.step
  have "system_run ip_lib ip_start k"
    by (rule s [OF s [OF s [OF s [OF s [OF s [OF s [OF ra h [OF b(1)]] h [OF c(1)]] h [OF d(1)]] m]
      t [OF f(1)]] t [OF g(1)]] t [OF k(1)]])
  then show ?thesis using k(2) by blast
qed

lemma phases_monotone_witness:
  "\<exists>v. system_run ip_lib ip_start v \<and> main_pc v = MainPoll 1 \<and> timer_pc (timer v) = TimerBody \<and>
     currentTestPhase ip_start \<le> currentTestPhase v"
proof -
  obtain v where v: "system_run ip_lib ip_start v"
    "ip_stage (MainPoll 1) TimerBody 2000000 [(5, 1)] True 3 (RunReturned 0) v"
    using race_reached by blast
  have "currentTestPhase ip_start \<le> currentTestPhase v"
    by (rule phases_monotone [OF ip_init system_run.refl v(1)])
  then show ?thesis using v by (auto simp: ip_stage_def ctimer0_def)
qed

end
