(* ===== verification/Lifetimes.thy ===== *)
theory Lifetimes
  imports System
begin

text \<open>
  The life time of the test objects against the callback that reads them through raw pointers:
  without a stop or an error no deleted object is read (\<open>no_dangling\<close>, from the invariant of
  \<open>System\<close>); with a stop on a mobile build one can be (\<open>stop_race\<close>).
\<close>

section \<open>No use of deleted objects\<close>

lemma stoll_no_dangling: "stoll s \<noteq> Inl DanglingPointer"
  by (simp add: stoll_def Let_def)

lemma add_stream_no_dangling: "add_stream o1 a \<noteq> Inl DanglingPointer"
proof -
  have s: "stoll_at o1 k \<noteq> Inl DanglingPointer" for k
    by (simp add: stoll_at_def stoll_no_dangling)
  have b: "res_bind r f \<noteq> Inl DanglingPointer" if "r \<noteq> Inl DanglingPointer" "\<And>x. f x \<noteq> Inl DanglingPointer"
    for r :: "fault + int" and f :: "int \<Rightarrow> fault + step_acc"
    using that by (cases r) auto
  show ?thesis unfolding add_stream_def by (intro b s) simp
qed

definition streams_exist :: "nat list \<Rightarrow> 'c world \<Rightarrow> bool" where
  "streams_exist ps w \<longleftrightarrow> (conf_sTestName w = ''download'' \<longrightarrow> set ps \<subseteq> dom (dl_heap w)) \<and>
     (conf_sTestName w = ''upload'' \<longrightarrow> set ps \<subseteq> dom (ul_heap w))"

lemma only_stamped_exist: "only_stamped w v \<Longrightarrow> streams_exist ps v = streams_exist ps w"
proof -
  assume o: "only_stamped w v"
  have e: "erase_stamps v = erase_stamps w" using o by (simp add: only_stamped_def)
  have "conf_sTestName v = conf_sTestName w" "dom (dl_heap v) = dom (dl_heap w)" "dom (ul_heap v) = dom (ul_heap w)"
    using arg_cong [OF e, of conf_sTestName] o by (simp_all add: erase_stamps_def only_stamped_def)
  then show ?thesis by (simp add: streams_exist_def)
qed

lemma read_stream_no_dangling:
  "streams_exist ps w \<Longrightarrow> p \<in> set ps \<Longrightarrow> read_stream lib cmd current p w \<noteq> Inl DanglingPointer"
  by (auto simp: read_stream_def streams_exist_def deref_def split: option.split)

lemma res_bind_not_Inl:
  "r \<noteq> Inl e \<Longrightarrow> (\<And>x. r = Inr x \<Longrightarrow> f x \<noteq> Inl e) \<Longrightarrow> res_bind r f \<noteq> Inl e"
  by (cases r) simp_all

lemma res_map_not_Inl: "r \<noteq> Inl e \<Longrightarrow> res_map f r \<noteq> Inl e"
  by (cases r) simp_all

lemma res_map_Inl_iff: "res_map f r = Inl e \<longleftrightarrow> r = Inl e"
  by (cases r) simp_all

lemma calc_thread_no_dangling:
  assumes "streams_exist ps (snd (snd s))" "p \<in> set ps"
  shows "calc_thread lib cmd current ms step p s \<noteq> Inl DanglingPointer"
proof -
  obtain a per w where s: "s = (a, per, w)" by (cases s) auto
  have r: "read_stream lib cmd current p w \<noteq> Inl DanglingPointer"
    using assms read_stream_no_dangling by (simp add: s)
  show ?thesis
    unfolding s calc_thread_def prod.case
    by (intro res_bind_not_Inl r)
      (auto simp: Let_def case_prod_beta intro!: res_map_not_Inl add_stream_no_dangling)
qed

lemma calc_threads_no_dangling:
  "streams_exist qs (snd (snd s)) \<Longrightarrow> set ps \<subseteq> set qs \<Longrightarrow>
     calc_threads lib cmd current ms step ps s \<noteq> Inl DanglingPointer"
proof (induction ps arbitrary: s)
  case (Cons p ps)
  obtain a per w where s: "s = (a, per, w)" by (cases s) auto
  show ?case unfolding calc_threads.simps
  proof (rule res_bind_not_Inl)
    show "calc_thread lib cmd current ms step p s \<noteq> Inl DanglingPointer"
      using Cons.prems by (intro calc_thread_no_dangling [of qs]) simp_all
    fix x assume x: "calc_thread lib cmd current ms step p s = Inr x"
    obtain a' per' v where y: "x = (a', per', v)" by (cases x) auto
    have "only_stamped w v" using x unfolding s y by (rule calc_thread_frame)
    then have "streams_exist qs v" using Cons.prems(1) by (simp add: s only_stamped_exist)
    then show "calc_threads lib cmd current ms step ps x \<noteq> Inl DanglingPointer"
      using Cons.IH Cons.prems(2) by (simp add: y)
  qed
qed simp

lemma calc_step_no_dangling:
  assumes "streams_exist ps w"
  shows "calc_step lib cmd ms ps step (res, per, w) \<noteq> Inl DanglingPointer"
proof -
  have "streams_exist ps (w\<lparr>clock_pos := Suc (clock_pos w)\<rparr>)"
    using assms by (simp add: streams_exist_def)
  then have "calc_threads lib cmd (clock w (clock_pos w)) ms step ps
      (new_acc lib, per, w\<lparr>clock_pos := Suc (clock_pos w)\<rparr>) \<noteq> Inl DanglingPointer"
    by (intro calc_threads_no_dangling [of ps]) simp_all
  then show ?thesis by (simp add: calc_step_def get_timestamp_def res_map_not_Inl)
qed

lemma only_evaluated_exist: "only_evaluated b w v \<Longrightarrow> streams_exist ps v = streams_exist ps w"
proof -
  assume o: "only_evaluated b w v"
  have e: "erase_eval v = erase_eval w" using o by (simp add: only_evaluated_def)
  have "conf_sTestName v = conf_sTestName w"
    using arg_cong [OF e, of conf_sTestName] by (simp add: erase_eval_def erase_stamps_def)
  moreover have "dom (dl_heap v) = dom (dl_heap w)" "dom (ul_heap v) = dom (ul_heap w)"
    using o by (simp_all add: only_evaluated_def)
  ultimately show ?thesis by (simp add: streams_exist_def)
qed

lemma calc_steps_no_dangling:
  "streams_exist ps w \<Longrightarrow> calc_steps lib cmd ms ps steps (res, per, w) \<noteq> Inl DanglingPointer"
proof (induction steps arbitrary: res per w)
  case (Cons step steps)
  show ?case unfolding calc_steps.simps
  proof (rule res_bind_not_Inl)
    show "calc_step lib cmd ms ps step (res, per, w) \<noteq> Inl DanglingPointer"
      by (rule calc_step_no_dangling [OF Cons.prems])
    fix x assume x: "calc_step lib cmd ms ps step (res, per, w) = Inr x"
    obtain res' per' v where y: "x = (res', per', v)" by (cases x) auto
    obtain b where "only_evaluated b w v" using calc_step_frame [OF x [unfolded y]] by blast
    then show "calc_steps lib cmd ms ps steps x \<noteq> Inl DanglingPointer"
      using Cons only_evaluated_exist unfolding y by blast
  qed
qed simp

lemma calculate_no_dangling:
  assumes "streams_exist ps w"
  shows "calculateMeasurementResultsDownloadUpload lib cmd ps w \<noteq> Inl DanglingPointer"
proof -
  note c = calc_steps_no_dangling [OF assms]
  show ?thesis
    unfolding calculateMeasurementResultsDownloadUpload_def publish_results_def Let_def
    by (intro res_bind_not_Inl c) (auto simp: res_map_Inl_iff stoll_no_dangling split: if_splits)
qed

text \<open>The callback of a test case whose objects exist.\<close>

lemma reachable_init_peer [simp]:
  "reachable_objects tc (init_peer w) = reachable_objects tc w" "mTestCase (init_peer w) = mTestCase w"
  "reachable_objects tc (w\<lparr>trace := t\<rparr>) = reachable_objects tc w"
  "reachable_objects tc (w\<lparr>timer := tm\<rparr>) = reachable_objects tc w"
  by (simp_all add: init_peer_def reachable_objects_def split: option.split)

lemma test_case_no_dangling:
  assumes "1 \<le> mTestCase w" "mTestCase w \<le> 4" "reachable_objects (mTestCase w) w"
  shows "test_case_callback lib cmd w \<noteq> Inl DanglingPointer"
proof -
  consider "mTestCase w = 1" | "mTestCase w = 2" | "mTestCase w = 3" | "mTestCase w = 4"
    using assms(1,2) by linarith
  then show ?thesis
  proof cases
    case 1
    have "deref (ip_heap w) (ipThread w) \<noteq> Inl DanglingPointer"
      using assms(3) 1 by (auto simp: reachable_objects_def deref_def split: option.splits)
    then show ?thesis by (simp add: 1 test_case_callback_def ipCallback_def res_map_not_Inl)
  next
    case 2
    have "deref (ping_heap w) (pingThread w) \<noteq> Inl DanglingPointer"
      using assms(3) 2 by (auto simp: reachable_objects_def deref_def split: option.splits)
    then show ?thesis by (simp add: 2 test_case_callback_def rttUdpCallback_def res_map_not_Inl)
  next
    case 3
    have "streams_exist (vDownloadThreads w) w"
      using assms(3) 3 by (simp add: reachable_objects_def streams_exist_def)
    then show ?thesis
      by (simp add: 3 test_case_callback_def downloadCallback_def res_map_not_Inl calculate_no_dangling)
  next
    case 4
    have "streams_exist (vUploadThreads w) w"
      using assms(3) 4 by (simp add: reachable_objects_def streams_exist_def)
    then show ?thesis
      by (simp add: 4 test_case_callback_def uploadCallback_def res_map_not_Inl calculate_no_dangling)
  qed
qed

definition may_evaluate :: "'c world \<Rightarrow> bool" where
  "may_evaluate w \<longleftrightarrow> 1 \<le> mTestCase w \<and> mTestCase w \<le> 4 \<and> reachable_objects (mTestCase w) w"

lemma may_evaluate_timer: "may_evaluate (w\<lparr>timer := t\<rparr>) = may_evaluate w"
  by (simp add: may_evaluate_def)

lemma may_evaluate_advance: "may_evaluate (advance_timer w) = may_evaluate w"
  by (simp add: may_evaluate_def advance_timer_def get_timestamp_def Let_def reachable_objects_def
      split: option.split)

lemma callback_no_dangling: "may_evaluate w \<Longrightarrow> callback lib cmd msg code descr w \<noteq> Inl DanglingPointer"
proof -
  assume m: "may_evaluate w"
  let ?w = "init_peer (w\<lparr>trace := trace w @ [(cmd, msg)]\<rparr>)"
  have "test_case_callback lib cmd ?w \<noteq> Inl DanglingPointer"
    using m by (intro test_case_no_dangling) (simp_all add: may_evaluate_def)
  then show ?thesis by (simp add: callback_def Let_def res_map_Inl_iff)
qed

lemma timer_step_no_dangling:
  assumes m: "may_evaluate w"
  shows "timer_step lib w \<noteq> Inl DanglingPointer"
proof -
  note c = callback_no_dangling and t = may_evaluate_timer may_evaluate_advance
  have o: "outer_step lib w \<noteq> Inl DanglingPointer"
    using m by (simp add: outer_step_def signal_error_def res_map_Inl_iff c t)
  have d: "delay_step lib w \<noteq> Inl DanglingPointer"
    using m by (simp add: delay_step_def res_map_Inl_iff c)
  have b: "body_step lib w \<noteq> Inl DanglingPointer"
    using m by (simp add: body_step_def Let_def signal_error_def res_map_Inl_iff c t)
  have l: "left_step lib w \<noteq> Inl DanglingPointer"
    using m by (simp add: left_step_def res_map_Inl_iff c)
  show ?thesis
    by (cases "timer_pc (timer w)") (simp_all add: timer_step_def o d b l)
qed

lemma system_inv_may_evaluate:
  assumes "system_inv b n v" "undisturbed v" "timer_pc (timer v) \<noteq> TimerDone" "\<not> exited v"
  shows "may_evaluate v"
proof -
  note i = assms(1) [unfolded system_inv_def]
  have m: "1 \<le> mTestCase v" "mTestCase v < n" "n \<le> 5"
    using i assms(3) by (simp_all add: main_inv_def)
  have "main_place v" using i by blast
  then obtain tc where "test_inv tc v"
    using assms(2-4) by (cases "main_pc v") (auto simp: main_place_def exited_def)
  then show ?thesis using m by (simp add: may_evaluate_def test_inv_def)
qed

text \<open>C7: In every run of the whole client, from the start of a measurement on, as long as nobody stops the measurement and no error
  is signalled and the process runs, the timer never makes the callback follow a pointer to a deleted test object: the
  main thread deletes the objects of a test case only behind its last evaluation. Thread creation
  succeeds in the run.\<close>

theorem no_dangling:
  assumes "measurement_init lib cfg rnd text w0 = Inr w" "timer_pc (timer w0) = TimerDone"
    and "system_run lib w v" "undisturbed v" "\<not> exited v"
  shows "timer_step lib v \<noteq> Inl DanglingPointer"
proof -
  obtain n b where i: "system_inv b n v"
    using system_run_inv [OF assms(3)] fresh_start_inv [OF init_fresh(1) [OF assms(1,2)]] by blast
  show ?thesis
  proof (cases "timer_pc (timer v)")
    case TimerDone
    then show ?thesis by (simp add: timer_step_def)
  qed (use system_inv_may_evaluate [OF i assms(4) _ assms(5)] in \<open>simp_all add: timer_step_no_dangling\<close>)
qed

section \<open>A stop while the timer evaluates\<close>

lemma calculate_gone:
  assumes "read_stream lib cmd (clock w (clock_pos w)) p (w\<lparr>clock_pos := Suc (clock_pos w)\<rparr>) = Inl e" "1 \<le> max_steps_of w"
  shows "calculateMeasurementResultsDownloadUpload lib cmd (p # ps) w = Inl e"
proof -
  have "[1..max_steps_of w] = 1 # [1 + 1..max_steps_of w]" using assms(2) by (simp add: upto_rec1)
  then show ?thesis
    using assms(1) by (simp add: evaluation_defs
        get_timestamp_def calc_thread_def)
qed

lemma advance_timer_objects:
  "mTestCase (advance_timer w) = mTestCase w" "conf_sTestName (advance_timer w) = conf_sTestName w"
  "ipThread (advance_timer w) = ipThread w" "pingThread (advance_timer w) = pingThread w"
  "vDownloadThreads (advance_timer w) = vDownloadThreads w" "vUploadThreads (advance_timer w) = vUploadThreads w"
  "ip_heap (advance_timer w) = ip_heap w" "ping_heap (advance_timer w) = ping_heap w"
  "dl_heap (advance_timer w) = dl_heap w" "ul_heap (advance_timer w) = ul_heap w"
  "timer (advance_timer w) = timer w"
  by (simp_all add: advance_timer_def get_timestamp_def Let_def)

lemma max_steps_of_cong:
  "TIMER_DURATION v = TIMER_DURATION w \<Longrightarrow> conf_sTestName v = conf_sTestName w \<Longrightarrow>
     MEASUREMENT_DURATION v = MEASUREMENT_DURATION w \<Longrightarrow> max_steps_of v = max_steps_of w"
  by (simp only: max_steps_of_def)

text \<open>What the evaluation of a test case follows: the pointer, or the list and its first step.\<close>

definition follows_pointer :: "int \<Rightarrow> 'c world \<Rightarrow> bool" where
  "follows_pointer tc w \<longleftrightarrow>
     (if tc = 1 then ipThread w \<noteq> None else if tc = 2 then pingThread w \<noteq> None
      else if tc = 3 then conf_sTestName w = ''download'' \<and> vDownloadThreads w \<noteq> [] \<and> 1 \<le> max_steps_of w
      else conf_sTestName w = ''upload'' \<and> vUploadThreads w \<noteq> [] \<and> 1 \<le> max_steps_of w)"

definition objects_gone :: "int \<Rightarrow> 'c world \<Rightarrow> bool" where
  "objects_gone tc w \<longleftrightarrow>
     (if tc = 1 then (\<forall>p. ipThread w = Some p \<longrightarrow> ip_heap w p = None)
      else if tc = 2 then (\<forall>p. pingThread w = Some p \<longrightarrow> ping_heap w p = None)
      else if tc = 3 then (\<forall>p\<in>set (vDownloadThreads w). dl_heap w p = None)
      else (\<forall>p\<in>set (vUploadThreads w). ul_heap w p = None))"

lemma delete_threads_gone: "objects_gone tc (delete_threads tc w)"
  by (auto simp: objects_gone_def delete_threads_def fold_delete)

lemma test_case_gone:
  assumes "mTestCase w = tc" "1 \<le> tc" "tc \<le> 4" "follows_pointer tc w" "objects_gone tc w"
  shows "test_case_callback lib cmd w = Inl DanglingPointer"
proof -
  consider "tc = 1" | "tc = 2" | "tc = 3" | "tc = 4" using assms(2,3) by linarith
  then show ?thesis
  proof cases
    case 1
    then show ?thesis
      using assms by (auto simp: test_case_callback_def ipCallback_def deref_def follows_pointer_def objects_gone_def)
  next
    case 2
    then show ?thesis
      using assms by (auto simp: test_case_callback_def rttUdpCallback_def deref_def follows_pointer_def objects_gone_def)
  next
    case 3
    then obtain p ps where p: "vDownloadThreads w = p # ps" "dl_heap w p = None" "1 \<le> max_steps_of w"
      "conf_sTestName w = ''download''"
      using assms(4,5) by (auto simp: follows_pointer_def objects_gone_def neq_Nil_conv)
    have r: "read_stream lib cmd t p (w\<lparr>clock_pos := n\<rparr>) = Inl DanglingPointer" for t n
      using p by (simp add: read_stream_def deref_def)
    show ?thesis
      using assms(1) 3 by (simp add: test_case_callback_def downloadCallback_def p(1) calculate_gone [OF r p(3)])
  next
    case 4
    then obtain p ps where p: "vUploadThreads w = p # ps" "ul_heap w p = None" "1 \<le> max_steps_of w"
      "conf_sTestName w = ''upload''"
      using assms(4,5) by (auto simp: follows_pointer_def objects_gone_def neq_Nil_conv)
    have r: "read_stream lib cmd t p (w\<lparr>clock_pos := n\<rparr>) = Inl DanglingPointer" for t n
      using p by (simp add: read_stream_def deref_def)
    show ?thesis
      using assms(1) 4 by (simp add: test_case_callback_def uploadCallback_def p(1) calculate_gone [OF r p(3)])
  qed
qed

lemma evaluated_frame:
  "follows_pointer tc (init_peer (x\<lparr>timer := tm, trace := t\<rparr>)) = follows_pointer tc x"
  "objects_gone tc (init_peer (x\<lparr>timer := tm, trace := t\<rparr>)) = objects_gone tc x"
  "mTestCase (init_peer (x\<lparr>timer := tm, trace := t\<rparr>)) = mTestCase x"
proof -
  let ?y = "init_peer (x\<lparr>timer := tm, trace := t\<rparr>)"
  have e: "ipThread ?y = ipThread x" "pingThread ?y = pingThread x" "vDownloadThreads ?y = vDownloadThreads x"
    "vUploadThreads ?y = vUploadThreads x" "conf_sTestName ?y = conf_sTestName x"
    "ip_heap ?y = ip_heap x" "ping_heap ?y = ping_heap x" "dl_heap ?y = dl_heap x" "ul_heap ?y = ul_heap x"
    "TIMER_DURATION ?y = TIMER_DURATION x" "MEASUREMENT_DURATION ?y = MEASUREMENT_DURATION x"
    and m: "mTestCase ?y = mTestCase x"
    by (simp_all add: init_peer_def)
  have s: "max_steps_of ?y = max_steps_of x" by (rule max_steps_of_cong [OF e(10,5,11)])
  show "follows_pointer tc ?y = follows_pointer tc x" by (simp only: follows_pointer_def e s)
  show "objects_gone tc ?y = objects_gone tc x" by (simp only: objects_gone_def e)
  show "mTestCase ?y = mTestCase x" by (rule m)
qed

text \<open>C35: A stop on a mobile build can make the timer follow a pointer to a deleted object: the main
  thread stops waiting for the evaluation and deletes the objects, and a report that the timer has
  already decided on reads them.\<close>

theorem stop_race:
  assumes "target lib \<noteq> Desktop" "main_pc w = MainPoll tc" "mTestCase w = tc" "1 \<le> tc" "tc \<le> 4"
    and "timer_pc (timer w) = TimerBody" "\<not> STREAMS_DROPPED w"
    and "TIMER_INDEX (advance_timer w) \<noteq> current_index (timer w)"
    and "follows_pointer tc (advance_timer w)"
  shows "timer_step lib (main_step lib raw creates (measurementStop lib w)) = Inl DanglingPointer"
proof -
  let ?v = "delete_threads tc (w\<lparr>RUNNING := False, main_pc := MainTimer tc\<rparr>)"
  have v: "main_step lib raw creates (measurementStop lib w) = ?v"
    using assms(1,2) by (simp add: measurementStop_def shutdown_def main_step_def measurement_step_def)
  have k: "timer ?v = timer w" "STREAMS_DROPPED ?v = STREAMS_DROPPED w"
    by (simp_all add: delete_threads_def)
  have d: "TIMER_INDEX (advance_timer ?v) = TIMER_INDEX (advance_timer w)"
    "TIMER_DURATION (advance_timer ?v) = TIMER_DURATION (advance_timer w)"
    "MEASUREMENT_DURATION (advance_timer ?v) = MEASUREMENT_DURATION (advance_timer w)"
    "conf_sTestName (advance_timer ?v) = conf_sTestName (advance_timer w)"
    "ipThread (advance_timer ?v) = ipThread (advance_timer w)"
    "pingThread (advance_timer ?v) = pingThread (advance_timer w)"
    "vDownloadThreads (advance_timer ?v) = vDownloadThreads (advance_timer w)"
    "vUploadThreads (advance_timer ?v) = vUploadThreads (advance_timer w)"
    "mTestCase (advance_timer ?v) = mTestCase w"
    by (simp_all add: advance_timer_def get_timestamp_def Let_def delete_threads_def)
  let ?a = "advance_timer ?v"
  let ?b = "init_peer (?a\<lparr>timer := (timer ?a)\<lparr>current_index := TIMER_INDEX ?a\<rparr>,
    trace := trace ?a @ [(''report'', ''measurement report'')]\<rparr>)"
  note e = max_steps_of_cong [OF d(2,4,3)]
  have "follows_pointer tc ?a" using assms(9) by (simp only: follows_pointer_def d(4-8) e)
  then have f: "follows_pointer tc ?b" by (simp only: evaluated_frame)
  have "objects_gone tc ?a"
    using delete_threads_gone [of tc "w\<lparr>RUNNING := False, main_pc := MainTimer tc\<rparr>"]
    by (simp only: objects_gone_def advance_timer_objects)
  then have g: "objects_gone tc ?b" by (simp only: evaluated_frame)
  have m: "mTestCase ?b = tc" using d(9) assms(3) by (simp only: evaluated_frame)
  note t = test_case_gone [OF m assms(4,5) f g]
  show ?thesis
    unfolding v using assms(6-8) t d(1)
    by (simp add: timer_step_def k body_step_def Let_def callback_def advance_timer_objects)
qed

lemma no_dangling_witness:
  "\<exists>v. system_run ip_lib ip_start v \<and> main_pc v = MainPoll 1 \<and> timer_pc (timer v) = TimerBody \<and>
     timer_step ip_lib v \<noteq> Inl DanglingPointer"
proof -
  obtain v where v: "system_run ip_lib ip_start v"
    "ip_stage (MainPoll 1) TimerBody 2000000 [(5, 1)] True 3 (RunReturned 0) v"
    using race_reached by blast
  then have "undisturbed v" "\<not> exited v" by (simp_all add: ip_stage_def undisturbed_def exited_def)
  from no_dangling [OF ip_init(1,2) v(1) this] show ?thesis
    using v by (auto simp: ip_stage_def ctimer0_def)
qed

text \<open>The state before the stop is reached from a fresh start.\<close>

lemma stop_race_witness:
  "\<exists>v. system_run ip_lib ip_start v \<and> timer_step ip_lib v \<noteq> Inl DanglingPointer \<and>
     timer_step ip_lib (main_step ip_lib raws0 (\<lambda>_. True) (measurementStop ip_lib v))
       = Inl DanglingPointer"
proof -
  obtain v where v: "system_run ip_lib ip_start v"
    "ip_stage (MainPoll 1) TimerBody 2000000 [(5, 1)] True 3 (RunReturned 0) v"
    using race_reached by blast
  have p: "ipThread v = Some 0" "main_pc v = MainPoll 1" "mTestCase v = 1" "timer_pc (timer v) = TimerBody"
    "\<not> STREAMS_DROPPED v" "clock v = (\<lambda>n. of_nat n * 1000000)" "clock_pos v = 3"
    "time1 (timer v) = 2000000" "current_index (timer v) = 0" "MEASUREMENT_DURATION v = 60" "may_evaluate v"
    using v(2) by (auto simp: ip_stage_def ctimer0_def may_evaluate_def reachable_objects_def)
  have "TIMER_INDEX (advance_timer v) = 2"
    by (simp add: advance_timer_def get_timestamp_def p Let_def word_le_nat_alt i32_def)
  then have "timer_step ip_lib (main_step ip_lib raws0 (\<lambda>_. True) (measurementStop ip_lib v))
      = Inl DanglingPointer"
    using p by (intro stop_race [of _ _ 1]) (simp_all add: follows_pointer_def advance_timer_objects)
  then show ?thesis using v(1) timer_step_no_dangling [OF p(11)] by blast
qed

end
