(* ===== verification/Pieces.thy ===== *)
theory Pieces
  imports Lifetimes
begin

text \<open>
  The evaluation in the pieces in which it really runs. \<open>mutex1\<close> is taken for one stream of one
  step at a time, so the test threads and the main thread run between the streams:
  \<open>eval_step\<close> is one such piece, \<open>eval_run\<close> a run with others in between. Left alone, the pieces
  compute what \<open>calculateMeasurementResultsDownloadUpload\<close> computes in one go
  (\<open>evaluation_in_pieces\<close>). In \<open>evaluation_among_threads\<close> the others are the steps of the real
  test threads and of the main thread (\<open>beside\<close>), who may also delete objects; \<open>dropped_race\<close>
  is the case in which the main thread does so.
\<close>

section \<open>The pieces\<close>

text \<open>
  The local variables of the evaluation. \<open>ev_steps\<close> are the half seconds to go, the current one
  first; \<open>ev_streams\<close> are the streams still to be visited in it, \<open>None\<close> at the head of the loop.
\<close>

record evaluation =
  ev_steps :: "int list"
  ev_streams :: "nat list option"
  ev_current :: u64
  ev_acc :: step_acc
  ev_res :: "json list"
  ev_per :: "json list"

definition start_eval :: "'c lib \<Rightarrow> int \<Rightarrow> evaluation" where
  "start_eval lib ms = \<lparr>ev_steps = [1..ms], ev_streams = None, ev_current = 0, ev_acc = new_acc lib,
     ev_res = [], ev_per = []\<rparr>"

definition eval_step ::
  "'c lib \<Rightarrow> string \<Rightarrow> int \<Rightarrow> nat list \<Rightarrow> evaluation \<times> 'c world \<Rightarrow> fault + evaluation \<times> 'c world" where
  "eval_step lib cmd ms ps s =
     (case s of (e, w) \<Rightarrow>
        (case ev_steps e of
           [] \<Rightarrow> Inr (e, w)
         | step # rest \<Rightarrow>
             (case ev_streams e of
                None \<Rightarrow>
                  (let (current, w1) = get_timestamp w
                   in Inr (e\<lparr>ev_streams := Some ps, ev_current := current, ev_acc := new_acc lib\<rparr>, w1))
              | Some [] \<Rightarrow>
                  (let (res, per, w1) = end_step lib cmd (ev_res e) (ev_acc e, ev_per e, w)
                   in Inr (e\<lparr>ev_steps := rest, ev_streams := None, ev_res := res, ev_per := per\<rparr>, w1))
              | Some (p # qs) \<Rightarrow>
                  res_map (\<lambda>(a, per, w1). (e\<lparr>ev_streams := Some qs, ev_acc := a, ev_per := per\<rparr>, w1))
                    (calc_thread lib cmd (ev_current e) ms step p (ev_acc e, ev_per e, w)))))"

fun eval_steps ::
  "'c lib \<Rightarrow> string \<Rightarrow> int \<Rightarrow> nat list \<Rightarrow> nat \<Rightarrow> evaluation \<times> 'c world \<Rightarrow> fault + evaluation \<times> 'c world" where
  "eval_steps lib cmd ms ps 0 s = Inr s"
| "eval_steps lib cmd ms ps (Suc n) s = res_bind (eval_step lib cmd ms ps s) (eval_steps lib cmd ms ps n)"

definition collected :: "evaluation \<times> 'c world \<Rightarrow> json list \<times> json list \<times> 'c world" where
  "collected s = (ev_res (fst s), ev_per (fst s), snd s)"

section \<open>Left alone\<close>

lemma eval_steps_done: "ev_steps e = [] \<Longrightarrow> eval_steps lib cmd ms ps n (e, w) = Inr (e, w)"
  by (induction n) (simp_all add: eval_step_def)

lemma eval_streams_run:
  "ev_steps e = step # rest \<Longrightarrow> ev_streams e = Some qs \<Longrightarrow>
     eval_steps lib cmd ms ps (length qs + n) (e, w) =
     res_bind (calc_threads lib cmd (ev_current e) ms step qs (ev_acc e, ev_per e, w))
       (\<lambda>(a, per, v). eval_steps lib cmd ms ps n (e\<lparr>ev_streams := Some [], ev_acc := a, ev_per := per\<rparr>, v))"
proof (induction qs arbitrary: e w)
  case Nil
  then have "e\<lparr>ev_streams := Some []\<rparr> = e" by simp
  then show ?case by simp
next
  case (Cons p qs)
  show ?case
  proof (cases "calc_thread lib cmd (ev_current e) ms step p (ev_acc e, ev_per e, w)")
    case (Inl f)
    then show ?thesis using Cons.prems by (simp add: eval_step_def)
  next
    case (Inr y)
    obtain a per v where y: "y = (a, per, v)" by (cases y) auto
    let ?e = "e\<lparr>ev_streams := Some qs, ev_acc := a, ev_per := per\<rparr>"
    have "eval_step lib cmd ms ps (e, w) = Inr (?e, v)" using Cons.prems Inr y by (simp add: eval_step_def)
    then show ?thesis using Cons.IH [of ?e v] Cons.prems(1) Inr y by simp
  qed
qed

lemma eval_one_step:
  assumes "ev_steps e = step # rest" "ev_streams e = None"
  shows "\<exists>f. eval_steps lib cmd ms ps (Suc (length ps + Suc n)) (e, w) =
      res_bind (calc_step lib cmd ms ps step (collected (e, w)))
        (\<lambda>(res, per, v). eval_steps lib cmd ms ps n (f res per v, v)) \<and>
      (\<forall>res per v. ev_steps (f res per v) = rest \<and> ev_streams (f res per v) = None \<and>
        collected (f res per v, v) = (res, per, v))"
proof -
  let ?c = "clock w (clock_pos w)" and ?w = "w\<lparr>clock_pos := Suc (clock_pos w)\<rparr>"
  let ?e = "e\<lparr>ev_streams := Some ps, ev_current := ?c, ev_acc := new_acc lib\<rparr>"
  show ?thesis
  proof (cases "calc_threads lib cmd ?c ms step ps (new_acc lib, ev_per e, ?w)")
    case (Inl g)
    then have "eval_steps lib cmd ms ps (Suc (length ps + Suc n)) (e, w) = Inl g"
      using assms eval_streams_run [of ?e step rest ps lib cmd ms ps "Suc n" ?w]
      by (simp add: eval_step_def get_timestamp_def)
    moreover have "calc_step lib cmd ms ps step (collected (e, w)) = Inl g"
      using Inl by (simp add: calc_step_def collected_def get_timestamp_def)
    ultimately show ?thesis
      by (intro exI [of _ "\<lambda>res per v. e\<lparr>ev_steps := rest, ev_res := res, ev_per := per\<rparr>"])
        (simp add: collected_def assms)
  next
    case (Inr y)
    obtain a per v where y: "y = (a, per, v)" by (cases y) auto
    let ?d = "?e\<lparr>ev_streams := Some [], ev_acc := a, ev_per := per\<rparr>"
    let ?f = "\<lambda>res per v. ?d\<lparr>ev_steps := rest, ev_streams := None, ev_res := res, ev_per := per\<rparr>"
    have "eval_step lib cmd ms ps (e, w) = Inr (?e, ?w)"
      using assms by (simp add: eval_step_def get_timestamp_def)
    then have "eval_steps lib cmd ms ps (Suc (length ps + Suc n)) (e, w) =
        eval_steps lib cmd ms ps (length ps + Suc n) (?e, ?w)"
      by (subst eval_steps.simps(2)) (simp del: eval_steps.simps)
    also have "\<dots> = eval_steps lib cmd ms ps (Suc n) (?e\<lparr>ev_streams := Some [], ev_acc := a, ev_per := per\<rparr>, v)"
      using assms eval_streams_run [of ?e step rest ps lib cmd ms ps "Suc n" ?w] Inr y
      by (simp del: eval_steps.simps add_Suc_right)
    finally have "eval_steps lib cmd ms ps (Suc (length ps + Suc n)) (e, w) =
        eval_steps lib cmd ms ps (Suc n) (?e\<lparr>ev_streams := Some [], ev_acc := a, ev_per := per\<rparr>, v)" .
    moreover have "eval_steps lib cmd ms ps (Suc n) (?d, v) =
        (\<lambda>(res, per, v). eval_steps lib cmd ms ps n (?f res per v, v)) (end_step lib cmd (ev_res e) (a, per, v))"
      using assms by (simp add: eval_step_def split: prod.split)
    moreover have "calc_step lib cmd ms ps step (collected (e, w)) = Inr (end_step lib cmd (ev_res e) (a, per, v))"
      using Inr y by (simp add: calc_step_def collected_def get_timestamp_def)
    ultimately show ?thesis
      by (intro exI [of _ ?f]) (simp add: collected_def del: eval_steps.simps)
  qed
qed

lemma eval_all_steps:
  "ev_steps e = steps \<Longrightarrow> ev_streams e = None \<Longrightarrow>
     res_map collected (eval_steps lib cmd ms ps (length steps * (length ps + 2) + k) (e, w)) =
     calc_steps lib cmd ms ps steps (collected (e, w))"
proof (induction steps arbitrary: e w)
  case Nil
  then show ?case by (simp add: eval_steps_done)
next
  case (Cons step steps)
  let ?n = "length steps * (length ps + 2) + k"
  obtain f where f: "eval_steps lib cmd ms ps (Suc (length ps + Suc ?n)) (e, w) =
      res_bind (calc_step lib cmd ms ps step (collected (e, w)))
        (\<lambda>(res, per, v). eval_steps lib cmd ms ps ?n (f res per v, v))"
    "\<And>res per v. ev_steps (f res per v) = steps \<and> ev_streams (f res per v) = None \<and>
        collected (f res per v, v) = (res, per, v)"
    using eval_one_step [OF Cons.prems] by blast
  have n: "length (step # steps) * (length ps + 2) + k = Suc (length ps + Suc ?n)" by simp
  show ?case
  proof (cases "calc_step lib cmd ms ps step (collected (e, w))")
    case (Inl g)
    then show ?thesis by (simp only: n f(1) calc_steps.simps res_bind_simps res_map_simps)
  next
    case (Inr y)
    obtain res per v where y: "y = (res, per, v)" by (cases y) auto
    have "res_map collected (eval_steps lib cmd ms ps ?n (f res per v, v)) =
        calc_steps lib cmd ms ps steps (collected (f res per v, v))"
      using f(2) [of res per v] by (intro Cons.IH) simp_all
    then show ?thesis
      using f(2) [of res per v] by (simp only: n f(1) Inr y calc_steps.simps res_bind_simps prod.case)
  qed
qed

text \<open>Left alone, the evaluation that takes \<open>mutex1\<close> stream by stream computes exactly what the
  evaluation in one go computes, exceptions included: after one piece per step for the clock, one
  for each stream and one for the sums, the loop has ended and the lists are published.\<close>

lemma evaluation_in_pieces:
  fixes w :: "'c world"
  shows "res_bind (eval_steps lib cmd (max_steps_of w) ps (nat (max_steps_of w) * (length ps + 2) + k)
        (start_eval lib (max_steps_of w), w)) (\<lambda>s. publish_results (collected s)) =
    calculateMeasurementResultsDownloadUpload lib cmd ps w"
proof -
  let ?ms = "max_steps_of w" and ?s = "(start_eval lib (max_steps_of w), w)"
  let ?n = "length [1..?ms] * (length ps + 2) + k"
  have c: "res_map collected (eval_steps lib cmd ?ms ps ?n ?s) =
      calc_steps lib cmd ?ms ps [1..?ms] (collected ?s)"
    by (rule eval_all_steps) (simp_all add: start_eval_def)
  have b: "res_bind r (\<lambda>s. publish_results (collected s)) = res_bind (res_map collected r) publish_results"
    for r :: "fault + evaluation \<times> 'c world" by (cases r) simp_all
  have "length [1..?ms] = nat ?ms" by simp
  with c have "res_map collected (eval_steps lib cmd ?ms ps (nat ?ms * (length ps + 2) + k) ?s) =
      calc_steps lib cmd ?ms ps [1..?ms] (collected ?s)" by simp
  then show ?thesis
    by (simp only: b) (simp add: calculateMeasurementResultsDownloadUpload_def collected_def start_eval_def Let_def)
qed

section \<open>Among the other threads\<close>

text \<open>
  \<open>eval_run\<close>: pieces of the evaluation with steps of others in between; \<open>rely\<close> says what these
  may do to the shared state.
\<close>

inductive eval_run ::
  "('c world \<Rightarrow> 'c world \<Rightarrow> bool) \<Rightarrow> 'c lib \<Rightarrow> string \<Rightarrow> int \<Rightarrow> nat list \<Rightarrow>
     evaluation \<times> 'c world \<Rightarrow> evaluation \<times> 'c world \<Rightarrow> bool"
  for rely lib cmd ms ps where
  start: "eval_run rely lib cmd ms ps s s"
| own: "eval_run rely lib cmd ms ps s t \<Longrightarrow> eval_step lib cmd ms ps t = Inr u \<Longrightarrow> eval_run rely lib cmd ms ps s u"
| others: "eval_run rely lib cmd ms ps s (e, w) \<Longrightarrow> rely w v \<Longrightarrow> eval_run rely lib cmd ms ps s (e, v)"

text \<open>
  Where the evaluation is: \<open>i\<close> steps are behind it, each with one object in \<open>ev_res\<close> and one
  per stream in \<open>ev_per\<close>.
\<close>

definition eval_at :: "int \<Rightarrow> int \<Rightarrow> nat list \<Rightarrow> evaluation \<Rightarrow> bool" where
  "eval_at i ms ps e \<longleftrightarrow> ev_steps e = [i..ms] \<and> 1 \<le> i \<and> i \<le> max 1 (ms + 1) \<and> length (ev_res e) = nat (i - 1) \<and>
     (case ev_streams e of
        None \<Rightarrow> length (ev_per e) = nat (i - 1) * length ps
      | Some qs \<Rightarrow> i \<le> ms \<and> (\<exists>rs. ps = rs @ qs \<and> length (ev_per e) = nat (i - 1) * length ps + length rs))"

definition eval_inv :: "int \<Rightarrow> nat list \<Rightarrow> evaluation \<times> 'c world \<Rightarrow> bool" where
  "eval_inv ms ps s \<longleftrightarrow> streams_exist ps (snd s) \<and> speed_test (snd s) \<and> (\<exists>i. eval_at i ms ps (fst s))"

definition objects_stay :: "'c world \<Rightarrow> 'c world \<Rightarrow> bool" where
  "objects_stay w v \<longleftrightarrow> conf_sTestName v = conf_sTestName w \<and>
     dom (dl_heap w) \<subseteq> dom (dl_heap v) \<and> dom (ul_heap w) \<subseteq> dom (ul_heap v)"

lemma threads_stay: "threads_step lib w v \<Longrightarrow> objects_stay w v"
proof -
  assume "threads_step lib w v"
  from threads_step_kept [OF this] have "scene v = scene w" by (simp add: kept_def)
  then show ?thesis by (simp add: scene_def objects_stay_def)
qed

lemma streams_stay:
  assumes "objects_stay w v"
  shows "streams_exist ps w \<Longrightarrow> streams_exist ps v" "speed_test v = speed_test w"
proof -
  have n: "conf_sTestName v = conf_sTestName w"
    and d: "dom (dl_heap w) \<subseteq> dom (dl_heap v)" "dom (ul_heap w) \<subseteq> dom (ul_heap v)"
    using assms by (simp_all add: objects_stay_def)
  show "streams_exist ps v" if "streams_exist ps w"
    using that subset_trans [OF _ d(1)] subset_trans [OF _ d(2)] by (simp add: streams_exist_def n)
  show "speed_test v = speed_test w" by (simp add: speed_test_def n)
qed

lemma eval_inv_others: "eval_inv ms ps (e, w) \<Longrightarrow> objects_stay w v \<Longrightarrow> eval_inv ms ps (e, v)"
  using streams_stay [of w v] by (simp add: eval_inv_def)

lemma calc_thread_per:
  assumes "calc_thread lib cmd current ms step p (a, per, w) = Inr (a', per', v)"
  shows "\<exists>obj. per' = per @ [obj]"
proof -
  obtain x w1 where r: "read_stream lib cmd current p w = Inr (x, w1)"
    using assms by (cases "read_stream lib cmd current p w") (auto simp: calc_thread_def)
  show ?thesis using assms by (auto simp: calc_thread_def r Let_def case_prod_beta res_map_Inr_iff)
qed

lemma only_stamped_name: "only_stamped w v \<Longrightarrow> conf_sTestName v = conf_sTestName w"
proof -
  assume o: "only_stamped w v"
  then have "erase_stamps v = erase_stamps w" by (simp add: only_stamped_def)
  from arg_cong [OF this, of conf_sTestName] show ?thesis by (simp add: erase_stamps_def)
qed

lemma end_step_frame:
  assumes "end_step lib cmd res (a, per, w) = (res', per', v)" "speed_test w"
  shows "per' = per" "length res' = Suc (length res)" "v = mark_dropped (agg_streams a = 0) w"
  using assms by (auto simp: end_step_def speed_test_def mark_dropped_def Let_def split: if_splits)

lemma upto_eq_ConsD: "[i..ms] = step # rest \<Longrightarrow> step = i \<and> rest = [i + 1..ms] \<and> i \<le> ms"
  by (cases "i \<le> ms") (auto simp: upto_rec1 [of i ms])

lemma eval_inv_step:
  assumes i: "eval_inv ms ps s" and s: "eval_step lib cmd ms ps s = Inr t"
  shows "eval_inv ms ps t"
proof (cases "ev_steps (fst s)")
  case Nil
  then show ?thesis using s i by (cases s) (simp add: eval_step_def)
next
  case (Cons step rest)
  obtain e w where sw: "s = (e, w)" by (cases s)
  obtain j where at: "eval_at j ms ps e" and ex: "streams_exist ps w" "speed_test w"
    using i by (auto simp: eval_inv_def sw)
  have "[j..ms] = step # rest" using at Cons by (simp add: eval_at_def sw)
  note u = upto_eq_ConsD [OF this]
  have j: "1 \<le> j" "length (ev_res e) = nat (j - 1)" "nat j = Suc (nat (j - 1))" "j + 1 \<le> max 1 (ms + 1)"
    using at u by (auto simp: eval_at_def)
  show ?thesis
  proof (cases "ev_streams e")
    case None
    let ?t = "e\<lparr>ev_streams := Some ps, ev_current := clock w (clock_pos w), ev_acc := new_acc lib\<rparr>"
    have t: "t = (?t, w\<lparr>clock_pos := Suc (clock_pos w)\<rparr>)"
      using s Cons None by (simp add: eval_step_def sw get_timestamp_def)
    have "eval_at j ms ps ?t" using at None u by (simp add: eval_at_def)
    then show ?thesis using ex by (auto simp: eval_inv_def t streams_exist_def speed_test_def)
  next
    case (Some qs)
    obtain rs where rs: "ps = rs @ qs" "length (ev_per e) = nat (j - 1) * length ps + length rs"
      using at Some by (auto simp: eval_at_def)
    show ?thesis
    proof (cases qs)
      case Nil
      obtain res per v where e: "end_step lib cmd (ev_res e) (ev_acc e, ev_per e, w) = (res, per, v)"
        by (cases "end_step lib cmd (ev_res e) (ev_acc e, ev_per e, w)")
      note f = end_step_frame [OF e ex(2)]
      let ?t = "e\<lparr>ev_steps := rest, ev_streams := None, ev_res := res, ev_per := per\<rparr>"
      have t: "t = (?t, v)" using s Cons Some Nil e by (simp add: sw eval_step_def)
      have "streams_exist ps v" "speed_test v" using ex f(3) by (simp_all add: mark_dropped_def streams_exist_def speed_test_def)
      moreover have "eval_at (j + 1) ms ps ?t" using u j f(1,2) rs Nil by (simp add: eval_at_def)
      ultimately show ?thesis by (auto simp: eval_inv_def t)
    next
      case C: (Cons p qs')
      then obtain a per v where c: "calc_thread lib cmd (ev_current e) ms step p (ev_acc e, ev_per e, w) = Inr (a, per, v)"
        and t: "t = (e\<lparr>ev_streams := Some qs', ev_acc := a, ev_per := per\<rparr>, v)"
        using s Cons Some by (auto simp: sw eval_step_def res_map_Inr_iff)
      have o: "only_stamped w v" using calc_thread_frame [OF c] .
      obtain obj where "per = ev_per e @ [obj]" using calc_thread_per [OF c] by blast
      then have "eval_at j ms ps (fst t)"
        using at rs C u by (auto simp: eval_at_def t intro!: exI [of _ "rs @ [p]"])
      moreover have "streams_exist ps v" "speed_test v"
        using ex only_stamped_exist [OF o] only_stamped_name [OF o] by (simp_all add: speed_test_def)
      ultimately show ?thesis by (auto simp: eval_inv_def t)
    qed
  qed
qed

lemma eval_step_no_dangling:
  assumes "eval_inv ms ps s"
  shows "eval_step lib cmd ms ps s \<noteq> Inl DanglingPointer"
proof -
  obtain e w where sw: "s = (e, w)" by (cases s)
  show ?thesis
  proof (cases "\<exists>step rest p qs. ev_steps e = step # rest \<and> ev_streams e = Some (p # qs)")
    case True
    then obtain step rest p qs where q: "ev_steps e = step # rest" "ev_streams e = Some (p # qs)" by blast
    then have "p \<in> set ps" "streams_exist ps w"
      using assms by (auto simp: eval_inv_def eval_at_def sw)
    then have "calc_thread lib cmd (ev_current e) ms step p (ev_acc e, ev_per e, w) \<noteq> Inl DanglingPointer"
      by (intro calc_thread_no_dangling [of ps]) simp_all
    then show ?thesis using q by (simp add: sw eval_step_def res_map_Inl_iff)
  next
    case False
    then show ?thesis
      by (auto simp: sw eval_step_def get_timestamp_def split: list.split option.split prod.split)
  qed
qed

definition published_streams :: "'c world \<Rightarrow> json list" where
  "published_streams w = (if conf_sTestName w = ''download'' then jMeasurementResultsDownloadStreams w
     else jMeasurementResultsUploadStreams w)"

lemma eval_inv_end:
  assumes "eval_inv ms ps (e, v)" "ev_steps e = []"
  shows "length (ev_res e) = nat ms" "length (ev_per e) = nat ms * length ps" "speed_test v"
proof -
  obtain j where j: "eval_at j ms ps e" and "speed_test v" using assms(1) by (auto simp: eval_inv_def)
  then show "speed_test v" by blast
  have "j = max 1 (ms + 1)" using j assms(2) by (auto simp: eval_at_def)
  then have "nat (j - 1) = nat ms" by linarith
  moreover have "ev_streams e = None" using j assms(2) by (auto simp: eval_at_def split: option.splits)
  ultimately show "length (ev_res e) = nat ms" "length (ev_per e) = nat ms * length ps"
    using j by (simp_all add: eval_at_def)
qed

text \<open>
  Nothing takes an error or a stop back, so a state without one tells about the whole way to it:
  the main thread still waits for the test case \<open>tc\<close>, and the evaluation is where it should be.
\<close>

definition parses :: "json \<Rightarrow> bool" where
  "parses j \<longleftrightarrow> (\<exists>n. stoll (string_value (json_at j ''throughput_avg_bps'')) = Inr n)"

definition watched :: "'c lib \<Rightarrow> int \<Rightarrow> int \<Rightarrow> nat list \<Rightarrow> evaluation \<times> 'c world \<Rightarrow> bool" where
  "watched lib tc ms ps s \<longleftrightarrow> (undisturbed (snd s) \<longrightarrow> eval_inv ms ps s \<and> \<not> performed tc (snd s) \<and>
     (main_pc (snd s) = MainThreads tc \<or> main_pc (snd s) = MainPoll tc) \<and>
     (avg_fits lib \<longrightarrow> list_all parses (ev_res (fst s))))"

lemma eval_step_frame:
  assumes "eval_step lib cmd ms ps (e, w) = Inr (e', w')"
  shows "main_pc w' = main_pc w" "performed tc w' = performed tc w" "undisturbed w' \<Longrightarrow> undisturbed w"
    "avg_fits lib \<Longrightarrow> list_all parses (ev_res e) \<Longrightarrow> list_all parses (ev_res e')"
proof -
  have stamped: "main_pc v = main_pc u \<and> performed tc v = performed tc u \<and> undisturbed v = undisturbed u"
    if "only_stamped u v" for u v :: "'a world"
  proof -
    have e: "erase_stamps v = erase_stamps u" using that by (simp add: only_stamped_def)
    show ?thesis
      using arg_cong [OF e, of main_pc] arg_cong [OF e, of PERFORMED_IP] arg_cong [OF e, of PERFORMED_RTT]
        arg_cong [OF e, of PERFORMED_DOWNLOAD] arg_cong [OF e, of PERFORMED_UPLOAD]
        arg_cong [OF e, of RUNNING] arg_cong [OF e, of hasError]
      by (simp add: erase_stamps_def performed_def undisturbed_def)
  qed
  have "main_pc w' = main_pc w \<and> performed tc w' = performed tc w \<and> (undisturbed w' \<longrightarrow> undisturbed w) \<and>
      (avg_fits lib \<longrightarrow> list_all parses (ev_res e) \<longrightarrow> list_all parses (ev_res e'))"
  proof (cases "ev_steps e")
    case Nil
    then show ?thesis using assms by (simp add: eval_step_def)
  next
    case st: (Cons step rest)
    show ?thesis
    proof (cases "ev_streams e")
      case None
      then show ?thesis
        using assms st by (auto simp: eval_step_def get_timestamp_def performed_def undisturbed_def)
    next
      case (Some qs)
      show ?thesis
      proof (cases qs)
        case Nil
        then show ?thesis
          using assms st Some throughput_fits [of lib]
          by (auto simp: eval_step_def end_step_def performed_def undisturbed_def parses_def Let_def split: if_splits)
      next
        case (Cons p qs')
        then obtain a per where c: "calc_thread lib cmd (ev_current e) ms step p (ev_acc e, ev_per e, w) = Inr (a, per, w')"
          and "e' = e\<lparr>ev_streams := Some qs', ev_acc := a, ev_per := per\<rparr>"
          using assms st Some by (auto simp: eval_step_def res_map_Inr_iff)
        then show ?thesis using stamped [OF calc_thread_frame [OF c]] by simp
      qed
    qed
  qed
  then show "main_pc w' = main_pc w" "performed tc w' = performed tc w" "undisturbed w' \<Longrightarrow> undisturbed w"
    "avg_fits lib \<Longrightarrow> list_all parses (ev_res e) \<Longrightarrow> list_all parses (ev_res e')" by blast+
qed

lemma watched_own:
  assumes "watched lib tc ms ps s" "eval_step lib cmd ms ps s = Inr t"
  shows "watched lib tc ms ps t"
proof -
  obtain e w e' w' where st: "s = (e, w)" "t = (e', w')" by (cases s; cases t)
  note f = eval_step_frame [OF assms(2) [unfolded st]]
  show ?thesis
    using assms(1) f eval_inv_step [OF _ assms(2)] unfolding watched_def st by auto
qed

text \<open>The other threads: the test threads, a stop, and the main thread, which waits.\<close>

inductive beside :: "'c lib \<Rightarrow> 'c world \<Rightarrow> 'c world \<Rightarrow> bool" for lib where
  threads: "threads_step lib w v \<Longrightarrow> beside lib w v"
| main: "beside lib w (main_step lib raw creates w)"

lemma spawn_RUNNING:
  "spawn_downloads lib od creates i n (ps, w) = (ok, qs, v) \<Longrightarrow> RUNNING v = RUNNING w"
  "spawn_uploads lib ou creates i n (ps, w) = (ok, qs, v) \<Longrightarrow> RUNNING v = RUNNING w"
proof (induction n arbitrary: i ps w)
  case (Suc n)
  { case 1
    then show ?case using Suc.IH(1) by (fastforce simp: Let_def split: if_splits) }
  { case 2
    then show ?case using Suc.IH(2) by (fastforce simp: Let_def split: if_splits) }
qed auto

lemma begin_test_RUNNING: "RUNNING (begin_test lib raw creates provider tc w) = RUNNING w"
proof -
  have t: "RUNNING u = RUNNING x" if "tls_overhead_of lib provider x = (n, u)" for n u and x :: "'a world"
    using that by (auto simp: tls_overhead_of_def Let_def split: if_splits)
  show ?thesis
    by (auto simp: begin_test_def Let_def dest!: spawn_RUNNING t split: prod.splits)
qed

lemma main_step_disturbed: "\<not> undisturbed w \<Longrightarrow> \<not> undisturbed (main_step lib raw creates w)"
proof -
  have "RUNNING (main_step lib raw creates w) \<Longrightarrow> RUNNING w"
    by (auto simp: main_step_def select_test_def start_test_def startTestCase_def begin_test_RUNNING
        CMeasurement_new_def CTimer_new_def callbackToPlatform_def final_shutdown_def shutdown_def
        measurement_step_def Let_def split: main_pc.splits if_splits)
  then show "\<not> undisturbed w \<Longrightarrow> \<not> undisturbed (main_step lib raw creates w)"
    using main_step_hasError [of w lib raw creates] by (auto simp: undisturbed_def)
qed

lemma threads_step_stop: "threads_step lib w v \<Longrightarrow> main_pc v = main_pc w \<or> \<not> RUNNING v"
proof (induction rule: threads_step.induct)
  case (stop w)
  then show ?case by (simp add: measurementStop_def shutdown_def Let_def)
qed (simp_all add: worker_effect_kept(4) [OF ipt.effect] worker_effect_kept(4) [OF pg.effect]
    worker_effect_kept(4) [OF dl.effect] worker_effect_kept(4) [OF ul.effect])

lemma watched_others:
  assumes "watched lib tc ms ps (e, w)" "beside lib w v"
  shows "watched lib tc ms ps (e, v)"
  using assms(2)
proof cases
  case threads
  note k = threads_step_kept [OF threads]
  then have u: "undisturbed v \<Longrightarrow> undisturbed w" "performed tc v = performed tc w"
    by (simp_all add: kept_def same_flags_performed)
  have pc: "undisturbed v \<Longrightarrow> main_pc v = main_pc w"
    using threads_step_stop [OF threads] by (auto simp: undisturbed_def)
  show ?thesis
    using assms(1) u pc eval_inv_others [OF _ threads_stay [OF threads]] unfolding watched_def by auto
next
  case (main raw creates)
  show ?thesis
  proof (cases "undisturbed w")
    case True
    then have w: "eval_inv ms ps (e, w)" "\<not> performed tc w" "main_pc w = MainThreads tc \<or> main_pc w = MainPoll tc"
      using assms(1) by (simp_all add: watched_def)
    then have "v = w \<or> v = w\<lparr>main_pc := MainPoll tc\<rparr>"
      using True main by (auto simp: main_step_def measurement_step_def undisturbed_def)
    then show ?thesis
      using assms(1) w
      by (auto simp: watched_def eval_inv_def streams_exist_def speed_test_def)
  next
    case False
    then have "\<not> undisturbed v" using main main_step_disturbed by blast
    then show ?thesis by (simp add: watched_def)
  qed
qed

lemma eval_run_watched:
  assumes "eval_run (beside lib) lib cmd ms ps s t" "watched lib tc ms ps s"
  shows "watched lib tc ms ps t"
  using assms
proof (induction rule: eval_run.induct)
  case (own s t u)
  then show ?case using watched_own by blast
next
  case (others s e w v)
  then show ?case using watched_others by blast
qed simp

text \<open>Where the main thread and the objects are while the timer of a speed test runs.\<close>

definition stream_pointers :: "int \<Rightarrow> 'c world \<Rightarrow> nat list" where
  "stream_pointers tc w = (if tc = 3 then vDownloadThreads w else vUploadThreads w)"

lemma running_test:
  assumes "system_inv b n w" "undisturbed w" "\<not> exited w" "timer_pc (timer w) \<noteq> TimerDone"
    and "mTestCase w = 3 \<or> mTestCase w = 4"
  shows "watched lib (mTestCase w) ms (stream_pointers (mTestCase w) w) (start_eval lib ms, w)"
proof -
  let ?tc = "mTestCase w"
  have "main_place w" using assms(1) by (simp add: system_inv_def)
  then have t: "test_inv ?tc w" "main_pc w = MainThreads ?tc \<or> main_pc w = MainPoll ?tc"
    using assms(2-4) by (auto simp: main_place_def exited_def test_inv_def split: main_pc.splits)
  have "\<not> performed ?tc w" using t(1) assms(4) by (simp add: test_inv_def)
  moreover have "streams_exist (stream_pointers ?tc w) w" "speed_test w"
    using t(1) assms(5) by (auto simp: test_inv_def reachable_objects_def streams_exist_def stream_pointers_def speed_test_def)
  moreover have "eval_at 1 ms ps (start_eval lib ms)" for ps by (simp add: eval_at_def start_eval_def)
  ultimately show ?thesis
    using t(2) by (auto simp: watched_def eval_inv_def start_eval_def)
qed

text \<open>C10: In every run of the whole client, when the evaluation of a speed test takes \<open>mutex1\<close> stream by
  stream, with any steps of the test threads and of the main thread between these pieces, it
  never reads a deleted object as long as no error is raised and nobody stops; and at the end of
  its loop, when the library's average fits a \<open>long long\<close>, it publishes one object per half
  second, and one per stream and half second. Thread creation succeeds in the run.\<close>

theorem evaluation_among_threads:
  assumes "fresh_start w0" "system_run lib w0 w" "timer_pc (timer w) \<noteq> TimerDone" "\<not> exited w"
    and "mTestCase w = 3 \<or> mTestCase w = 4" "ps = stream_pointers (mTestCase w) w" "1 \<le> ms" "undisturbed w"
    and "eval_run (beside lib) lib cmd ms ps (start_eval lib ms, w) (e, v)" "undisturbed v" "avg_fits lib"
  shows "eval_step lib cmd ms ps (e, v) \<noteq> Inl DanglingPointer \<and>
    (ev_steps e = [] \<longrightarrow> (\<exists>u. publish_results (collected (e, v)) = Inr u \<and>
       length (published u) = nat ms \<and> length (published_streams u) = nat ms * length ps))"
proof -
  obtain b n where "system_inv b n w" using system_run_inv [OF assms(2)] fresh_start_inv [OF assms(1)] by blast
  then have "watched lib (mTestCase w) ms ps (start_eval lib ms, w)"
    using running_test [OF _ assms(8,4,3,5)] assms(6) by simp
  then have "watched lib (mTestCase w) ms ps (e, v)" by (rule eval_run_watched [OF assms(9)])
  then have i: "eval_inv ms ps (e, v)" "list_all parses (ev_res e)" using assms(10,11) by (simp_all add: watched_def)
  have "\<exists>u. publish_results (collected (e, v)) = Inr u \<and> length (published u) = nat ms \<and>
      length (published_streams u) = nat ms * length ps" if "ev_steps e = []"
  proof -
    note l = eval_inv_end [OF i(1) that]
    then have "ev_res e \<noteq> []" using assms(7) by auto
    then obtain k where "stoll (string_value (json_at (last (ev_res e)) ''throughput_avg_bps'')) = Inr k"
      using bspec [OF i(2) [unfolded list_all_iff] last_in_set] by (auto simp: parses_def)
    then show ?thesis
      using \<open>ev_res e \<noteq> []\<close> l
      by (auto simp: publish_results_def collected_def published_def published_streams_def speed_test_def Let_def)
  qed
  then show ?thesis using eval_step_no_dangling [OF i(1)] by blast
qed

section \<open>All streams dropped\<close>

lemma eval_run_own:
  assumes "eval_run rely lib cmd ms ps s t" "eval_steps lib cmd ms ps n t = Inr u"
  shows "eval_run rely lib cmd ms ps s u"
  using assms
proof (induction n arbitrary: t)
  case (Suc n)
  then obtain r where "eval_step lib cmd ms ps t = Inr r" "eval_steps lib cmd ms ps n r = Inr u"
    by (auto simp: res_bind_Inr_iff)
  then show ?case using Suc eval_run.own by metis
qed simp

lemma main_poll_deletes:
  assumes "main_pc w = MainPoll tc" "hasError w"
  shows "main_step lib raw creates w = delete_threads tc (w\<lparr>main_pc := MainTimer tc\<rparr>)"
  using assms by (simp add: main_step_def measurement_step_def)

text \<open>C11: When all streams of a download have dropped, the client can read deleted objects on every
  platform: the first half second of the evaluation raises \<open>hasError\<close>, the main thread, which
  waits for the evaluation, then deletes the streams, and the second half second reads them.\<close>

theorem dropped_race:
  assumes "conf_sTestName w = ''download''" "main_pc w = MainPoll 3" "ps = vDownloadThreads w" "ps \<noteq> []"
    and "none_counts w ps" "2 \<le> ms"
    and "\<forall>p\<in>set ps. stream_readable w ms 1 (clock w (clock_pos w)) p"
  shows "\<exists>s. eval_run (\<lambda>u v. v = main_step lib raw creates u) lib cmd ms ps (start_eval lib ms, w) s
    \<and> eval_step lib cmd ms ps s = Inl DanglingPointer"
proof -
  let ?rely = "\<lambda>u v. v = main_step lib raw creates u" and ?s = "(start_eval lib ms, w)"
  have sp: "speed_test w" using assms(1) by (simp add: speed_test_def)
  obtain objs v0 where c: "calc_step lib cmd ms ps 1 ([], [], w) =
      Inr ([JObj (step_object lib cmd (step_seconds w)
             (acc_all w ms 1 (clock w (clock_pos w)) ps (new_acc lib)) v0)],
           objs, mark_dropped True v0)" and o: "only_stamped w v0"
    using calc_step_result [OF sp _ _ assms(7), of lib cmd "[]" "[]"] assms(5,6) by (auto simp: none_counts_def)
  have st: "ev_steps (start_eval lib ms) = 1 # [2..ms]" "ev_streams (start_eval lib ms) = None"
    using assms(6) by (simp_all add: start_eval_def upto_rec1)
  obtain e v where e: "eval_steps lib cmd ms ps (Suc (length ps + Suc 0)) ?s = Inr (e, v)"
    "ev_steps e = [2..ms]" "ev_streams e = None" "v = mark_dropped True v0"
    using eval_one_step [OF st, of lib cmd ms ps 0 w] c by (auto simp: collected_def start_eval_def)
  let ?d = "delete_threads 3 (v\<lparr>main_pc := MainTimer 3\<rparr>)"
  have k: "erase_stamps v0 = erase_stamps w" using o by (simp add: only_stamped_def)
  have f: "conf_sTestName v = ''download''" "main_pc v = MainPoll 3" "vDownloadThreads v = ps" "hasError v"
    using arg_cong [OF k, of conf_sTestName] arg_cong [OF k, of main_pc] arg_cong [OF k, of vDownloadThreads]
      assms(1-3) by (simp_all add: e(4) mark_dropped_def erase_stamps_def)
  have r: "eval_run ?rely lib cmd ms ps ?s (e, ?d)"
    using eval_run.others [OF eval_run_own [OF eval_run.start e(1)], of ?rely] main_poll_deletes [OF f(2,4)]
    by (simp add: e(1))
  let ?e = "e\<lparr>ev_streams := Some ps, ev_current := clock ?d (clock_pos ?d), ev_acc := new_acc lib\<rparr>"
  let ?w = "?d\<lparr>clock_pos := Suc (clock_pos ?d)\<rparr>"
  obtain rest where l: "ev_steps e = 2 # rest" using e(2) assms(6) by (simp add: upto_rec1)
  have "eval_step lib cmd ms ps (e, ?d) = Inr (?e, ?w)"
    using e(3) l by (simp add: eval_step_def get_timestamp_def)
  then have "eval_run ?rely lib cmd ms ps ?s (?e, ?w)" by (rule eval_run.own [OF r])
  moreover obtain p qs where ps: "ps = p # qs" using assms(4) by (cases ps) auto
  have "dl_heap ?w p = None" using f(3) ps by (simp add: delete_threads_def fold_delete)
  then have "calc_thread lib cmd t ms 2 p (a, per, ?w) = Inl DanglingPointer" for t a per
    using f(1) by (simp add: calc_thread_def read_stream_def deref_def delete_threads_def)
  then have "eval_step lib cmd ms ps (?e, ?w) = Inl DanglingPointer" using l by (simp add: eval_step_def ps)
  ultimately show ?thesis by blast
qed

section \<open>Witnesses\<close>

text \<open>A download test, selected and started, is evaluated while the main thread waits.\<close>

abbreviation one_stream :: "unit lib" where
  "one_stream \<equiv> (lib0 Desktop)\<lparr>readLong := \<lambda>_ _ _ _. 1\<rparr>"

definition download_only :: "unit world" where
  "download_only = world0\<lparr>IP := False, RTT := False, DOWNLOAD := True, timer := ctimer0\<lparr>timer_pc := TimerDone\<rparr>\<rparr>"

fun main_steps :: "nat \<Rightarrow> unit world \<Rightarrow> unit world" where
  "main_steps 0 w = w"
| "main_steps (Suc n) w = main_steps n (main_step one_stream raws0 (\<lambda>_. True) w)"

lemma main_steps_run: "system_run one_stream w u \<Longrightarrow> system_run one_stream w (main_steps n u)"
  by (induction n arbitrary: u) (auto intro: system_run.step system_step.main)

lemma download_started:
  "let w = main_steps 4 download_only in main_pc w = MainThreads 3 \<and> timer_pc (timer w) = TimerOuter \<and>
     mTestCase w = 3 \<and> vDownloadThreads w = [0] \<and> undisturbed w"
  by (simp add: numeral_eq_Suc download_only_def run_simps undisturbed_def tls_overhead_of_def i32_def)

lemma evaluation_among_threads_witness:
  "\<exists>w e v. system_run one_stream download_only w \<and> w = main_steps 4 download_only \<and>
     eval_run (beside one_stream) one_stream ''report'' 2 [0] (start_eval one_stream 2, w) (e, v) \<and>
     ev_streams e = Some [0] \<and> eval_step one_stream ''report'' 2 [0] (e, v) \<noteq> Inl DanglingPointer"
proof -
  let ?w = "main_steps 4 download_only" and ?s = "start_eval one_stream 2"
  note d = download_started [unfolded Let_def]
  let ?e = "?s\<lparr>ev_streams := Some [0], ev_current := clock ?w (clock_pos ?w), ev_acc := new_acc one_stream\<rparr>"
  let ?u = "?w\<lparr>clock_pos := Suc (clock_pos ?w)\<rparr>"
  let ?v = "main_step one_stream raws0 (\<lambda>_. True) ?u"
  have "[1..2] = [1, 2 :: int]" by (simp add: upto_rec1)
  then have "eval_step one_stream ''report'' 2 [0] (?s, ?w) = Inr (?e, ?u)"
    by (simp add: eval_step_def start_eval_def get_timestamp_def)
  then have "eval_run (beside one_stream) one_stream ''report'' 2 [0] (?s, ?w) (?e, ?u)"
    by (rule eval_run.own [OF eval_run.start])
  then have r: "eval_run (beside one_stream) one_stream ''report'' 2 [0] (?s, ?w) (?e, ?v)"
    by (rule eval_run.others) (rule beside.main)
  have f: "fresh_start download_only"
    by (simp add: fresh_start_def download_only_def)
  have sr: "system_run one_stream download_only ?w" by (rule main_steps_run [OF system_run.refl])
  have u: "undisturbed ?v"
    using d by (auto simp: main_step_def measurement_step_def undisturbed_def)
  have a: "avg_fits one_stream" by (simp add: avg_fits_def data0_def)
  have "eval_step one_stream ''report'' 2 [0] (?e, ?v) \<noteq> Inl DanglingPointer"
    using evaluation_among_threads [OF f sr _ _ _ _ _ _ r u a] d by (simp add: exited_def stream_pointers_def)
  then show ?thesis using sr r by (intro exI [of _ ?w] exI [of _ ?e] exI [of _ ?v]) simp
qed

definition dropped_world :: "unit world" where
  "dropped_world = eval_world\<lparr>main_pc := MainPoll 3, vDownloadThreads := [3],
     dl_heap := [3 \<mapsto> download0\<lparr>measurementTimeStart := 1000000, mResponse := - 1,
       mDownload := data0\<lparr>results := [(0, 800), (1, 160)], datasize_slow_start := 80\<rparr>\<rparr>]\<rparr>"

lemma dropped_race_witness:
  "\<exists>s. eval_run (\<lambda>u v. v = main_step (lib0 Desktop) raws0 (\<lambda>_. True) u) (lib0 Desktop) ''report'' 2 [3]
       (start_eval (lib0 Desktop) 2, dropped_world) s
     \<and> eval_step (lib0 Desktop) ''report'' 2 [3] s = Inl DanglingPointer"
proof -
  have view: "stream_view dropped_world 3 =
      Some (data0\<lparr>results := [(0, 800), (1, 160)], datasize_slow_start := 80\<rparr>, 1000000, - 1)"
    by (simp add: dropped_world_def eval_world_def stream_view_def sample_threads)
  have t: "TIMESTAMP_MEASUREMENT_START dropped_world = 0" "clock dropped_world n = 5000000"
    "conf_sTestName dropped_world = ''download''" "main_pc dropped_world = MainPoll 3"
    "vDownloadThreads dropped_world = [3]" "TIMER_INDEX_UPLOAD_FIRST dropped_world = 0" for n
    by (simp_all add: dropped_world_def eval_world_def)
  have sl: "slots_of dropped_world 3 = [800, 160]" by (simp add: slots_of_def view kept_slots_def t)
  have "\<forall>p\<in>set [3]. stream_readable dropped_world 2 1 (clock dropped_world (clock_pos dropped_world)) p"
    using stream_reads [OF view, of 1 2 5000000] by (simp add: sl t)
  moreover have "none_counts dropped_world [3]" by (simp add: none_counts_def counts_of_def view)
  ultimately show ?thesis using dropped_race [of dropped_world "[3]" 2] t by simp
qed

end
