(* ===== verification/Session.thy ===== *)
theory Session
  imports System
begin

text \<open>
  What the platform hears of a whole measurement: an automaton over the commands that reach the
  app on a mobile build, as the abstract specification of the client, and the proof that every run
  of all threads follows it. The protocol of one test case (\<open>Timer\<close>) is a part of it.
\<close>

section \<open>What a platform hears\<close>

definition mobile :: "'c lib \<Rightarrow> 'c world \<Rightarrow> bool" where
  "mobile lib w \<longleftrightarrow> target lib = Android \<or> target lib = Ios \<and> iosCallbackFunc_set w"

text \<open>
  The commands that go out for one entry of the trace: the command, and \<open>completed\<close> behind a
  \<open>finish\<close> that leaves nothing to perform. \<open>heard lib w es v\<close>: from \<open>w\<close> to \<open>v\<close> the trace grew by
  \<open>es\<close>, of one entry at most, and the platform got what belongs to it.
\<close>

definition commands :: "'c world \<Rightarrow> (string \<times> string) list \<Rightarrow> string list" where
  "commands v es = concat (map (\<lambda>e. fst e # (if completes (fst e) v then [''completed''] else [])) es)"

definition heard :: "'c lib \<Rightarrow> 'c world \<Rightarrow> (string \<times> string) list \<Rightarrow> 'c world \<Rightarrow> bool" where
  "heard lib w es v \<longleftrightarrow> trace v = trace w @ es \<and> length es \<le> 1 \<and> (mobile lib w \<longrightarrow> mobile lib v \<and>
     delivered lib (out v) = delivered lib (out w) @ commands v es)"

lemma heard_refl [simp]: "heard lib w [] w"
  by (simp add: heard_def commands_def)

lemma heard_updates [simp]:
  "heard lib w es (v\<lparr>timer := t\<rparr>) = heard lib w es v" "heard lib w es (v\<lparr>TIMER_STOPPED := b\<rparr>) = heard lib w es v"
  "heard lib w es (v\<lparr>TIMER_RUNNING := b\<rparr>) = heard lib w es v" "heard lib w es (v\<lparr>TIMER_ACTIVE := b\<rparr>) = heard lib w es v"
  "heard lib w es (v\<lparr>clock_pos := n\<rparr>) = heard lib w es v" "heard lib w es (v\<lparr>TIMER_DURATION := i\<rparr>) = heard lib w es v"
  "heard lib w es (v\<lparr>TIMER_INDEX := i\<rparr>) = heard lib w es v" "heard lib w es (set_pc pc v) = heard lib w es v"
  by (simp_all add: heard_def mobile_def commands_def completes_def all_performed_def set_pc_def)

lemma heard_left [simp]: "heard lib (w\<lparr>timer := t\<rparr>) es v = heard lib w es v"
  "heard lib (advance_timer w) es v = heard lib w es v"
  by (simp_all add: heard_def mobile_def advance_timer_def get_timestamp_def Let_def)

definition audible :: "'c lib \<Rightarrow> 'c world \<Rightarrow> 'c world \<Rightarrow> bool" where
  "audible lib w v \<longleftrightarrow> (\<exists>es. heard lib w es v)"

lemma audible_refl [simp]: "audible lib w w"
  unfolding audible_def by (rule exI [of _ "[]"]) (rule heard_refl)

lemma audible_updates [simp]:
  "audible lib w (v\<lparr>timer := t\<rparr>) = audible lib w v" "audible lib w (v\<lparr>TIMER_STOPPED := b\<rparr>) = audible lib w v"
  "audible lib w (v\<lparr>TIMER_RUNNING := b\<rparr>) = audible lib w v" "audible lib w (v\<lparr>TIMER_ACTIVE := b\<rparr>) = audible lib w v"
  "audible lib w (v\<lparr>clock_pos := n\<rparr>) = audible lib w v" "audible lib w (set_pc pc v) = audible lib w v"
  "audible lib (w\<lparr>timer := t\<rparr>) v = audible lib w v" "audible lib (advance_timer w) v = audible lib w v"
  by (simp_all add: audible_def)

lemma callback_heard:
  assumes "callback lib cmd msg code descr w = Inr v"
  shows "heard lib w [(cmd, msg)] v"
proof -
  note e = callback_effect [OF assms]
  have "erase_cb v = erase_cb w" using e(1) by (simp add: cb_effect_def)
  then have "iosCallbackFunc_set v = iosCallbackFunc_set w" by (rule erase_cb_frame)
  then show ?thesis using e(3,5) by (simp add: heard_def mobile_def commands_def)
qed

lemma callback_audible: "callback lib cmd msg code descr w = Inr v \<Longrightarrow> audible lib w v"
  unfolding audible_def by (blast intro: callback_heard)

lemma signal_error_audible: "signal_error lib msg code pc w = Inr v \<Longrightarrow> audible lib w v"
  by (auto simp: signal_error_def res_map_Inr_iff dest: callback_audible)

lemma advance_timer_audible: "audible lib w (advance_timer w)"
  unfolding audible_def
  by (rule exI [of _ "[]"]) (simp add: heard_def mobile_def commands_def advance_timer_def get_timestamp_def Let_def)

lemma outer_step_audible: "outer_step lib w = Inr v \<Longrightarrow> audible lib w v"
  by (auto simp: outer_step_def res_map_Inr_iff res_map_Inr_iff [THEN eq_iff_swap]
      dest: callback_audible signal_error_audible split: if_split_asm)

lemma body_step_audible:
  assumes "body_step lib w = Inr v"
  shows "audible lib w v"
proof (cases "STREAMS_DROPPED w \<and> \<not> streamsDroppedSignaled (timer w)")
  case True
  let ?w = "w\<lparr>timer := (timer w)\<lparr>streamsDroppedSignaled := True\<rparr>\<rparr>"
  have "signal_error lib ''measurement streams dropped'' 9 TimerOuter ?w = Inr v"
    using assms True by (simp only: body_step_def if_True simp_thms)
  then show ?thesis using signal_error_audible by fastforce
next
  case False
  let ?a = "advance_timer w"
  let ?u = "?a\<lparr>timer := (timer ?a)\<lparr>current_index := TIMER_INDEX ?a\<rparr>\<rparr>"
  have b: "(if TIMER_INDEX ?a \<noteq> current_index (timer ?a) then
             res_map (set_pc TimerInner) (callback lib ''report'' ''measurement report'' 0 '''' ?u)
           else Inr (set_pc TimerInner ?a)) = Inr v"
    using assms False by (simp only: body_step_def if_False simp_thms Let_def)
  show ?thesis
  proof (cases "TIMER_INDEX ?a \<noteq> current_index (timer ?a)")
    case True
    with b obtain u where u: "callback lib ''report'' ''measurement report'' 0 '''' ?u = Inr u" "v = set_pc TimerInner u"
      by (auto simp: res_map_Inr_iff)
    show ?thesis using callback_audible [OF u(1)] by (simp add: u(2))
  next
    case False
    with b have "v = set_pc TimerInner ?a" by simp
    then show ?thesis using advance_timer_audible by simp
  qed
qed

lemma timer_step_audible:
  assumes "timer_step lib w = Inr v"
  shows "audible lib w v"
proof (cases "timer_pc (timer w)")
  case TimerLeft
  then have l: "left_step lib w = Inr v" using assms by (simp add: timer_step_def)
  show ?thesis
  proof (cases "RUNNING w \<and> \<not> hasError w")
    case True
    then obtain u where u: "callback lib ''finish'' ''measurement completed'' 0 '''' w = Inr u"
      "v = set_pc TimerDone (u\<lparr>TIMER_ACTIVE := False\<rparr>)"
      using l by (auto simp: left_step_def res_map_Inr_iff)
    show ?thesis using callback_audible [OF u(1)] by (auto simp: u(2))
  next
    case False
    then have f: "(RUNNING w \<and> \<not> hasError w) = False" by simp
    have "v = set_pc TimerDone (w\<lparr>TIMER_ACTIVE := False\<rparr>)"
      using l unfolding left_step_def f by simp
    then show ?thesis by simp
  qed
next
  case TimerDelay
  then show ?thesis
    using assms by (auto simp: timer_step_def delay_step_def res_map_Inr_iff get_timestamp_def dest: callback_audible)
next
  case TimerInner
  then show ?thesis using assms by (auto simp: timer_step_def inner_step_def)
next
  case TimerDone
  then show ?thesis using assms by (auto simp: timer_step_def)
qed (use assms in \<open>simp_all add: timer_step_def outer_step_audible body_step_audible\<close>)

lemma threads_step_heard:
  assumes "threads_step lib w v"
  shows "heard lib w [] v"
proof -
  have e: "heard lib w [] u" if "worker_effect w u" for u
  proof -
    have "erase_worker u = erase_worker w" using that by (simp add: worker_effect_def)
    then have "iosCallbackFunc_set (erase_worker u) = iosCallbackFunc_set (erase_worker w)" by simp
    then show ?thesis using worker_effect_frame [OF that]
      by (simp add: heard_def mobile_def commands_def erase_worker_def)
  qed
  have h: "heard lib w [] (u\<lparr>ip_heap := h1\<rparr>) = heard lib w [] u" "heard lib w [] (u\<lparr>ping_heap := h2\<rparr>) = heard lib w [] u"
    "heard lib w [] (u\<lparr>dl_heap := h3\<rparr>) = heard lib w [] u" "heard lib w [] (u\<lparr>ul_heap := h4\<rparr>) = heard lib w [] u"
    for u h1 h2 h3 h4 by (simp_all add: heard_def mobile_def commands_def)
  from assms show ?thesis
  proof cases
    case stop
    then show ?thesis by (simp add: measurementStop_def shutdown_def Let_def heard_def mobile_def commands_def)
  qed (simp_all add: h e ipt.effect pg.effect dl.effect ul.effect)
qed
section \<open>The session\<close>

text \<open>
  What a platform hears of one measurement, as an automaton over the commands: the test cases one
  after another, each a run of the protocol \<open>proto_step\<close> of its messages; the next one starts only
  behind a \<open>finish\<close>; after an \<open>error\<close> nothing follows, and after \<open>completed\<close> neither. An \<open>error\<close>
  at the beginning means that no test was asked for.
\<close>

datatype session = Ready | Testing proto | Completed

fun session_step :: "string \<Rightarrow> session \<Rightarrow> session option" where
  "session_step cmd Ready =
     (if cmd = ''started'' then Some (Testing Idle)
      else if cmd = ''error'' then Some (Testing Failed) else None)"
| "session_step cmd (Testing Idle) =
     (if cmd = ''info'' then Some (Testing Starting)
      else if cmd = ''error'' then Some (Testing Failed)
      else if cmd = ''finish'' then Some (Testing Finished) else None)"
| "session_step cmd (Testing Starting) = (if cmd = ''info'' then Some (Testing Started) else None)"
| "session_step cmd (Testing Started) =
     (if cmd = ''report'' then Some (Testing Started)
      else if cmd = ''error'' then Some (Testing Failed)
      else if cmd = ''finish'' then Some (Testing Finished) else None)"
| "session_step cmd (Testing Failed) = None"
| "session_step cmd (Testing Finished) =
     (if cmd = ''started'' then Some (Testing Idle)
      else if cmd = ''completed'' then Some Completed else None)"
| "session_step cmd Completed = None"

fun session_run :: "string list \<Rightarrow> session \<Rightarrow> session option" where
  "session_run [] q = Some q"
| "session_run (c # cs) q = (case session_step c q of None \<Rightarrow> None | Some q' \<Rightarrow> session_run cs q')"

lemma session_run_append:
  "session_run (cs @ ds) q = (case session_run cs q of None \<Rightarrow> None | Some q' \<Rightarrow> session_run ds q')"
  by (induction cs arbitrary: q) (auto split: option.splits)

lemma proto_step_session:
  "proto_step e p = Some q \<Longrightarrow> session_step (fst e) (Testing p) = Some (Testing q)
     \<and> fst e \<noteq> ''started'' \<and> (fst e = ''finish'' \<longrightarrow> q = Finished)"
  by (cases e; cases p) (auto split: if_splits)

text \<open>The messages of the timer, as the platform hears them.\<close>

lemma commands_session:
  assumes "length es \<le> 1" "proto_run es p = Some q"
  shows "session_run (commands v es) (Testing p) =
      Some (if \<exists>e\<in>set es. completes (fst e) v then Completed else Testing q)
    \<and> count_list (commands v es) ''started'' = 0"
proof (cases es)
  case Nil
  then show ?thesis using assms(2) by (simp add: commands_def)
next
  case (Cons e es')
  then have e: "es = [e]" using assms(1) by simp
  then have p: "proto_step e p = Some q" using assms(2) by (simp split: option.splits)
  note s = proto_step_session [OF p]
  have "completes (fst e) v \<Longrightarrow> fst e = ''finish''" by (simp add: completes_def)
  then show ?thesis using s by (auto simp: e commands_def)
qed

section \<open>Its invariant\<close>

text \<open>
  How far the undisturbed main thread has got: the test cases below \<open>passed\<close> are done.
\<close>

fun passed :: "main_pc \<Rightarrow> int" where
  "passed (MainSelect tc) = tc"
| "passed (MainPause tc) = tc"
| "passed (MainThreads tc) = tc"
| "passed (MainPoll tc) = tc"
| "passed (MainTimer tc) = tc + 1"
| "passed _ = 5"

definition session_at :: "session \<Rightarrow> 'c world \<Rightarrow> bool" where
  "session_at q w \<longleftrightarrow>
     (q = Completed \<longleftrightarrow> all_performed w) \<and>
     (case q of
        Testing p \<Rightarrow> proto_at p w \<and> (timer_pc (timer w) = TimerDone \<longrightarrow> p = Finished \<or> \<not> undisturbed w)
      | _ \<Rightarrow> timer_pc (timer w) = TimerDone) \<and>
     (next_test (main_pc w) = 1 \<longrightarrow> q = Ready \<or> \<not> RUNNING w) \<and>
     (pausing w \<longrightarrow> q = Ready \<or> q = Testing Finished) \<and>
     (undisturbed w \<longrightarrow> (\<forall>j. 1 \<le> j \<and> j < passed (main_pc w) \<and> j \<le> 4 \<longrightarrow> wanted j w \<longrightarrow> performed j w)) \<and>
     (\<forall>j. 1 \<le> j \<and> j \<le> 4 \<longrightarrow> performed j w \<longrightarrow> wanted j w)"

text \<open>\<open>session_inv lib w0 w\<close>: since \<open>w0\<close> the platform has heard the beginning of a session.\<close>

definition session_inv :: "'c lib \<Rightarrow> string list \<Rightarrow> 'c world \<Rightarrow> bool" where
  "session_inv lib cs w \<longleftrightarrow> mobile lib w \<and> error_discipline w \<and> \<not> exited w \<and>
     (\<exists>ds q. delivered lib (out w) = cs @ ds \<and> session_run ds Ready = Some q \<and> session_at q w \<and>
        int (count_list ds ''started'') < next_test (main_pc w))"
lemma session_at_move:
  assumes "session_at q w" "others_step w v" "kept w v" "same_flags w v" "next_test (main_pc v) = 1 \<longrightarrow> next_test (main_pc w) = 1"
    and "undisturbed v \<longrightarrow> (\<forall>j. passed (main_pc w) \<le> j \<and> j < passed (main_pc v) \<and> 1 \<le> j \<and> j \<le> 4 \<longrightarrow> wanted j w \<longrightarrow> performed j w)"
    and "pausing v \<longrightarrow> pausing w \<or> q = Ready \<or> q = Testing Finished"
  shows "session_at q v"
proof -
  have s: "scene v = scene w" and u: "undisturbed v \<longrightarrow> undisturbed w" using assms(3) by (simp_all add: kept_def)
  note e = scene_eqD(2) [OF s] and f = same_flags_performed(1) [OF assms(4)]
  have t: "timer v = timer w" and r: "RUNNING v \<longrightarrow> RUNNING w" using assms(2) by (simp_all add: others_step_def)
  note p = proto_at_others [OF _ assms(2)]
  have g: "\<forall>j. 1 \<le> j \<and> j < passed (main_pc v) \<and> j \<le> 4 \<longrightarrow> wanted j w \<longrightarrow> performed j w" if "undisturbed v"
    using assms(1,6) u that unfolding session_at_def by (meson not_le_imp_less)
  show ?thesis
    using assms(1,5,7) g p u r by (auto simp: session_at_def e f t all_performed_kept [OF assms(3,4)] split: session.splits)
qed

lemma session_threads:
  assumes "session_inv lib cs w" "threads_step lib w v"
  shows "session_inv lib cs v"
proof -
  note k = threads_step_kept [OF assms(2)] and o = threads_step_others [OF assms(2)]
    and h = threads_step_heard [OF assms(2)]
  have m: "mobile lib w" and ex: "\<not> exited w" using assms(1) by (simp_all add: session_inv_def)
  have pc: "main_pc v = main_pc w"
    using assms(2)
  proof cases
    case stop
    then show ?thesis using m by (auto simp: measurementStop_def shutdown_def Let_def mobile_def)
  next
    case (ip p t e t' u)
    then show ?thesis using worker_effect_kept(4) [OF ipt.effect] by simp
  next
    case (ping p t pe t' u)
    then show ?thesis using worker_effect_kept(4) [OF pg.effect] by simp
  next
    case (download p t e t' u)
    then show ?thesis using worker_effect_kept(4) [OF dl.effect] by simp
  next
    case (upload p t e t' u)
    then show ?thesis using worker_effect_kept(4) [OF ul.effect] by simp
  qed
  have "session_at q v" if "session_at q w" for q
    by (rule session_at_move [OF that o]) (use k in \<open>auto simp: pc pausing_def\<close>)
  moreover have "mobile lib v" "delivered lib (out v) = delivered lib (out w)"
    using h m by (simp_all add: heard_def commands_def)
  moreover have "error_discipline v" using o assms(1) by (simp add: others_step_def session_inv_def)
  moreover have "\<not> exited v" using ex by (simp add: exited_def pc)
  ultimately show ?thesis using assms(1) by (auto simp: session_inv_def pc)
qed

lemma timer_step_monotone:
  assumes "timer_step lib w = Inr v"
  shows "RUNNING v = RUNNING w" "hasError w \<longrightarrow> hasError v"
  using timer_step_sends [OF assms] by (auto simp: sends_def)

lemma timer_reaches_done:
  assumes "timer_step lib w = Inr v" "timer_pc (timer w) \<noteq> TimerDone" "timer_pc (timer v) = TimerDone"
  shows "timer_pc (timer w) = TimerLeft \<and> left_step lib w = Inr v"
proof (cases "timer_pc (timer w)")
  case TimerOuter
  then have "outer_step lib w = Inr v" using assms(1) by (simp add: timer_step_def)
  from outer_step_cases [OF this] show ?thesis using assms(3) by auto
next
  case TimerDelay
  then have "delay_step lib w = Inr v" using assms(1) by (simp add: timer_step_def)
  from delay_step_cases [OF this] show ?thesis using assms(3) by auto
next
  case TimerBody
  then have "body_step lib w = Inr v" using assms(1) by (simp add: timer_step_def)
  from body_step_cases [OF this] show ?thesis using assms(3) by auto
next
  case TimerInner
  then show ?thesis using assms(1,3) by (auto simp: timer_step_def inner_step_def split: if_splits)
qed (use assms in \<open>simp_all add: timer_step_def\<close>)

lemma timer_done_finish:
  assumes "timer_step lib w = Inr v" "timer_pc (timer w) \<noteq> TimerDone" "timer_pc (timer v) = TimerDone"
    and "undisturbed w" "heard lib w es v" "proto_run es p = Some q"
  shows "es = [(''finish'', ''measurement completed'')] \<and> q = Finished"
proof -
  have "left_step lib w = Inr v" using timer_reaches_done [OF assms(1-3)] by simp
  then have "sends w [(''finish'', ''measurement completed'')] v"
    using left_step_cases assms(4) by (fastforce simp: undisturbed_def)
  then have e: "es = [(''finish'', ''measurement completed'')]" using assms(5) by (simp add: sends_def heard_def)
  then have "proto_step (''finish'', ''measurement completed'') p = Some q"
    using assms(6) by (simp split: option.splits)
  then show ?thesis using e proto_step_session by fastforce
qed

lemma session_timer_at:
  assumes "system_inv b n w" "session_at (Testing p) w" "timer_step lib w = Inr v" "timer_pc (timer w) \<noteq> TimerDone"
    and "heard lib w es v" "proto_run es p = Some q" "proto_at q v"
  shows "session_at (if \<exists>e\<in>set es. completes (fst e) v then Completed else Testing q) v \<and> main_pc v = main_pc w"
proof -
  have "\<not> pausing w"
    using assms(1,4) by (auto simp: system_inv_def main_place_def pausing_def split: main_pc.splits)
  then have np: "main_pc v = main_pc w \<Longrightarrow> \<not> pausing v" by (simp add: pausing_def)
  from timer_step_kept [OF assms(3)] show ?thesis
  proof (elim disjE conjE)
    assume "timer_pc (timer w) = TimerDone"
    then show ?thesis using assms(4) by simp
  next
    assume qt: "quiet w v"
    then have k: "kept w v" "same_flags w v" and pc: "main_pc v = main_pc w" by (simp_all add: quiet_def)
    have s: "scene v = scene w" and u: "undisturbed v \<longrightarrow> undisturbed w" using k(1) by (simp_all add: kept_def)
    note e = scene_eqD(2) [OF s] and f = same_flags_performed(1) [OF k(2)]
    have a: "\<not> all_performed v"
      using assms(2) all_performed_kept [OF k] by (simp add: session_at_def)
    have r: "RUNNING v \<longrightarrow> RUNNING w" using timer_step_monotone(1) [OF assms(3)] by simp
    have d: "q = Finished \<or> \<not> undisturbed v" if "timer_pc (timer v) = TimerDone"
      using timer_done_finish [OF assms(3,4) that _ assms(5,6)] u by blast
    have c: "\<not> (\<exists>e\<in>set es. completes (fst e) v)" using a by (simp add: completes_def)
    show ?thesis
      unfolding if_not_P [OF c] using assms(2,7) u r a d np [OF pc] by (auto simp: session_at_def e f pc)
  next
    assume l: "timer_pc (timer w) = TimerLeft" "timer_pc (timer v) = TimerDone" "kept w v"
      "main_pc v = main_pc w" "undisturbed w" "flags_kept ''finish'' (mTestCase w) w v"
    note i = assms(1) [unfolded system_inv_def]
    have s: "scene v = scene w" and u: "undisturbed v \<longrightarrow> undisturbed w" using l(3) by (simp_all add: kept_def)
    note e = scene_eqD(2) [OF s]
    have tc: "1 \<le> mTestCase w" "mTestCase w \<le> 4" "wanted (mTestCase w) w"
      using i l(1) by (simp_all add: main_inv_def)
    have p: "performed j v = (performed j w \<or> j = mTestCase w)" if "1 \<le> j" "j \<le> 4" for j
      by (rule flags_kept_performed [OF l(6) tc(1,2) that])
    have f: "es = [(''finish'', ''measurement completed'')]" "q = Finished"
      using timer_done_finish [OF assms(3,4) l(2,5) assms(5,6)] by simp_all
    have r: "RUNNING v = RUNNING w" by (rule timer_step_monotone(1) [OF assms(3)])
    have c: "(\<exists>e\<in>set es. completes (fst e) v) = all_performed v" by (simp add: f completes_def)
    have q: "\<forall>j. 1 \<le> j \<and> j < passed (main_pc v) \<and> j \<le> 4 \<longrightarrow> wanted j v \<longrightarrow> performed j v"
      using assms(2) l(4,5) by (auto simp: session_at_def p e)
    have a: "\<forall>j. 1 \<le> j \<and> j \<le> 4 \<longrightarrow> performed j v \<longrightarrow> wanted j v"
      using assms(2) tc(3) by (auto simp: session_at_def p e)
    have m: "next_test (main_pc v) = 1 \<longrightarrow> \<not> RUNNING v" using assms(2) l(4) r by (simp add: session_at_def)
    show ?thesis
      unfolding c using assms(7) q a m l(2,4) np [OF l(4)] by (simp add: session_at_def f(2))
  qed
qed

lemma session_timer:
  assumes "system_inv b n w" "session_inv lib cs w" "timer_step lib w = Inr v"
  shows "session_inv lib cs v"
proof (cases "timer_pc (timer w) = TimerDone")
  case True
  then show ?thesis using assms(2,3) by (simp add: timer_step_def)
next
  case False
  obtain ds q where q: "mobile lib w" "error_discipline w" "\<not> exited w" "delivered lib (out w) = cs @ ds"
    "session_run ds Ready = Some q" "session_at q w" "int (count_list ds ''started'') < next_test (main_pc w)"
    using assms(2) by (auto simp: session_inv_def)
  obtain p where p: "q = Testing p" "proto_at p w"
    using q(6) False by (auto simp: session_at_def split: session.splits)
  obtain es p' where e: "trace v = trace w @ es" "proto_run es p = Some p'" "proto_at p' v" "error_discipline v"
    using proto_at_timer [OF p(2) q(2) assms(3)] by blast
  obtain es' where h: "heard lib w es' v" using timer_step_audible [OF assms(3)] by (auto simp: audible_def)
  have "es' = es" using h e(1) by (simp add: heard_def)
  note h = h [unfolded this]
  let ?q = "if \<exists>e\<in>set es. completes (fst e) v then Completed else Testing p'"
  have a: "session_at ?q v" "main_pc v = main_pc w"
    using session_timer_at [OF assms(1) q(6) [unfolded p(1)] assms(3) False h e(2,3)] by simp_all
  have l: "length es \<le> 1" "mobile lib v" "delivered lib (out v) = cs @ ds @ commands v es"
    using h q(1,4) by (simp_all add: heard_def)
  have "session_run (ds @ commands v es) Ready = Some ?q"
    "count_list (ds @ commands v es) ''started'' = count_list ds ''started''"
    using commands_session [OF l(1) e(2), of v] q(5) p(1) by (simp_all add: session_run_append)
  moreover have "\<not> exited v" using q(3) a(2) by (simp add: exited_def)
  ultimately have "session_run (ds @ commands v es) Ready = Some ?q \<and> session_at ?q v \<and>
      int (count_list (ds @ commands v es) ''started'') < next_test (main_pc v) \<and> \<not> exited v"
    using a q(7) by simp
  then show ?thesis
    using l(2,3) e(4) unfolding session_inv_def
    by (intro conjI exI [of _ "ds @ commands v es"] exI [of _ ?q]) simp_all
qed

section \<open>The main thread\<close>

lemma delivered_append: "delivered lib (xs @ ys) = delivered lib xs @ delivered lib ys"
  by (simp add: delivered_def)

lemma startTestCase_heard:
  assumes "1 \<le> tc" "tc \<le> 4" "conf_sTestName w = test_name tc" "mobile lib w"
    and "v = startTestCase lib raw (\<lambda>_. True) tc w"
  shows "delivered lib (out v) = delivered lib (out w) @ [''started'']" "mobile lib v"
    "\<not> TIMER_RUNNING v" "RUNNING v = RUNNING w" "hasError v = hasError w" "error_flags v = error_flags w"
proof -
  let ?w1 = "w\<lparr>syncing_threads := [], mTestCase := tc\<rparr>"
  let ?w2 = "callbackToPlatform lib ''started'' '''' 0 '''' ?w1"
  let ?w3 = "CMeasurement_new lib ?w2"
  have m: "target lib \<noteq> Desktop" using assms(4) by (auto simp: mobile_def)
  have v: "v = begin_test lib raw (\<lambda>_. True) (conf_sProvider ?w2) tc ?w3"
    using assms(5) m by (simp only: startTestCase_def Let_def if_False)
  have c: "conf_sTestName ?w3 = test_name tc" "RUNNING ?w3 = RUNNING w" "hasError ?w3 = hasError w"
    "error_flags ?w3 = error_flags w" "\<not> TIMER_RUNNING ?w3" "iosCallbackFunc_set ?w3 = iosCallbackFunc_set w"
    "out ?w3 = out ?w2"
    using assms(3) by (simp_all add: CMeasurement_new_def CTimer_new_def callbackToPlatform_def error_flags_def Let_def)
  have "target lib = Android \<or> target lib = Ios \<and> iosCallbackFunc_set ?w1"
    using assms(4) by (simp add: mobile_def)
  note d = delivered_events [OF this]
  have o: "delivered lib (out ?w2) = delivered lib (out w) @ [''started'']"
    by (simp add: callbackToPlatform_frame(2) delivered_append d)
  have "begun_kept ?w3 v" using begin_test_all [OF assms(1,2) c(1) v] by blast
  note b = this [unfolded begun_kept_def]
  show "delivered lib (out v) = delivered lib (out w) @ [''started'']" using b c o by simp
  show "mobile lib v" using assms(4) b c by (simp add: mobile_def)
  show "\<not> TIMER_RUNNING v" "RUNNING v = RUNNING w" "hasError v = hasError w" "error_flags v = error_flags w"
    using b c by simp_all
qed

lemma session_inv_silent:
  assumes "session_inv lib cs w" "mobile lib v" "error_discipline v" "\<not> exited v" "out v = out w"
    and "next_test (main_pc w) \<le> next_test (main_pc v)" "\<And>q. session_at q w \<Longrightarrow> session_at q v"
  shows "session_inv lib cs v"
proof -
  obtain ds q where q: "delivered lib (out w) = cs @ ds" "session_run ds Ready = Some q" "session_at q w"
    "int (count_list ds ''started'') < next_test (main_pc w)"
    using assms(1) by (auto simp: session_inv_def)
  then show ?thesis
    unfolding session_inv_def using assms(2-7) by (intro conjI exI [of _ ds] exI [of _ q]) simp_all
qed

lemma moved_kept: "kept w (w\<lparr>main_pc := pc\<rparr>)" "others_step w (w\<lparr>main_pc := pc\<rparr>)" "same_flags w (w\<lparr>main_pc := pc\<rparr>)"
  "mobile lib (w\<lparr>main_pc := pc\<rparr>) = mobile lib w"
  by (simp_all add: kept_def scene_def undisturbed_def others_step_def same_flags_def mobile_def
      error_discipline_def error_flags_def)

lemma session_inv_move:
  assumes "session_inv lib cs w" "v = w\<lparr>main_pc := pc\<rparr>" "next_test pc = 1 \<longrightarrow> next_test (main_pc w) = 1" "\<not> exited v"
    and "next_test (main_pc w) \<le> next_test pc"
    and "undisturbed w \<longrightarrow> (\<forall>j. passed (main_pc w) \<le> j \<and> j < passed pc \<and> 1 \<le> j \<and> j \<le> 4 \<longrightarrow> wanted j w \<longrightarrow> performed j w)"
    and "\<And>q. session_at q w \<Longrightarrow> pausing v \<Longrightarrow> q = Ready \<or> q = Testing Finished"
  shows "session_inv lib cs v"
proof (rule session_inv_silent [OF assms(1)])
  show "mobile lib v" using assms(1,2) by (simp add: session_inv_def moved_kept)
  show "error_discipline v"
    using assms(1,2) by (simp add: session_inv_def error_discipline_def error_flags_def)
  show "session_at q v" if "session_at q w" for q
    using assms(3,6,7) that by (intro session_at_move [OF that]) (auto simp: moved_kept assms(2))
qed (use assms in simp_all)

lemma unseen_updates:
  "performed j (w\<lparr>ip_heap := h1\<rparr>) = performed j w" "performed j (w\<lparr>ping_heap := h2\<rparr>) = performed j w"
  "performed j (w\<lparr>dl_heap := h3\<rparr>) = performed j w" "performed j (w\<lparr>ul_heap := h4\<rparr>) = performed j w"
  "performed j (w\<lparr>currentTestPhase := ph\<rparr>) = performed j w"
  "wanted j (w\<lparr>ip_heap := h1\<rparr>) = wanted j w" "wanted j (w\<lparr>ping_heap := h2\<rparr>) = wanted j w"
  "wanted j (w\<lparr>dl_heap := h3\<rparr>) = wanted j w" "wanted j (w\<lparr>ul_heap := h4\<rparr>) = wanted j w"
  "wanted j (w\<lparr>currentTestPhase := ph\<rparr>) = wanted j w"
  "all_performed (w\<lparr>ip_heap := h1\<rparr>) = all_performed w" "all_performed (w\<lparr>ping_heap := h2\<rparr>) = all_performed w"
  "all_performed (w\<lparr>dl_heap := h3\<rparr>) = all_performed w" "all_performed (w\<lparr>ul_heap := h4\<rparr>) = all_performed w"
  "all_performed (w\<lparr>currentTestPhase := ph\<rparr>) = all_performed w"
  "undisturbed (w\<lparr>ip_heap := h1\<rparr>) = undisturbed w" "undisturbed (w\<lparr>ping_heap := h2\<rparr>) = undisturbed w"
  "undisturbed (w\<lparr>dl_heap := h3\<rparr>) = undisturbed w" "undisturbed (w\<lparr>ul_heap := h4\<rparr>) = undisturbed w"
  "undisturbed (w\<lparr>currentTestPhase := ph\<rparr>) = undisturbed w"
  "proto_at p (w\<lparr>ip_heap := h1\<rparr>) = proto_at p w" "proto_at p (w\<lparr>ping_heap := h2\<rparr>) = proto_at p w"
  "proto_at p (w\<lparr>dl_heap := h3\<rparr>) = proto_at p w" "proto_at p (w\<lparr>ul_heap := h4\<rparr>) = proto_at p w"
  "proto_at p (w\<lparr>currentTestPhase := ph\<rparr>) = proto_at p w"
  "pausing (w\<lparr>ip_heap := h1\<rparr>) = pausing w" "pausing (w\<lparr>ping_heap := h2\<rparr>) = pausing w"
  "pausing (w\<lparr>dl_heap := h3\<rparr>) = pausing w" "pausing (w\<lparr>ul_heap := h4\<rparr>) = pausing w"
  "pausing (w\<lparr>currentTestPhase := ph\<rparr>) = pausing w"
  by (simp_all add: pausing_def performed_def wanted_def all_performed_def undisturbed_def proto_at_def
      cong: timer_pc.case_cong)

lemma session_at_updates:
  "session_at q (w\<lparr>ip_heap := h1\<rparr>) = session_at q w" "session_at q (w\<lparr>ping_heap := h2\<rparr>) = session_at q w"
  "session_at q (w\<lparr>dl_heap := h3\<rparr>) = session_at q w" "session_at q (w\<lparr>ul_heap := h4\<rparr>) = session_at q w"
  "session_at q (w\<lparr>currentTestPhase := ph\<rparr>) = session_at q w"
  by (cases q; simp add: session_at_def unseen_updates)+

lemma session_inv_updates:
  "session_inv lib cs (w\<lparr>ip_heap := h1\<rparr>) = session_inv lib cs w"
  "session_inv lib cs (w\<lparr>ping_heap := h2\<rparr>) = session_inv lib cs w"
  "session_inv lib cs (w\<lparr>dl_heap := h3\<rparr>) = session_inv lib cs w"
  "session_inv lib cs (w\<lparr>ul_heap := h4\<rparr>) = session_inv lib cs w"
  "session_inv lib cs (w\<lparr>currentTestPhase := ph\<rparr>) = session_inv lib cs w"
  by (simp_all add: session_inv_def session_at_updates mobile_def error_discipline_def error_flags_def exited_def)

lemma session_inv_delete: "session_inv lib cs (delete_threads tc w) = session_inv lib cs w"
  by (simp add: delete_threads_def session_inv_updates)

lemma session_shutdown:
  assumes "session_inv lib cs w" "main_pc w = MainShutdown"
  shows "session_inv lib cs (final_shutdown lib w)"
proof -
  have m: "mobile lib w" using assms(1) by (simp add: session_inv_def)
  then have v: "final_shutdown lib w = w\<lparr>main_pc := MainReturned, RUNNING := False\<rparr>"
    by (auto simp: final_shutdown_def shutdown_def Let_def mobile_def)
  let ?v = "w\<lparr>main_pc := MainReturned, RUNNING := False\<rparr>"
  have k: "others_step w ?v" "kept w ?v" "same_flags w ?v"
    by (simp_all add: kept_def scene_def undisturbed_def others_step_def same_flags_def
        error_discipline_def error_flags_def)
  show ?thesis
    unfolding v
  proof (rule session_inv_silent [OF assms(1)])
    show "session_at q ?v" if "session_at q w" for q
      by (rule session_at_move [OF that k]) (simp_all add: undisturbed_def pausing_def)
  qed (use assms m in \<open>simp_all add: mobile_def exited_def session_inv_def error_discipline_def error_flags_def\<close>)
qed

lemma not_performed_yet: "system_inv b n w \<Longrightarrow> 1 \<le> n \<Longrightarrow> n \<le> 4 \<Longrightarrow> wanted n w \<Longrightarrow> \<not> all_performed w"
proof -
  assume a: "system_inv b n w" "1 \<le> n" "n \<le> 4" "wanted n w"
  have "\<not> performed n w" using a by (simp add: system_inv_def)
  moreover have "n = 1 \<or> n = 2 \<or> n = 3 \<or> n = 4" using a by linarith
  ultimately show ?thesis using a(4) by (auto simp: all_performed_wanted)
qed

lemma session_select:
  assumes "system_inv b n w" "session_inv lib cs w" "main_pc w = MainSelect n" "n \<le> 4" "take_test n w"
  shows "session_inv lib cs (w\<lparr>main_pc := MainPause n\<rparr>)"
proof (rule session_inv_move [OF assms(2) HOL.refl])
  have n: "1 \<le> n" using assms(1) by (simp add: system_inv_def main_inv_def)
  have a: "\<not> all_performed w" by (rule not_performed_yet [OF assms(1) n assms(4) take_test_wanted [OF n assms(4,5)]])
  have td: "timer_pc (timer w) = TimerDone" using assms(1,3) by (simp add: system_inv_def main_place_def)
  have r: "RUNNING w" "n \<noteq> 1 \<longrightarrow> undisturbed w"
    using assms(5) by (simp_all add: take_test_def undisturbed_def split: if_splits)
  show "q = Ready \<or> q = Testing Finished" if "session_at q w" for q
    using that a td r assms(3) by (cases "n = 1") (auto simp: session_at_def split: session.splits)
qed (use assms(3) in \<open>auto simp: exited_def\<close>)

lemma session_start:
  assumes "system_inv b n w" "session_inv lib cs w" "main_pc w = MainPause n" "n \<le> 4"
    and "v = start_test lib raw (\<lambda>_. True) n w"
  shows "session_inv lib cs v"
proof -
  note i = assms(1) [unfolded system_inv_def]
  have n: "1 \<le> n" using i by (simp add: main_inv_def)
  let ?w1 = "if n = 4 then w\<lparr>randomDataValues_size := RANDOM_DATA_SIZE\<rparr> else w"
  let ?u = "?w1\<lparr>conf_nTestCase := n, conf_sTestName := test_name n, currentTestPhase := test_phase n\<rparr>"
  have v: "v = startTestCase lib raw (\<lambda>_. True) n ?u"
    using assms(5) by (simp add: start_test_def Let_def)
  obtain ds q where q: "mobile lib w" "error_discipline w" "delivered lib (out w) = cs @ ds"
    "session_run ds Ready = Some q" "session_at q w" "int (count_list ds ''started'') < n"
    using assms(2,3) by (auto simp: session_inv_def)
  have f: "out ?u = out w" "RUNNING ?u = RUNNING w" "hasError ?u = hasError w" "error_flags ?u = error_flags w"
    "mobile lib ?u = mobile lib w" "performed j ?u = performed j w" "wanted j ?u = wanted j w" for j
    by (simp_all add: error_flags_def mobile_def performed_def wanted_def)
  have mu: "mobile lib ?u" using q(1) f by simp
  have nu: "conf_sTestName ?u = test_name n" by simp
  note h = startTestCase_heard [OF n assms(4) nu mu v, unfolded f]
    and s = startTestCase_all [OF n assms(4) nu v]
  have p: "performed j v = performed j w" "wanted j v = wanted j w" for j
    using s(3,6-9) f by (simp_all add: same_flags_def performed_def wanted_def)
  have "wanted n w" using i assms(3) by (simp add: main_place_def)
  then have "\<not> all_performed w" by (rule not_performed_yet [OF assms(1) n assms(4)])
  then have a: "\<not> all_performed v" by (simp add: all_performed_wanted p)
  have "q = Ready \<or> q = Testing Finished"
    using q(5) assms(3) by (simp add: session_at_def pausing_def)
  then have "session_step ''started'' q = Some (Testing Idle)" by auto
  then have "session_run (ds @ [''started'']) Ready = Some (Testing Idle)" using q(4) by (simp add: session_run_append)
  moreover have "session_at (Testing Idle) v"
  proof -
    have "proto_at Idle v" using h(3) s(5) by (simp add: proto_at_def)
    moreover have "undisturbed v = undisturbed w" by (simp add: undisturbed_def h(4,5))
    moreover have "undisturbed w \<longrightarrow> (\<forall>j. 1 \<le> j \<and> j < n \<and> j \<le> 4 \<longrightarrow> wanted j w \<longrightarrow> performed j w)"
      "\<forall>j. 1 \<le> j \<and> j \<le> 4 \<longrightarrow> performed j w \<longrightarrow> wanted j w"
      using q(5) assms(3) by (simp_all add: session_at_def)
    ultimately show ?thesis
      unfolding session_at_def p using a s(1,5) n by (simp add: pausing_def del: not_all)
  qed
  moreover have "delivered lib (out v) = cs @ ds @ [''started'']" using h(1) q(3) by simp
  moreover have "error_discipline v" using h(5,6) q(2) by (simp add: error_discipline_def)
  ultimately show ?thesis
    unfolding session_inv_def using h(2) q(6) s(1)
    by (intro conjI exI [of _ "ds @ [''started'']"] exI [of _ "Testing Idle"]) (simp_all add: exited_def)
qed

lemma session_main:
  assumes "system_inv b n w" "session_inv lib cs w" "v = main_step lib raw (\<lambda>_. True) w"
  shows "session_inv lib cs v"
proof -
  note i = assms(1) [unfolded system_inv_def] and mv = session_inv_move [OF assms(2)]
  show ?thesis
  proof (cases "main_pc w")
    case (MainSelect tc)
    then have tc: "tc = n" "1 \<le> n" "n \<le> 5" using i by (simp_all add: main_inv_def)
    have v: "v = select_test n w" using assms(3) MainSelect tc by (simp add: main_step_def)
    consider "4 < n" | "n \<le> 4" "\<not> take_test n w" | "n \<le> 4" "take_test n w" by linarith
    then show ?thesis
    proof cases
      case 1
      then have "session_inv lib cs (w\<lparr>main_pc := MainShutdown\<rparr>)"
        using tc MainSelect by (intro mv) (auto simp: exited_def pausing_def)
      moreover have "v = (w\<lparr>main_pc := MainShutdown\<rparr>)\<lparr>currentTestPhase := END\<rparr>"
        using 1 tc by (simp add: v select_test_def)
      ultimately show ?thesis by (simp only: session_inv_updates)
    next
      case 2
      have "undisturbed w \<longrightarrow> \<not> wanted n w"
        using 2 by (auto simp: take_test_def wanted_def undisturbed_def split: if_splits)
      moreover have "v = w\<lparr>main_pc := MainSelect (n + 1)\<rparr>" using 2 tc by (simp add: v select_test_def)
      moreover have "j = n" if "n \<le> j" "j < n + 1" for j using that by linarith
      ultimately show ?thesis using tc MainSelect by (intro mv) (auto simp: exited_def pausing_def)
    next
      case 3
      have "v = w\<lparr>main_pc := MainPause n\<rparr>" using 3 tc by (simp add: v select_test_def)
      then show ?thesis using session_select [OF assms(1,2) _ 3] MainSelect tc by simp
    qed
  next
    case (MainPause tc)
    then have tc: "tc = n" "n \<le> 4" using i by (simp_all add: main_inv_def)
    then show ?thesis
      using session_start [OF assms(1,2)] assms(3) MainPause by (simp add: main_step_def)
  next
    case (MainThreads tc)
    have "session_inv lib cs (w\<lparr>main_pc := MainPoll tc\<rparr>)"
      using MainThreads by (intro mv) (auto simp: exited_def pausing_def)
    moreover have "v = w \<or> v = w\<lparr>main_pc := MainPoll tc\<rparr>"
      using assms(3) MainThreads by (simp add: main_step_def measurement_step_def)
    ultimately show ?thesis using assms(2) by auto
  next
    case (MainPoll tc)
    have "v = w \<or> v = delete_threads tc (w\<lparr>main_pc := MainTimer tc\<rparr>) \<and> (undisturbed w \<longrightarrow> performed tc w)"
      using assms(3) MainPoll by (auto simp: main_step_def measurement_step_def undisturbed_def)
    then show ?thesis
    proof (elim disjE conjE)
      assume v: "v = delete_threads tc (w\<lparr>main_pc := MainTimer tc\<rparr>)" and d: "undisturbed w \<longrightarrow> performed tc w"
      have "j = tc" if "tc \<le> j" "j < tc + 1" for j using that by linarith
      then have "session_inv lib cs (w\<lparr>main_pc := MainTimer tc\<rparr>)"
        using MainPoll d by (intro mv) (auto simp: exited_def pausing_def)
      then show ?thesis by (simp add: v session_inv_delete)
    qed (use assms(2) in simp)
  next
    case (MainTimer tc)
    then have "session_inv lib cs (w\<lparr>main_pc := MainSelect (tc + 1)\<rparr>)"
      using MainTimer by (intro mv) (auto simp: exited_def pausing_def)
    moreover have "v = w \<or> v = w\<lparr>main_pc := MainSelect (tc + 1)\<rparr>"
      using assms(3) MainTimer by (simp add: main_step_def measurement_step_def)
    ultimately show ?thesis using assms(2) by auto
  next
    case MainShutdown
    then show ?thesis using session_shutdown [OF assms(2)] assms(3) by (simp add: main_step_def)
  qed (use assms(2,3) in \<open>simp_all add: main_step_def\<close>)
qed

section \<open>The whole measurement\<close>

lemma session_fresh:
  assumes "launched (reset_globals w0) w" "IP w" "main_pc w = MainSelect 1" "timer_pc (timer w0) = TimerDone"
    and "mobile lib w" "delivered lib (out w) = cs @ ds"
    and "ds = [] \<and> q = Ready \<or> ds = [''error''] \<and> q = Testing Failed \<and> \<not> RUNNING w"
  shows "session_inv lib cs w"
proof -
  have sf: "same_flags (reset_globals w0) w" and t: "timer_pc (timer w) = TimerDone" and d: "error_discipline w"
    using assms(1,4) reset_globals_fresh(6) [of w0]
    by (simp_all add: launched_def reset_globals_fresh(2) error_discipline_def)
  have p: "\<not> performed j w" for j using same_flags_performed(1) [OF sf] reset_globals_fresh(1) by simp
  have "\<not> all_performed w" using assms(2) p [of 1] by (simp add: all_performed_wanted wanted_def)
  then have "session_at q w"
    using assms(3,7) t p by (auto simp: session_at_def proto_at_def undisturbed_def pausing_def)
  moreover have "session_run ds Ready = Some q" "count_list ds ''started'' = 0" using assms(7) by auto
  ultimately show ?thesis
    unfolding session_inv_def using assms(3,5,6) d
    by (intro conjI exI [of _ ds] exI [of _ q]) (simp_all add: exited_def)
qed

lemma session_init:
  assumes "measurement_init lib cfg rnd text w0 = Inr w" "timer_pc (timer w0) = TimerDone"
    and "mobile lib w0" "\<not> exited w0"
  shows "session_inv lib (delivered lib (out w0)) w"
  using init_cases [OF assms(1)]
proof (elim disjE exE conjE)
  assume "target lib = Desktop"
  then show ?thesis using assms(3) by (simp add: mobile_def)
next
  assume "exited w0"
  then show ?thesis using assms(4) by simp
next
  fix u assume u: "configured (reset_globals w0) u" "w = u\<lparr>main_pc := MainSelect 1\<rparr>"
  have "launched (reset_globals w0) w"
    unfolding u(2) by (rule launched_trans [OF _ launched_parts(4)]) (use u(1) in \<open>simp add: configured_def\<close>)
  then show ?thesis
    using u assms(2,3) by (intro session_fresh [where ds = "[]" and q = Ready])
      (simp_all add: configured_def mobile_def reset_globals_def)
next
  fix u v assume u: "configured (reset_globals w0) u"
    and v: "callback lib ''error'' ''no test case enabled'' 1 ''no test case enabled'' u = Inr v"
    "w = (if exited (shutdown lib v) then shutdown lib v else (shutdown lib v)\<lparr>main_pc := MainSelect 1\<rparr>)"
  have m: "mobile lib u" using u assms(3) by (simp add: configured_def mobile_def reset_globals_def)
  have h: "mobile lib v" "delivered lib (out v) = delivered lib (out w0) @ [''error'']"
    using callback_heard [OF v(1)] m u
    by (simp_all add: heard_def commands_def completes_def configured_def reset_globals_def)
  have s: "shutdown lib v = v\<lparr>RUNNING := False\<rparr>" using h(1) by (auto simp: shutdown_def Let_def mobile_def)
  have "\<not> exited v" using u cb.send_frame(8) [OF v(1)] by (simp add: configured_def exited_def)
  then have w: "w = v\<lparr>RUNNING := False, main_pc := MainSelect 1\<rparr>" using v(2) s by (simp add: exited_def)
  have "launched (reset_globals w0) u" using u by (simp add: configured_def)
  then have "launched (reset_globals w0) ((shutdown lib v)\<lparr>main_pc := MainSelect 1\<rparr>)"
    by (rule launched_trans [OF launched_trans [OF launched_trans [OF _ launched_callback [OF v(1)]]
      launched_parts(1)] launched_parts(4)])
  then have "launched (reset_globals w0) w" using s w by simp
  moreover have "IP v" using u cb.send_frame(14) [OF v(1)] by (simp add: configured_def)
  ultimately show ?thesis
    using h assms(2) by (intro session_fresh [where ds = "[''error'']" and q = "Testing Failed"])
      (simp_all add: w mobile_def)
qed

lemma session_system:
  assumes "system_run lib w v" "\<exists>b n. system_inv b n w" "session_inv lib cs w"
  shows "session_inv lib cs v \<and> (\<exists>b n. system_inv b n v)"
  using assms
proof (induction rule: system_run.induct)
  case (step w u v)
  then obtain b n where i: "system_inv b n u" "session_inv lib cs u" by blast
  have "session_inv lib cs v"
    using step.hyps(2)
  proof cases
    case (main raw)
    then show ?thesis using session_main [OF i main] by simp
  next
    case timer
    then show ?thesis using session_timer [OF i] by blast
  next
    case threads
    then show ?thesis using session_threads [OF i(2)] by blast
  qed
  then show ?case using system_step_inv [OF i(1) step.hyps(2)] by blast
qed blast

text \<open>C1: What a mobile app hears of one whole measurement, in every run of all its threads and with any
  answers of the network, is a run of the session automaton: at most four test cases one after another,
  each starting with \<open>started\<close>, the next one only behind a \<open>finish\<close>, nothing behind an \<open>error\<close>. The
  session is completed exactly when every wanted test case has been performed, and a main thread
  that gets to its end without a stop or an error has completed it. Thread creation succeeds in
  the run (for a refused one see \<open>creation_failure\<close>).\<close>

theorem session_protocol:
  assumes "measurement_init lib cfg rnd text w0 = Inr w" "timer_pc (timer w0) = TimerDone"
    and "mobile lib w0" "\<not> exited w0" "system_run lib w v"
  shows "\<exists>ds q. delivered lib (out v) = delivered lib (out w0) @ ds \<and> session_run ds Ready = Some q
    \<and> count_list ds ''started'' \<le> 4 \<and> (q = Completed \<longleftrightarrow> all_performed v)
    \<and> (main_pc v = MainShutdown \<and> undisturbed v \<longrightarrow> q = Completed)"
proof -
  note f = init_fresh [OF assms(1,2)]
  have "session_inv lib (delivered lib (out w0)) v \<and> (\<exists>b n. system_inv b n v)"
    using session_system [OF assms(5) _ session_init [OF assms(1-4)]] fresh_start_inv [OF f(1)] by blast
  then obtain ds q where q: "delivered lib (out v) = delivered lib (out w0) @ ds" "session_run ds Ready = Some q"
    "session_at q v" "int (count_list ds ''started'') < next_test (main_pc v)" "\<exists>b n. system_inv b n v"
    by (auto simp: session_inv_def)
  obtain b n where i: "system_inv b n v" using q(5) by blast
  have "main_inv n v" using i by (simp add: system_inv_def)
  then have "next_test (main_pc v) \<le> 5" by (cases "main_pc v") (simp_all add: main_inv_def)
  then have c: "count_list ds ''started'' \<le> 4" using q(4) by linarith
  have a: "q = Completed \<longleftrightarrow> all_performed v"
    "undisturbed v \<longrightarrow> (\<forall>j. 1 \<le> j \<and> j < passed (main_pc v) \<and> j \<le> 4 \<longrightarrow> wanted j v \<longrightarrow> performed j v)"
    "\<forall>j. 1 \<le> j \<and> j \<le> 4 \<longrightarrow> performed j v \<longrightarrow> wanted j v"
    using q(3) unfolding session_at_def by blast+
  have "q = Completed" if "main_pc v = MainShutdown" "undisturbed v"
  proof -
    have "\<forall>j. 1 \<le> j \<and> j \<le> 4 \<longrightarrow> wanted j v = performed j v" using a(2,3) that by auto
    then have "all_performed v" by (simp add: all_performed_wanted)
    then show ?thesis using a(1) by blast
  qed
  then show ?thesis using q(1,2) c a(1) by blast
qed

text \<open>The run of the IP test of \<open>System\<close>, in the middle of its session.\<close>

lemma session_protocol_witness:
  "\<exists>v ds q. system_run ip_lib ip_start v \<and> timer_pc (timer v) = TimerBody \<and>
     delivered ip_lib (out v) = ds \<and> session_run ds Ready = Some q \<and> q \<noteq> Completed"
proof -
  obtain v where v: "system_run ip_lib ip_start v"
    "ip_stage (MainPoll 1) TimerBody 2000000 [(5, 1)] True 3 (RunReturned 0) v"
    using race_reached by blast
  have "mobile ip_lib ip_process" "\<not> exited ip_process"
    by (simp_all add: mobile_def ip_process_def process_start_def exited_def)
  from session_protocol [OF ip_init(1,2) this v(1)] obtain ds q where
    q: "delivered ip_lib (out v) = delivered ip_lib (out ip_process) @ ds" "session_run ds Ready = Some q"
    "q = Completed \<longleftrightarrow> all_performed v" by blast
  have "\<not> all_performed v" using v(2) by (simp add: ip_stage_def all_performed_def)
  moreover have "delivered ip_lib (out ip_process) = []"
    by (simp add: ip_process_def process_start_def delivered_def)
  ultimately show ?thesis using v q by (intro exI [of _ v] exI [of _ ds] exI [of _ q]) (auto simp: ip_stage_def ctimer0_def)
qed

end
