(* ===== verification/Stopping.thy ===== *)
theory Stopping
  imports Session
begin

text \<open>
  The end of a measurement: a measure of what is left to do once \<open>RUNNING\<close> is cleared, whom the
  main thread waits for, and the proof that fair turns of the threads bring it to its end.
  A thread's turn stands for a call that returns; a socket or a platform that blocks for ever is
  no turn.
\<close>

section \<open>Where the test threads are\<close>

definition places :: "'c world \<Rightarrow> int \<Rightarrow> nat \<Rightarrow> run_pc option" where
  "places w tc p =
     (if tc = 1 then map_option run_pc (ip_heap w p) else if tc = 2 then map_option run_pc (ping_heap w p)
      else if tc = 3 then map_option run_pc (dl_heap w p) else map_option run_pc (ul_heap w p))"

definition pointers :: "int \<Rightarrow> 'c world \<Rightarrow> nat list" where
  "pointers tc w =
     (if tc = 1 then (case ipThread w of None \<Rightarrow> [] | Some p \<Rightarrow> [p])
      else if tc = 2 then (case pingThread w of None \<Rightarrow> [] | Some p \<Rightarrow> [p])
      else if tc = 3 then vDownloadThreads w else vUploadThreads w)"

definition has_returned :: "run_pc option \<Rightarrow> bool" where
  "has_returned c \<longleftrightarrow> (case c of None \<Rightarrow> True | Some c \<Rightarrow> returned c)"

lemma threads_ended_places: "threads_ended tc w \<longleftrightarrow> (\<forall>p\<in>set (pointers tc w). has_returned (places w tc p))"
  by (auto simp: threads_ended_def all_returned_def pointers_def places_def has_returned_def list_all_iff
      split: option.splits)

lemma scene_pointers: "scene v = scene w \<Longrightarrow> pointers tc v = pointers tc w"
  by (simp add: scene_def pointers_def)

lemma places_updates [simp]:
  "places (w\<lparr>timer := t\<rparr>) = places w" "places (w\<lparr>clock_pos := n\<rparr>) = places w" "places (w\<lparr>main_pc := pc\<rparr>) = places w"
  "places (w\<lparr>RUNNING := b\<rparr>) = places w" "places (w\<lparr>hasError := b\<rparr>) = places w" "places (w\<lparr>STREAMS_DROPPED := b\<rparr>) = places w"
  "places (w\<lparr>TIMER_STOPPED := b\<rparr>) = places w" "places (w\<lparr>TIMER_RUNNING := b\<rparr>) = places w"
  "places (w\<lparr>TIMER_ACTIVE := b\<rparr>) = places w" "places (w\<lparr>TIMER_INDEX := i\<rparr>) = places w"
  "places (w\<lparr>TIMER_DURATION := i\<rparr>) = places w" "places (w\<lparr>trace := tr\<rparr>) = places w" "places (w\<lparr>out := os\<rparr>) = places w"
  "places (w\<lparr>PERFORMED_IP := b\<rparr>) = places w" "places (w\<lparr>PERFORMED_RTT := b\<rparr>) = places w"
  "places (w\<lparr>PERFORMED_DOWNLOAD := b\<rparr>) = places w" "places (w\<lparr>PERFORMED_UPLOAD := b\<rparr>) = places w"
  "places (w\<lparr>currentTestPhase := ph\<rparr>) = places w" "places (w\<lparr>jMeasurementResultsTime := o1\<rparr>) = places w"
  "places (w\<lparr>jMeasurementResultsPeer := o1\<rparr>) = places w" "places (w\<lparr>jMeasurementResultsIp := o1\<rparr>) = places w"
  "places (w\<lparr>jMeasurementResultsRttUdp := o1\<rparr>) = places w" "places (w\<lparr>jMeasurementResultsDownload := l\<rparr>) = places w"
  "places (w\<lparr>jMeasurementResultsDownloadStreams := l\<rparr>) = places w" "places (w\<lparr>jMeasurementResultsUpload := l\<rparr>) = places w"
  "places (w\<lparr>jMeasurementResultsUploadStreams := l\<rparr>) = places w" "places (set_pc tpc w) = places w"
  by (simp_all add: places_def fun_eq_iff set_pc_def)

lemma places_heap:
  "ip_heap w = h1 \<Longrightarrow> h1 p = Some t1 \<Longrightarrow> run_pc t1' = run_pc t1 \<Longrightarrow> places (w\<lparr>ip_heap := h1(p \<mapsto> t1')\<rparr>) = places w"
  "ping_heap w = h2 \<Longrightarrow> h2 p = Some t2 \<Longrightarrow> run_pc t2' = run_pc t2 \<Longrightarrow> places (w\<lparr>ping_heap := h2(p \<mapsto> t2')\<rparr>) = places w"
  "dl_heap w = h3 \<Longrightarrow> h3 p = Some t3 \<Longrightarrow> run_pc t3' = run_pc t3 \<Longrightarrow> places (w\<lparr>dl_heap := h3(p \<mapsto> t3')\<rparr>) = places w"
  "ul_heap w = h4 \<Longrightarrow> h4 p = Some t4 \<Longrightarrow> run_pc t4' = run_pc t4 \<Longrightarrow> places (w\<lparr>ul_heap := h4(p \<mapsto> t4')\<rparr>) = places w"
  by (auto simp: places_def fun_eq_iff)

section \<open>The timer moves no test thread\<close>

lemma stamp_stream_places:
  assumes "stamp_stream sk ek cmd current t w = (t', w')"
  shows "run_pc t' = run_pc t" "places w' = places w" "dl_heap w' = dl_heap w" "ul_heap w' = ul_heap w"
  using assms by (auto simp: stamp_stream_def get_timestamp_def Let_def split: if_splits)

lemma read_stream_places:
  assumes "read_stream lib cmd current p w = Inr (x, v)"
  shows "places v = places w"
proof -
  consider "conf_sTestName w = ''download''" | "conf_sTestName w = ''upload''"
    | "conf_sTestName w \<noteq> ''download''" "conf_sTestName w \<noteq> ''upload''" by blast
  then show ?thesis
  proof cases
    case 1
    then obtain d where d: "dl_heap w p = Some d" using assms by (auto simp: read_stream_def res_simps)
    obtain d' w' where s: "stamp_stream ''download_start'' ''download_end'' cmd current d w = (d', w')" by fastforce
    have "v = w'\<lparr>dl_heap := (dl_heap w')(p \<mapsto> d')\<rparr>" using assms 1 d s by (simp add: read_stream_def deref_def)
    then show ?thesis using d stamp_stream_places [OF s] by (simp add: places_heap)
  next
    case 2
    then obtain u where u: "ul_heap w p = Some u" using assms by (auto simp: read_stream_def res_simps)
    obtain u' w' where s: "stamp_stream ''upload_start'' ''upload_end'' cmd current u w = (u', w')" by fastforce
    have "v = w'\<lparr>ul_heap := (ul_heap w')(p \<mapsto> u')\<rparr>" using assms 2 u s by (simp add: read_stream_def deref_def)
    then show ?thesis using u stamp_stream_places [OF s] by (simp add: places_heap)
  qed (use assms in \<open>simp add: read_stream_def\<close>)
qed

lemma calc_thread_places:
  assumes "calc_thread lib cmd current ms step p (a, per, w) = Inr (a', per', v)"
  shows "places v = places w"
proof (cases "read_stream lib cmd current p w")
  case (Inr y)
  obtain data slow rel counts w1 where y: "y = ((data, slow, rel, counts), w1)" by (cases y) auto
  have "v = w1" using assms
    by (simp add: calc_thread_def Inr y Let_def case_prod_beta) (auto simp: res_simps)
  then show ?thesis using read_stream_places Inr y by blast
qed (use assms in \<open>simp add: calc_thread_def\<close>)

lemma calc_threads_places:
  "calc_threads lib cmd current ms step ps (a, per, w) = Inr (a', per', v) \<Longrightarrow> places v = places w"
proof (induction ps arbitrary: a per w)
  case (Cons p ps)
  then obtain b q u where "calc_thread lib cmd current ms step p (a, per, w) = Inr (b, q, u)"
    "calc_threads lib cmd current ms step ps (b, q, u) = Inr (a', per', v)"
    by (auto simp: res_bind_Inr_iff)
  then show ?case using Cons.IH calc_thread_places by metis
qed simp

lemma calc_step_places:
  assumes "calc_step lib cmd ms ps step (res, per, w) = Inr (res', per', v)"
  shows "places v = places w"
proof -
  obtain a q u where "calc_threads lib cmd (clock w (clock_pos w)) ms step ps
      (new_acc lib, per, w\<lparr>clock_pos := Suc (clock_pos w)\<rparr>) = Inr (a, q, u)"
    "end_step lib cmd res (a, q, u) = (res', per', v)"
    using assms by (auto simp: calc_step_def get_timestamp_def res_map_Inr_iff)
  then show ?thesis
    using calc_threads_places by (fastforce simp: end_step_def Let_def split: if_splits)
qed

lemma calc_steps_places:
  "calc_steps lib cmd ms ps steps (res, per, w) = Inr (res', per', v) \<Longrightarrow> places v = places w"
proof (induction steps arbitrary: res per w)
  case (Cons step steps)
  then obtain b q u where "calc_step lib cmd ms ps step (res, per, w) = Inr (b, q, u)"
    "calc_steps lib cmd ms ps steps (b, q, u) = Inr (res', per', v)"
    by (auto simp: res_bind_Inr_iff)
  then show ?case using Cons.IH calc_step_places by metis
qed simp

lemma calculate_places:
  assumes "calculateMeasurementResultsDownloadUpload lib cmd ps w = Inr v"
  shows "places v = places w"
proof -
  obtain res per u where c: "calc_steps lib cmd (max_steps_of w) ps [1..max_steps_of w] ([], [], w) = Inr (res, per, u)"
    "publish_results (res, per, u) = Inr v"
    using assms by (auto simp: calculateMeasurementResultsDownloadUpload_def res_bind_Inr_iff Let_def)
  have "places v = places u" using c(2) by (auto simp: publish_results_def Let_def res_map_Inr_iff split: if_splits)
  then show ?thesis using calc_steps_places [OF c(1)] by simp
qed

lemma ipCallback_places:
  assumes "ipCallback cmd w = Inr v"
  shows "places v = places w"
proof -
  obtain p t where t: "deref (ip_heap w) (ipThread w) = Inr (p, t)" "ip_heap w p = Some t"
    using assms by (auto simp: ipCallback_def res_simps)
  show ?thesis
    using assms by (auto simp: ipCallback_def t get_timestamp_def Let_def places_heap split: if_splits)
qed

lemma rttUdpCallback_places:
  assumes "rttUdpCallback lib cmd w = Inr v"
  shows "places v = places w"
proof -
  obtain p t where t: "deref (ping_heap w) (pingThread w) = Inr (p, t)" "ping_heap w p = Some t"
    using assms by (auto simp: rttUdpCallback_def res_simps)
  show ?thesis
    using assms by (auto simp: rttUdpCallback_def t get_timestamp_def Let_def places_heap split: if_splits)
qed

lemma callback_places:
  assumes "callback lib cmd msg code descr w = Inr v"
  shows "places v = places w"
proof -
  let ?w = "init_peer (w\<lparr>trace := trace w @ [(cmd, msg)]\<rparr>)"
  have i: "places ?w = places w" by (simp add: init_peer_def)
  have r: "places (report_to_platform lib c msg code descr u) = places u" for c u
    by (simp add: report_to_platform_def stamp_end_def callbackToPlatform_def get_timestamp_def Let_def)
  have t: "places u = places ?w" if "test_case_callback lib cmd ?w = Inr u" for u
    using that by (auto simp: test_case_callback_def res_map_Inr_iff downloadCallback_def uploadCallback_def
        dest!: ipCallback_places rttUdpCallback_places calculate_places split: if_splits)
  show ?thesis
    using assms t by (auto simp: callback_def Let_def res_map_Inr_iff r i split: if_split_asm)
qed

lemma timer_step_places:
  assumes "timer_step lib w = Inr v"
  shows "places v = places w"
proof -
  have s: "places x = places u" if "signal_error lib msg code pc u = Inr x" for msg code pc u x
    using that by (auto simp: signal_error_def res_map_Inr_iff dest: callback_places)
  have a: "places (advance_timer u) = places u" for u by (simp add: advance_timer_def get_timestamp_def Let_def)
  show ?thesis
  proof (cases "timer_pc (timer w)")
    case TimerOuter
    then show ?thesis
      using assms by (auto simp: timer_step_def outer_step_def res_map_Inr_iff dest!: callback_places s split: if_split_asm)
  next
    case TimerBody
    then have "body_step lib w = Inr v" using assms by (simp add: timer_step_def)
    then show ?thesis
      by (auto simp: body_step_def Let_def res_map_Inr_iff a dest!: callback_places s split: if_split_asm)
  qed (use assms in \<open>auto simp: timer_step_def delay_step_def inner_step_def left_step_def get_timestamp_def
      res_map_Inr_iff dest!: callback_places split: if_split_asm\<close>)
qed

section \<open>Who acts\<close>

datatype actor = MainThread | TimerThread | TestThread int nat

inductive acts :: "'c lib \<Rightarrow> actor \<Rightarrow> 'c world \<Rightarrow> 'c world \<Rightarrow> bool" for lib where
  main: "acts lib MainThread w (main_step lib raw (\<lambda>_. True) w)"
| timer: "timer_step lib w = Inr v \<Longrightarrow> acts lib TimerThread w v"
| ip: "ip_heap w p = Some t \<Longrightarrow> ip_step lib e (t, w) = Inr (t', v) \<Longrightarrow>
        acts lib (TestThread 1 p) w (v\<lparr>ip_heap := (ip_heap v)(p \<mapsto> t')\<rparr>)"
| ping: "ping_heap w p = Some t \<Longrightarrow> ping_step lib pe (t, w) = Inr (t', v) \<Longrightarrow>
        acts lib (TestThread 2 p) w (v\<lparr>ping_heap := (ping_heap v)(p \<mapsto> t')\<rparr>)"
| download: "dl_heap w p = Some t \<Longrightarrow> download_step lib e (t, w) = Inr (t', v) \<Longrightarrow>
        acts lib (TestThread 3 p) w (v\<lparr>dl_heap := (dl_heap v)(p \<mapsto> t')\<rparr>)"
| upload: "ul_heap w p = Some t \<Longrightarrow> upload_step lib e (t, w) = Inr (t', v) \<Longrightarrow>
        acts lib (TestThread 4 p) w (v\<lparr>ul_heap := (ul_heap v)(p \<mapsto> t')\<rparr>)"

lemma acts_system: "acts lib a w v \<Longrightarrow> system_step lib w v"
  by (erule acts.cases) (auto intro: system_step.intros threads_step.intros)

definition at_home :: "'c world \<Rightarrow> bool" where
  "at_home w \<longleftrightarrow> (case main_pc w of
       MainSelect tc \<Rightarrow> 1 \<le> tc \<and> tc \<le> 5 \<and> timer_pc (timer w) = TimerDone
     | MainPause tc \<Rightarrow> 1 \<le> tc \<and> tc \<le> 4 \<and> timer_pc (timer w) = TimerDone | MainThreads tc \<Rightarrow> 1 \<le> tc \<and> tc \<le> 4
     | MainPoll tc \<Rightarrow> 1 \<le> tc \<and> tc \<le> 4 | MainTimer tc \<Rightarrow> 1 \<le> tc \<and> tc \<le> 4 | _ \<Rightarrow> True)"

lemma at_home_cong:
  "main_pc v = main_pc w \<or> exited v \<Longrightarrow> timer_pc (timer w) = TimerDone \<longrightarrow> timer_pc (timer v) = TimerDone \<Longrightarrow>
     at_home w \<Longrightarrow> at_home v"
  by (auto simp: at_home_def exited_def split: main_pc.splits)

lemma at_home_main:
  assumes "at_home w"
  shows "at_home (main_step lib raw (\<lambda>_. True) w)"
proof (cases "main_pc w")
  case (MainSelect tc)
  then have tc: "1 \<le> tc" "tc \<le> 5" "timer_pc (timer w) = TimerDone" using assms by (simp_all add: at_home_def)
  then show ?thesis using MainSelect by (simp add: main_step_def select_test_def at_home_def)
next
  case (MainPause tc)
  then have tc: "1 \<le> tc" "tc \<le> 4" using assms by (simp_all add: at_home_def)
  obtain u where "main_step lib raw (\<lambda>_. True) w = startTestCase lib raw (\<lambda>_. True) tc u"
    "conf_sTestName u = test_name tc"
    using MainPause by (simp add: main_step_def start_test_def Let_def)
  then have "main_pc (main_step lib raw (\<lambda>_. True) w) = MainThreads tc"
    using startTestCase_all(1) [OF tc] by blast
  then show ?thesis using tc by (simp add: at_home_def)
next
  case MainShutdown
  then show ?thesis by (simp add: main_step_def final_shutdown_def shutdown_def Let_def at_home_def)
qed (use assms in \<open>auto simp: main_step_def measurement_step_def at_home_def\<close>)

lemma at_home_step:
  assumes "system_step lib w v" "at_home w"
  shows "at_home v"
  using assms(1)
proof cases
  case (main raw)
  then show ?thesis using at_home_main [OF assms(2)] by simp
next
  case timer
  have "main_pc v = main_pc w" "timer_pc (timer w) = TimerDone \<longrightarrow> timer_pc (timer v) = TimerDone"
    using timer_step_kept [OF timer] by (auto simp: quiet_def)
  then show ?thesis using at_home_cong assms(2) by blast
next
  case threads
  then show ?thesis using threads_step_kept [OF threads] at_home_cong assms(2) by metis
qed

lemma at_home_run: "system_run lib w v \<Longrightarrow> at_home w \<Longrightarrow> at_home v"
  by (induction rule: system_run.induct) (blast dest: at_home_step)+

section \<open>What is left to do after a stop\<close>

text \<open>
  A measure of the way to the end once \<open>RUNNING\<close> is cleared: the steps of the main thread between its
  waits, those of the timer, and those of the test threads while the main thread waits for them.
\<close>

fun main_left :: "main_pc \<Rightarrow> nat" where
  "main_left (MainSelect tc) = 2 + nat (5 - tc)"
| "main_left (MainPause tc) = 6 + nat (5 - (tc + 1))"
| "main_left (MainTimer tc) = 3 + nat (5 - (tc + 1))"
| "main_left (MainPoll tc) = 4 + nat (5 - (tc + 1))"
| "main_left (MainThreads tc) = 5 + nat (5 - (tc + 1))"
| "main_left MainShutdown = 1"
| "main_left _ = 0"

definition place_left :: "run_pc option \<Rightarrow> nat" where
  "place_left c = (case c of None \<Rightarrow> 0 | Some c \<Rightarrow> steps_to_return c)"

text \<open>
  The number of streams that a selected test case is going to start; a stop in the half second before
  that does not prevent it.
\<close>

definition upcoming :: "'c lib \<Rightarrow> int \<Rightarrow> 'c world \<Rightarrow> nat" where
  "upcoming lib tc w = (if tc = 1 \<or> tc = 2 then 1 else nat (test_instances lib (w\<lparr>conf_nTestCase := tc\<rparr>)))"

definition awaited :: "'c lib \<Rightarrow> 'c world \<Rightarrow> nat" where
  "awaited lib w = (case main_pc w of
     MainThreads tc \<Rightarrow> length (pointers tc w) | MainPause tc \<Rightarrow> upcoming lib tc w | _ \<Rightarrow> 0)"

definition threads_left :: "'c lib \<Rightarrow> 'c world \<Rightarrow> nat" where
  "threads_left lib w = (case main_pc w of
     MainPause tc \<Rightarrow> 2 + 3 * upcoming lib tc w
   | MainThreads tc \<Rightarrow> sum_list (map (\<lambda>p. place_left (places w tc p)) (pointers tc w)) | _ \<Rightarrow> 0)"

definition left_to_do :: "'c lib \<Rightarrow> 'c world \<Rightarrow> nat" where
  "left_to_do lib w = main_left (main_pc w) + steps_left (timer_pc (timer w)) + threads_left lib w"

text \<open>Who can bring the end nearer: the main thread unless it waits, else one it waits for.\<close>

definition helpful :: "actor \<Rightarrow> 'c world \<Rightarrow> bool" where
  "helpful a w \<longleftrightarrow> (case main_pc w of
       MainThreads tc \<Rightarrow> (if threads_ended tc w then a = MainThread
          else \<exists>p\<in>set (pointers tc w). a = TestThread tc p \<and> \<not> has_returned (places w tc p))
     | MainTimer tc \<Rightarrow> if timer_pc (timer w) = TimerDone then a = MainThread else a = TimerThread
     | MainReturned \<Rightarrow> False
     | MainExited _ \<Rightarrow> False
     | _ \<Rightarrow> a = MainThread)"

lemma has_returned_left: "has_returned c \<longleftrightarrow> place_left c = 0"
  by (auto simp: has_returned_def place_left_def steps_to_return_0 split: option.split)

lemma helpful_exists:
  assumes "main_pc w \<noteq> MainReturned" "\<not> exited w"
  shows "\<exists>a. helpful a w"
  using assms by (cases "main_pc w") (auto simp: helpful_def threads_ended_places exited_def)

text \<open>Nothing of what decides who is helpful has changed.\<close>

definition same_place :: "'c world \<Rightarrow> 'c world \<Rightarrow> bool" where
  "same_place w v \<longleftrightarrow> main_pc v = main_pc w \<and> timer_pc (timer v) = timer_pc (timer w) \<and>
     (\<forall>tc. main_pc w = MainThreads tc \<longrightarrow> pointers tc v = pointers tc w \<and>
        (\<forall>p\<in>set (pointers tc w). has_returned (places v tc p) = has_returned (places w tc p)))"

lemma same_place_helpful: "same_place w v \<Longrightarrow> helpful a v = helpful a w"
  by (cases "main_pc w") (auto simp: helpful_def same_place_def threads_ended_places)

lemma same_place_refl [simp]: "same_place w w"
  by (simp add: same_place_def)

section \<open>Every turn counts\<close>

lemma sum_list_less:
  fixes f g :: "'a \<Rightarrow> nat"
  assumes "\<forall>q\<in>set ps. f q \<le> g q"
  shows "sum_list (map f ps) \<le> sum_list (map g ps)"
    "p \<in> set ps \<Longrightarrow> f p < g p \<Longrightarrow> sum_list (map f ps) < sum_list (map g ps)"
proof -
  show "sum_list (map f ps) \<le> sum_list (map g ps)" using assms by (simp add: sum_list_mono)
  show "p \<in> set ps \<Longrightarrow> f p < g p \<Longrightarrow> sum_list (map f ps) < sum_list (map g ps)"
    using assms
  proof (induction ps)
    case (Cons q qs)
    have "sum_list (map f qs) \<le> sum_list (map g qs)" using Cons.prems(3) by (simp add: sum_list_mono)
    then show ?case using Cons by (cases "p = q") (auto simp: add_less_le_mono add_le_less_mono)
  qed simp
qed

lemma worker_turn:
  assumes "worker_effect w u"
  shows "ip_heap u = ip_heap w" "ping_heap u = ping_heap w" "places u = places w" "pointers tc u = pointers tc w"
    "upcoming lib tc u = upcoming lib tc w"
proof -
  have e: "erase_worker u = erase_worker w" using assms by (simp add: worker_effect_def)
  show h: "ip_heap u = ip_heap w" "ping_heap u = ping_heap w"
    using arg_cong [OF e, of ip_heap] arg_cong [OF e, of ping_heap] by (simp_all add: erase_worker_def)
  show "places u = places w" by (simp add: places_def fun_eq_iff h worker_effect_frame [OF assms])
  have "scene u = scene w" using worker_effect_kept(1) [OF assms] by (simp add: kept_def)
  then show "pointers tc u = pointers tc w" by (rule scene_pointers)
  have "pXml u = pXml w" "conf_sProvider u = conf_sProvider w"
    using arg_cong [OF e, of pXml] arg_cong [OF e, of conf_sProvider] by (simp_all add: erase_worker_def)
  then show "upcoming lib tc u = upcoming lib tc w" by (simp add: upcoming_def test_instances_def)
qed

lemma upcoming_heaps [simp]:
  "upcoming lib tc (w\<lparr>ip_heap := h1\<rparr>) = upcoming lib tc w" "upcoming lib tc (w\<lparr>ping_heap := h2\<rparr>) = upcoming lib tc w"
  "upcoming lib tc (w\<lparr>dl_heap := h3\<rparr>) = upcoming lib tc w" "upcoming lib tc (w\<lparr>ul_heap := h4\<rparr>) = upcoming lib tc w"
  by (simp_all add: upcoming_def test_instances_def)

lemma pointers_heaps [simp]:
  "pointers tc (w\<lparr>ip_heap := h1\<rparr>) = pointers tc w" "pointers tc (w\<lparr>ping_heap := h2\<rparr>) = pointers tc w"
  "pointers tc (w\<lparr>dl_heap := h3\<rparr>) = pointers tc w" "pointers tc (w\<lparr>ul_heap := h4\<rparr>) = pointers tc w"
  "pointers tc (w\<lparr>main_pc := pc\<rparr>) = pointers tc w" "pointers tc (w\<lparr>RUNNING := b\<rparr>) = pointers tc w"
  by (simp_all add: pointers_def)

definition took_turn :: "'c lib \<Rightarrow> int \<Rightarrow> nat \<Rightarrow> 'c world \<Rightarrow> 'c world \<Rightarrow> bool" where
  "took_turn lib tc p w v \<longleftrightarrow> main_pc v = main_pc w \<and> timer v = timer w \<and> \<not> RUNNING v \<and>
     (\<forall>j. pointers j v = pointers j w \<and> upcoming lib j v = upcoming lib j w) \<and> place_left (places v tc p) \<le> place_left (places w tc p) - 1 \<and>
     (\<forall>j q. 1 \<le> j \<and> j \<le> 4 \<and> (j, q) \<noteq> (tc, p) \<longrightarrow> places v j q = places w j q)"

lemma turn_taken:
  assumes "acts lib (TestThread tc p) w v" "\<not> RUNNING w"
  shows "took_turn lib tc p w v"
  using assms(1)
proof cases
  case (ip t e t' u)
  have u: "worker_effect w u" by (rule ipt.effect [OF ip(4)])
  have d: "steps_to_return (run_pc t') \<le> steps_to_return (run_pc t) - 1" "\<not> RUNNING u"
    using ipt.step_decreases [OF ip(4)] assms(2) by simp_all
  show ?thesis
    using d ip(3) worker_effect_kept(3,4) [OF u] worker_turn [OF u]
    by (auto simp: took_turn_def ip(1,2) places_def place_left_def fun_eq_iff split: if_splits)
next
  case (ping t e t' u)
  have u: "worker_effect w u" by (rule pg.effect [OF ping(4)])
  have d: "steps_to_return (run_pc t') \<le> steps_to_return (run_pc t) - 1" "\<not> RUNNING u"
    using pg.step_decreases [OF ping(4)] assms(2) by simp_all
  show ?thesis
    using d ping(3) worker_effect_kept(3,4) [OF u] worker_turn [OF u]
    by (auto simp: took_turn_def ping(1,2) places_def place_left_def fun_eq_iff split: if_splits)
next
  case (download t e t' u)
  have u: "worker_effect w u" by (rule dl.effect [OF download(4)])
  have d: "steps_to_return (run_pc t') \<le> steps_to_return (run_pc t) - 1" "\<not> RUNNING u"
    using dl.step_decreases [OF download(4)] assms(2) by simp_all
  show ?thesis
    using d download(3) worker_effect_kept(3,4) [OF u] worker_turn [OF u]
    by (auto simp: took_turn_def download(1,2) places_def place_left_def fun_eq_iff split: if_splits)
next
  case (upload t e t' u)
  have u: "worker_effect w u" by (rule ul.effect [OF upload(4)])
  have d: "steps_to_return (run_pc t') \<le> steps_to_return (run_pc t) - 1" "\<not> RUNNING u"
    using ul.step_decreases [OF upload(4)] assms(2) by simp_all
  show ?thesis
    using d upload(3) worker_effect_kept(3,4) [OF u] worker_turn [OF u]
    by (auto simp: took_turn_def upload(1,2) places_def place_left_def fun_eq_iff split: if_splits)
qed

definition progress :: "'c lib \<Rightarrow> actor \<Rightarrow> 'c world \<Rightarrow> 'c world \<Rightarrow> bool" where
  "progress lib a w v \<longleftrightarrow> \<not> RUNNING v \<and> left_to_do lib v \<le> left_to_do lib w \<and>
     (left_to_do lib v = left_to_do lib w \<longrightarrow> same_place w v) \<and> (helpful a w \<longrightarrow> left_to_do lib v < left_to_do lib w)"

lemma delete_threads_timer [simp]: "timer (delete_threads tc w) = timer w"
  by (simp add: delete_threads_def)

text \<open>A test case that starts all the same after a stop.\<close>

lemma begin_test_pointers:
  assumes "1 \<le> tc" "tc \<le> 4"
  shows "length (pointers tc (begin_test lib raw (\<lambda>_. True) provider tc w)) =
    (if tc = 1 \<or> tc = 2 then 1 else nat (conf_instances w))"
proof -
  have d: "ok \<and> length ps = n" if "spawn_downloads lib od (\<lambda>_. True) 0 n ([], u) = (ok, ps, v)"
    for od n u ok ps and v :: "'a world"
    using spawn_all(1) [of lib od 0 n "[]" u] spawn_downloads_result [of lib od "\<lambda>_. True" 0 n "[]" u] that by auto
  have u: "ok \<and> length ps = n" if "spawn_uploads lib ou (\<lambda>_. True) 0 n ([], u) = (ok, ps, v)"
    for ou n u ok ps and v :: "'a world"
    using spawn_all(2) [of lib ou 0 n "[]" u] spawn_uploads_result [of lib ou "\<lambda>_. True" 0 n "[]" u] that by auto
  consider "tc = 1" | "tc = 2" | "tc = 3" | "tc = 4" using assms by linarith
  then show ?thesis
    by cases (auto simp: begin_test_def pointers_def Let_def dest!: tls_overhead_of_frame d u split: prod.splits)
qed

lemma start_test_turn:
  assumes "1 \<le> tc" "tc \<le> 4" and v: "v = start_test lib raw (\<lambda>_. True) tc w"
  shows "main_pc v = MainThreads tc" "timer_pc (timer v) = TimerOuter" "RUNNING v = RUNNING w"
    "length (pointers tc v) = upcoming lib tc w"
proof -
  let ?w1 = "if tc = 4 then w\<lparr>randomDataValues_size := RANDOM_DATA_SIZE\<rparr> else w"
  let ?u = "?w1\<lparr>conf_nTestCase := tc, conf_sTestName := test_name tc, currentTestPhase := test_phase tc,
    syncing_threads := [], mTestCase := tc\<rparr>"
  let ?p = "if target lib = Desktop then ?u else callbackToPlatform lib ''started'' '''' 0 '''' ?u"
  have b: "v = begin_test lib raw (\<lambda>_. True) (conf_sProvider ?p) tc (CMeasurement_new lib ?p)"
    by (simp add: v start_test_def startTestCase_def Let_def)
  have f: "conf_sTestName (CMeasurement_new lib ?p) = test_name tc" "RUNNING (CMeasurement_new lib ?p) = RUNNING w"
    "timer_pc (timer (CMeasurement_new lib ?p)) = TimerOuter"
    by (simp_all add: CMeasurement_new_def CTimer_new_def callbackToPlatform_def Let_def)
  have i: "conf_instances (CMeasurement_new lib ?p) = test_instances lib (w\<lparr>conf_nTestCase := tc\<rparr>)"
    by (simp add: CMeasurement_new_def CTimer_new_def callbackToPlatform_def test_instances_def Let_def)
  have "main_pc v = MainThreads tc \<and> reachable_objects tc v \<and> begun_kept (CMeasurement_new lib ?p) v"
    by (rule begin_test_all [OF assms(1,2) f(1) b])
  then show "main_pc v = MainThreads tc" "timer_pc (timer v) = TimerOuter" "RUNNING v = RUNNING w"
    using f(2,3) by (simp_all add: begun_kept_def)
  show "length (pointers tc v) = upcoming lib tc w"
    unfolding b by (simp only: begin_test_pointers [OF assms(1,2)] upcoming_def i)
qed

lemma place_left_bound: "sum_list (map (\<lambda>p. place_left (places u tc p)) ps) \<le> 3 * length ps"
proof -
  have "place_left c \<le> 3" for c
    by (cases "case c of None \<Rightarrow> RunEntry | Some d \<Rightarrow> d") (auto simp: place_left_def split: option.splits)
  then show ?thesis
    using sum_list_mono [of ps "\<lambda>p. place_left (places u tc p)" "\<lambda>_. 3"] by (simp add: sum_list_triv)
qed

lemma progress_main:
  assumes "at_home w" "\<not> RUNNING w"
  shows "progress lib MainThread w (main_step lib raw (\<lambda>_. True) w)"
proof (cases "main_pc w")
  case (MainSelect tc)
  then have tc: "1 \<le> tc" "tc \<le> 5" using assms(1) by (simp_all add: at_home_def)
  have "\<not> take_test tc w" using assms(2) by (simp add: take_test_def)
  then have "main_step lib raw (\<lambda>_. True) w = (if tc = 5 then w\<lparr>currentTestPhase := END, main_pc := MainShutdown\<rparr>
      else w\<lparr>main_pc := MainSelect (tc + 1)\<rparr>)"
    using MainSelect tc by (simp add: main_step_def select_test_def)
  then show ?thesis
    using MainSelect tc assms(2) by (auto simp: progress_def left_to_do_def threads_left_def)
next
  case (MainPause tc)
  then have tc: "1 \<le> tc" "tc \<le> 4" using assms(1) by (simp_all add: at_home_def)
  let ?v = "main_step lib raw (\<lambda>_. True) w"
  have "?v = start_test lib raw (\<lambda>_. True) tc w" using MainPause by (simp add: main_step_def)
  note s = start_test_turn [OF tc this]
  have "left_to_do lib ?v < left_to_do lib w"
    using place_left_bound [of ?v tc "pointers tc ?v"] s MainPause by (simp add: left_to_do_def threads_left_def)
  then show ?thesis using s(3) assms(2) by (simp add: progress_def)
next
  case (MainThreads tc)
  then have "main_step lib raw (\<lambda>_. True) w = (if threads_ended tc w then w\<lparr>main_pc := MainPoll tc\<rparr> else w)"
    by (simp add: main_step_def measurement_step_def)
  then show ?thesis
    using MainThreads assms(2) by (auto simp: progress_def left_to_do_def threads_left_def helpful_def)
next
  case (MainPoll tc)
  then have "main_step lib raw (\<lambda>_. True) w = delete_threads tc (w\<lparr>main_pc := MainTimer tc\<rparr>)"
    using assms(2) by (simp add: main_step_def measurement_step_def)
  then show ?thesis
    using MainPoll assms(2) by (simp add: progress_def left_to_do_def threads_left_def)
next
  case (MainTimer tc)
  then have "main_step lib raw (\<lambda>_. True) w =
      (if timer_pc (timer w) = TimerDone then w\<lparr>main_pc := MainSelect (tc + 1)\<rparr> else w)"
    by (simp add: main_step_def measurement_step_def)
  then show ?thesis
    using MainTimer assms(2) by (auto simp: progress_def left_to_do_def threads_left_def helpful_def)
next
  case MainShutdown
  then show ?thesis
    by (simp add: progress_def left_to_do_def threads_left_def main_step_def final_shutdown_def shutdown_def Let_def)
qed (use assms in \<open>simp_all add: progress_def main_step_def helpful_def\<close>)

lemma progress_timer:
  assumes "timer_step lib w = Inr v" "\<not> RUNNING w" "at_home w"
  shows "progress lib TimerThread w v"
proof -
  have r: "\<not> RUNNING v" using timer_step_monotone(1) [OF assms(1)] assms(2) by simp
  have pc: "main_pc v = main_pc w" and k: "scene v = scene w"
    using timer_step_kept [OF assms(1)] by (auto simp: quiet_def kept_def)
  note p = timer_step_places [OF assms(1)] and q = scene_pointers [OF k]
  have "v = w" if "main_pc w = MainPause tc" for tc
    using assms(1,3) that by (simp add: at_home_def timer_step_def)
  then have t: "threads_left lib v = threads_left lib w" by (auto simp: threads_left_def pc p q split: main_pc.split)
  have "\<not> loop_condition w" using assms(2) by (simp add: loop_condition_def)
  then have s: "steps_left (timer_pc (timer v)) \<le> steps_left (timer_pc (timer w)) - 1"
    using steps_left_decrease [OF assms(1)] by simp
  have z: "steps_left c = 0 \<longleftrightarrow> c = TimerDone" for c by (cases c) simp_all
  have "same_place w v" if "left_to_do lib v = left_to_do lib w"
  proof -
    have "steps_left (timer_pc (timer v)) = steps_left (timer_pc (timer w))"
      using that by (simp add: left_to_do_def pc t)
    then have "timer_pc (timer w) = TimerDone" "timer_pc (timer v) = TimerDone" using s z by fastforce+
    then show ?thesis by (simp add: same_place_def pc p q)
  qed
  moreover have "left_to_do lib v < left_to_do lib w" if "helpful TimerThread w"
  proof -
    have "timer_pc (timer w) \<noteq> TimerDone" using that by (auto simp: helpful_def split: main_pc.splits if_splits)
    then have "0 < steps_left (timer_pc (timer w))" using z by blast
    then show ?thesis using s by (simp add: left_to_do_def pc t)
  qed
  ultimately show ?thesis using r s by (simp add: progress_def left_to_do_def pc t)
qed

lemma progress_thread:
  assumes "acts lib (TestThread tc p) w v" "\<not> RUNNING w" "at_home w"
  shows "progress lib (TestThread tc p) w v"
proof -
  have t: "took_turn lib tc p w v" by (rule turn_taken [OF assms(1,2)])
  note u = t [unfolded took_turn_def]
  show ?thesis
  proof (cases "\<exists>j. main_pc w = MainThreads j")
    case True
    then obtain j where j: "main_pc w = MainThreads j" by blast
    have jr: "1 \<le> j" "j \<le> 4" using assms(3) by (simp_all add: at_home_def j)
    let ?f = "\<lambda>q. place_left (places v j q)" and ?g = "\<lambda>q. place_left (places w j q)"
    let ?ps = "pointers j w"
    have le: "?f q \<le> ?g q" for q using u jr by (cases "(j, q) = (tc, p)") (auto simp: le_diff_conv)
    have l: "left_to_do lib v = main_left (main_pc w) + steps_left (timer_pc (timer w)) + sum_list (map ?f ?ps)"
      "left_to_do lib w = main_left (main_pc w) + steps_left (timer_pc (timer w)) + sum_list (map ?g ?ps)"
      using u by (simp_all add: left_to_do_def threads_left_def j)
    have all: "\<forall>q\<in>set ?ps. ?f q \<le> ?g q" using le by blast
    have ml: "left_to_do lib v \<le> left_to_do lib w" using sum_list_less(1) [OF all] by (simp add: l)
    have "same_place w v" if "left_to_do lib v = left_to_do lib w"
    proof -
      have "?f q = ?g q" if "q \<in> set ?ps" for q
        using sum_list_less(2) [OF all that] le [of q] \<open>left_to_do lib v = left_to_do lib w\<close> unfolding l by linarith
      then show ?thesis using u by (simp add: same_place_def j has_returned_left)
    qed
    moreover have "left_to_do lib v < left_to_do lib w" if "helpful (TestThread tc p) w"
    proof -
      have h: "tc = j" "p \<in> set ?ps" "\<not> has_returned (places w j p)"
        using that by (auto simp: helpful_def j split: if_splits)
      then have "?f p < ?g p" using u by (auto simp: has_returned_left)
      then show ?thesis using sum_list_less(2) [OF all h(2)] by (simp add: l)
    qed
    ultimately show ?thesis using u ml by (simp add: progress_def)
  next
    case False
    then have "\<not> helpful (TestThread tc p) w"
      by (auto simp: helpful_def split: main_pc.splits if_splits)
    moreover have "threads_left lib v = threads_left lib w" using False u by (auto simp: threads_left_def split: main_pc.splits)
    moreover have "same_place w v" using False u by (simp add: same_place_def)
    ultimately show ?thesis using u by (simp add: progress_def left_to_do_def)
  qed
qed

lemma acts_progress:
  assumes "acts lib a w v" "\<not> RUNNING w" "at_home w"
  shows "progress lib a w v"
  using assms(1)
proof cases
  case (main raw)
  then show ?thesis using progress_main [OF assms(3,2)] by simp
next
  case timer
  then show ?thesis using progress_timer [OF _ assms(2,3)] by simp
qed (use progress_thread [OF _ assms(2,3)] assms(1) in blast)+

section \<open>Fair runs\<close>

text \<open>
  The steps of a list of actors, one after the other; and runs of rounds in which everybody gets a turn
  who is helpful at the beginning of the round, whoever else acts in between.
\<close>

inductive turns :: "'c lib \<Rightarrow> actor list \<Rightarrow> 'c world \<Rightarrow> 'c world \<Rightarrow> bool" for lib where
  none: "turns lib [] w w"
| turn: "acts lib a w u \<Longrightarrow> turns lib as u v \<Longrightarrow> turns lib (a # as) w v"

inductive fair_run :: "'c lib \<Rightarrow> nat \<Rightarrow> 'c world \<Rightarrow> 'c world \<Rightarrow> bool" for lib where
  start: "fair_run lib 0 w w"
| round: "turns lib as w u \<Longrightarrow> {a. helpful a w} \<subseteq> set as \<Longrightarrow> fair_run lib n u v \<Longrightarrow> fair_run lib (Suc n) w v"

lemma turns_progress:
  assumes "turns lib as w v" "\<not> RUNNING w" "at_home w"
  shows "\<not> RUNNING v \<and> at_home v \<and> left_to_do lib v \<le> left_to_do lib w \<and>
    (\<forall>a\<in>set as. helpful a w \<longrightarrow> left_to_do lib v < left_to_do lib w)"
  using assms
proof (induction rule: turns.induct)
  case (turn a w u as v)
  have p: "progress lib a w u" by (rule acts_progress [OF turn.hyps(1) turn.prems])
  have h: "at_home u" by (rule at_home_step [OF acts_system [OF turn.hyps(1)] turn.prems(2)])
  have i: "\<not> RUNNING v" "at_home v" "left_to_do lib v \<le> left_to_do lib u"
    "\<forall>b\<in>set as. helpful b u \<longrightarrow> left_to_do lib v < left_to_do lib u"
    using turn.IH p h by (simp_all add: progress_def)
  have "left_to_do lib v < left_to_do lib w" if b: "b \<in> set (a # as)" "helpful b w" for b
  proof (cases "left_to_do lib u = left_to_do lib w")
    case True
    then have s: "same_place w u" "\<not> helpful a w" using p by (auto simp: progress_def)
    then have "b \<in> set as" "helpful b u" using b same_place_helpful [OF s(1)] by auto
    then show ?thesis using bspec [OF i(4)] True by simp
  next
    case False
    then show ?thesis using p i(3) by (simp add: progress_def)
  qed
  then show ?case using i p by (auto simp: progress_def)
qed simp

definition ended :: "'c world \<Rightarrow> bool" where
  "ended w \<longleftrightarrow> main_pc w = MainReturned \<or> exited w"

lemma ended_turns: "turns lib as w v \<Longrightarrow> ended w \<Longrightarrow> ended v"
proof (induction rule: turns.induct)
  case (turn a w u as v)
  from acts_system [OF turn.hyps(1)] have "ended u"
  proof cases
    case (main raw)
    then show ?thesis using turn.prems by (auto simp: ended_def exited_def main_step_def split: main_pc.splits)
  next
    case timer
    have "main_pc u = main_pc w" using timer_step_kept [OF timer] by (auto simp: quiet_def)
    then show ?thesis using turn.prems by (simp add: ended_def exited_def)
  next
    case threads
    then show ?thesis using threads_step_kept [OF threads] turn.prems by (auto simp: ended_def exited_def)
  qed
  then show ?case by (rule turn.IH)
qed simp

lemma ended_fair_run: "fair_run lib n w v \<Longrightarrow> ended w \<Longrightarrow> ended v"
  by (induction rule: fair_run.induct) (blast dest: ended_turns)+

lemma fair_run_progress:
  assumes "fair_run lib n w v" "\<not> RUNNING w" "at_home w"
  shows "at_home v \<and> (ended v \<or> left_to_do lib v + n \<le> left_to_do lib w)"
  using assms
proof (induction rule: fair_run.induct)
  case (round as w u n v)
  note t = turns_progress [OF round.hyps(1) round.prems]
  then have i: "at_home v" "ended v \<or> left_to_do lib v + n \<le> left_to_do lib u" using round.IH by simp_all
  show ?case
  proof (cases "ended w")
    case True
    then show ?thesis using i(1) ended_turns [OF round.hyps(1)] ended_fair_run [OF round.hyps(3)] by blast
  next
    case False
    then have "\<exists>a. helpful a w" using helpful_exists [of w] by (auto simp: ended_def)
    then have "left_to_do lib u < left_to_do lib w" using t round.hyps(2) by blast
    then show ?thesis using i by linarith
  qed
qed simp

lemma left_to_do_ended: "at_home w \<Longrightarrow> left_to_do lib w = 0 \<Longrightarrow> ended w"
  by (cases "main_pc w") (auto simp: left_to_do_def ended_def exited_def)

text \<open>C5: Once \<open>RUNNING\<close> is cleared at any time in a measurement, the main thread is at its end after at
  most twelve fair rounds and three more per stream it waits for, or is about to start for a test
  case it has already selected: rounds in which each thread that
  the main thread waits for, or else the main thread itself, gets a turn, in any order and with
  anything in between. Thread creation succeeds in the run.\<close>

theorem stop_ends:
  assumes "measurement_init lib cfg rnd text w0 = Inr w" "timer_pc (timer w0) = TimerDone" "system_run lib w u"
    and "\<not> RUNNING u" "fair_run lib n u v"
    and "12 + 3 * awaited lib u \<le> n"
  shows "main_pc v = MainReturned \<or> exited v"
proof -
  have "main_pc w = MainSelect 1 \<or> exited w" "timer_pc (timer w) = TimerDone"
    using init_fresh(1) [OF assms(1,2)] by (simp_all add: fresh_start_def)
  then have "at_home w" by (auto simp: at_home_def exited_def split: main_pc.splits)
  then have h: "at_home u" by (rule at_home_run [OF assms(3)])
  have t: "steps_left c \<le> 4" for c by (cases c) simp_all
  have "left_to_do lib u \<le> 12 + 3 * awaited lib u"
  proof (cases "main_pc u")
    case (MainThreads tc)
    then have "main_left (main_pc u) \<le> 8" "threads_left lib u \<le> 3 * awaited lib u"
      using h place_left_bound by (simp_all add: at_home_def threads_left_def awaited_def nat_le_iff)
    then show ?thesis using t [of "timer_pc (timer u)"] unfolding left_to_do_def by linarith
  next
    case (MainPause tc)
    then have "main_left (main_pc u) \<le> 9" "timer_pc (timer u) = TimerDone" "threads_left lib u = 2 + 3 * awaited lib u"
      using h by (simp_all add: at_home_def threads_left_def awaited_def nat_le_iff)
    then show ?thesis by (simp add: left_to_do_def)
  qed (use h t [of "timer_pc (timer u)"] in \<open>auto simp: left_to_do_def threads_left_def at_home_def nat_le_iff\<close>)
  then have "left_to_do lib u \<le> n" using assms(6) by linarith
  then have "ended v \<or> left_to_do lib v = 0" "at_home v" using fair_run_progress [OF assms(5,4) h] by auto
  then show ?thesis using left_to_do_ended by (auto simp: ended_def)
qed

section \<open>Witness\<close>

lemma idle_rounds: "ended w \<Longrightarrow> fair_run lib n w w"
proof (induction n)
  case (Suc n)
  then have "\<not> helpful a w" for a
    by (auto simp: ended_def exited_def helpful_def split: main_pc.splits)
  then show ?case using Suc fair_run.round [OF turns.none, of w lib n w] by simp
qed (rule fair_run.start)

lemma main_round:
  assumes "fair_run lib n (main_step lib raw (\<lambda>_. True) w) v" "\<And>a. helpful a w \<Longrightarrow> a = MainThread"
  shows "fair_run lib (Suc n) w v"
  by (rule fair_run.round [OF turns.turn [OF acts.main turns.none] _ assms(1)]) (use assms(2) in auto)

lemma stopped_select:
  assumes "main_pc w = MainSelect tc" "1 \<le> tc" "tc \<le> 4" "\<not> RUNNING w"
  shows "main_step lib raw creates w = w\<lparr>main_pc := MainSelect (tc + 1)\<rparr>"
  using assms by (simp add: main_step_def select_test_def take_test_def)

lemma shutdown_returns:
  assumes "main_pc w = MainShutdown" "target lib \<noteq> Desktop"
  shows "\<exists>v. fair_run lib (Suc n) w v \<and> main_pc v = MainReturned"
proof -
  let ?v = "main_step lib raws0 (\<lambda>_. True) w"
  have v: "main_pc ?v = MainReturned" using assms by (simp add: main_step_def final_shutdown_def shutdown_def)
  have "fair_run lib n ?v ?v" by (rule idle_rounds) (simp add: ended_def v)
  then have "fair_run lib (Suc n) w ?v" by (rule main_round) (simp add: helpful_def assms(1))
  then show ?thesis using v by blast
qed

lemma select_returns:
  assumes "main_pc w = MainSelect (5 - int k)" "k \<le> 4" "\<not> RUNNING w" "target lib \<noteq> Desktop"
  shows "\<exists>v. fair_run lib (k + Suc (Suc n)) w v \<and> main_pc v = MainReturned"
  using assms
proof (induction k arbitrary: w)
  case 0
  let ?w = "main_step lib raws0 (\<lambda>_. True) w"
  have "main_pc ?w = MainShutdown" using 0 by (simp add: main_step_def select_test_def)
  then obtain v where "fair_run lib (Suc n) ?w v" "main_pc v = MainReturned" using shutdown_returns 0(4) by blast
  then show ?case using main_round [of lib "Suc n" raws0 w v] 0(1) by (auto simp: helpful_def)
next
  case (Suc k)
  let ?w = "main_step lib raws0 (\<lambda>_. True) w"
  have "?w = w\<lparr>main_pc := MainSelect (5 - int (Suc k) + 1)\<rparr>"
    using Suc.prems by (intro stopped_select) simp_all
  then have "main_pc ?w = MainSelect (5 - int k)" "\<not> RUNNING ?w" using Suc.prems(3) by simp_all
  then obtain v where "fair_run lib (k + Suc (Suc n)) ?w v" "main_pc v = MainReturned"
    using Suc.IH [of ?w] Suc.prems(2,4) by auto
  then show ?case using main_round [of lib "k + Suc (Suc n)" raws0 w v] Suc.prems(1) by (auto simp: helpful_def)
qed

text \<open>A stop before the first test case.\<close>

lemma stop_ends_witness:
  "\<exists>v. fair_run ip_lib 12 (measurementStop ip_lib ip_start) v \<and> main_pc v = MainReturned"
proof -
  let ?u = "measurementStop ip_lib ip_start"
  have pc: "main_pc ?u = MainSelect 1" "\<not> RUNNING ?u"
    by (simp_all add: measurementStop_def shutdown_def ip_start_def init_simps)
  obtain v where v: "fair_run ip_lib (4 + Suc (Suc 6)) ?u v" "main_pc v = MainReturned"
    using select_returns [of ?u 4 ip_lib 6] pc by auto
  have r: "fair_run ip_lib 12 ?u v" using v(1) by simp
  have "system_run ip_lib ip_start ?u"
    by (rule system_run.step [OF system_run.refl system_step.threads [OF threads_step.stop]])
  from stop_ends [OF ip_init(1,2) this pc(2) r] show ?thesis using r v(2) pc(1) by (auto simp: awaited_def)
qed

end
