(* ===== verification/Counts.thy ===== *)
theory Counts
  imports Evaluation Download
begin

text \<open>
  From the packets of a download to its message: what the streams count (\<open>Download\<close>) is what the
  evaluation publishes (\<open>Results\<close>, \<open>Evaluation\<close>), half second by half second.
\<close>

section \<open>One stream\<close>

text \<open>The bits of the packets that a stream counts in half second \<open>k\<close>.\<close>

definition slot_bits :: "int \<Rightarrow> int \<Rightarrow> (rx_env \<times> 'a globals_scheme) list \<Rightarrow> u64" where
  "slot_bits overhead k rxs = sum_bits overhead (filter (\<lambda>(rx, g). accepted rx \<and> counted g \<and> TIMER_INDEX g = k) rxs)"

lemma packets_fill_slot:
  assumes "imap_inv (results (mDownload d))"
  shows "imap_at (results (mDownload (download_packets rxs d))) k =
    imap_at (results (mDownload d)) k + slot_bits (mTlsOverhead d) k rxs"
  using assms
proof (induction rxs arbitrary: d)
  case Nil
  then show ?case by (simp add: download_packets_def slot_bits_def sum_bits_def)
next
  case (Cons r rxs)
  obtain rx g where r: "r = (rx, g)" by (cases r)
  let ?d = "fst (download_receive rx d g)"
  have b: "u64 (packet_bits rx d) = bits_of (mTlsOverhead d) rx"
    by (simp add: packet_bits_def bits_of_def)
  have c: "counted (first_receive d g) = counted g" by (simp add: counted_def)
  have "imap_inv (results (mDownload ?d))"
    using Cons.prems by (simp add: download_receive_data count_packet_data imap_add_inv)
  note ih = Cons.IH [OF this]
  have "imap_at (results (mDownload ?d)) k = imap_at (results (mDownload d)) k +
      (if accepted rx \<and> counted g \<and> TIMER_INDEX g = k then bits_of (mTlsOverhead d) rx else 0)"
    using Cons.prems by (simp add: download_receive_data count_packet_data b c imap_at_add)
  moreover have "download_packets ((rx, g) # rxs) d = download_packets rxs ?d"
    by (simp add: download_packets_def)
  ultimately show ?case
    using ih by (simp add: r download_receive_data(2) slot_bits_def sum_bits_def add.assoc)
qed

text \<open>A prepared stream has exactly the slots of its measurement.\<close>

definition exact_slots :: "u64 \<Rightarrow> imap \<Rightarrow> bool" where
  "exact_slots duration m \<longleftrightarrow> imap_inv m \<and> dom (map_of m) = {0..2 * uint duration}"

text \<open>Position and key in a map whose keys are known.\<close>

lemma imap_position:
  assumes "imap_inv m" "sorted_wrt (<) ks" "set ks = dom (map_of m)" "j < length ks"
  shows "j < length (map snd m)" "map snd m ! j = imap_at m (ks ! j)"
proof -
  have s: "sorted_wrt (<) (map fst m)" using assms(1) by (simp add: imap_inv_def)
  then have d: "distinct (map fst m)" by (simp add: strict_sorted_iff)
  have "map fst m = ks"
    by (rule sorted_distinct_set_unique)
      (use s assms(2,3) in \<open>simp_all add: strict_sorted_iff dom_map_of_conv_image_fst\<close>)
  then have j: "j < length m" "fst (m ! j) = ks ! j" using assms(4) by auto
  show "j < length (map snd m)" using j(1) by simp
  have "(ks ! j, snd (m ! j)) \<in> set m" using j by (metis nth_mem prod.collapse)
  then have "map_of m (ks ! j) = Some (snd (m ! j))" using d by simp
  then show "map snd m ! j = imap_at m (ks ! j)" using j(1) by (simp add: imap_at_def)
qed

lemma exact_slots_nth:
  assumes "exact_slots duration m" "j \<le> nat (2 * uint duration)"
  shows "j < length (map snd m)" "map snd m ! j = imap_at m (int j)"
proof -
  have z: "0 \<le> uint duration" by simp
  let ?ks = "[0..2 * uint duration]"
  have k: "imap_inv m" "set ?ks = dom (map_of m)" "sorted_wrt (<) ?ks"
    using assms(1) by (simp_all add: exact_slots_def strict_sorted_iff)
  have "j < length ?ks" unfolding length_upto using assms(2) z by linarith
  moreover have "?ks ! j = int j" by (subst nth_upto) (use assms(2) z in linarith)+
  ultimately show "j < length (map snd m)" "map snd m ! j = imap_at m (int j)"
    using imap_position [OF k(1,3,2)] by auto
qed

lemma packets_keep_exact:
  assumes "exact_slots duration (results (mDownload d))"
    and "\<forall>(rx, g)\<in>set rxs. 0 \<le> TIMER_INDEX g \<and> TIMER_INDEX g \<le> 2 * uint duration"
  shows "exact_slots duration (results (mDownload (download_packets rxs d)))"
  using assms
proof (induction rxs arbitrary: d)
  case (Cons r rxs)
  obtain rx g where r: "r = (rx, g)" by (cases r)
  have "exact_slots duration (results (mDownload (fst (download_receive rx d g))))"
    using Cons.prems by (auto simp: r exact_slots_def download_receive_data count_packet_data imap_add_inv
        imap_add_def im.get_put im.inv_put dom_def split: if_splits)
  moreover have "download_packets ((rx, g) # rxs) d = download_packets rxs (fst (download_receive rx d g))"
    by (simp add: download_packets_def)
  ultimately show ?case using Cons r by simp
qed (simp add: download_packets_def)

section \<open>From the packets to the message\<close>

text \<open>
  \<open>received_by lib rxs w p\<close>: the stream at \<open>p\<close> got through its set-up and has received \<open>rxs\<close> since,
  each packet at a half second of the measurement.
\<close>

definition received_by :: "'c lib \<Rightarrow> (rx_env \<times> 'b globals_scheme) list \<Rightarrow> 'c world \<Rightarrow> nat \<Rightarrow> bool" where
  "received_by lib rxs w p \<longleftrightarrow> (\<exists>d t e w0 d0 w1. dl_heap w p = Some d \<and>
     download_setup lib e t w0 = Inr (d0, w1) \<and> run_pc d0 = RunGuard \<and> results (mDownload t) = [] \<and>
     MEASUREMENT_DURATION w0 = MEASUREMENT_DURATION w \<and>
     mDownload d = mDownload (download_packets rxs d0) \<and> mTlsOverhead d = mTlsOverhead d0) \<and>
   (\<forall>(rx, g)\<in>set rxs. 0 \<le> TIMER_INDEX g \<and> TIMER_INDEX g \<le> 2 * uint (MEASUREMENT_DURATION w))"

definition overhead_at :: "'c world \<Rightarrow> nat \<Rightarrow> int" where
  "overhead_at w p = (case dl_heap w p of None \<Rightarrow> 0 | Some d \<Rightarrow> mTlsOverhead d)"

lemma received_slots:
  assumes "received_by lib rxs w p" "uint (MEASUREMENT_DURATION w) < 536870912"
    and "j \<le> nat (2 * uint (MEASUREMENT_DURATION w))" "conf_sTestName w = ''download''"
  shows "distinct_of w (int j + 1) p = slot_bits (overhead_at w p) (int j) rxs div 8"
proof -
  obtain d t e w0 d0 w1 where d: "dl_heap w p = Some d" "download_setup lib e t w0 = Inr (d0, w1)"
    "run_pc d0 = RunGuard" "results (mDownload t) = []" "MEASUREMENT_DURATION w0 = MEASUREMENT_DURATION w"
    "mDownload d = mDownload (download_packets rxs d0)" "mTlsOverhead d = mTlsOverhead d0"
    and i: "\<forall>(rx, g)\<in>set rxs. 0 \<le> TIMER_INDEX g \<and> TIMER_INDEX g \<le> 2 * uint (MEASUREMENT_DURATION w)"
    using assms(1) unfolding received_by_def by blast
  have z: "imap_inv (results (mDownload d0))" "\<forall>k. map_of (results (mDownload d0)) k =
      (if 0 \<le> k \<and> k \<le> 2 * uint (MEASUREMENT_DURATION w) then Some 0 else None)"
    using download_setup_prepares [of w0 t lib e] assms(2) d(2-5) by (auto simp: prepared_def)
  then have "exact_slots (MEASUREMENT_DURATION w) (results (mDownload d0))"
    by (auto simp: exact_slots_def dom_def split: if_splits)
  from packets_keep_exact [OF this i]
  have x: "exact_slots (MEASUREMENT_DURATION w) (results (mDownload d))" by (simp add: d(6))
  have "imap_at (results (mDownload d0)) k = 0" for k using z(2) by (simp add: imap_at_def)
  then have a: "imap_at (results (mDownload d)) (int j) = slot_bits (mTlsOverhead d) (int j) rxs"
    using packets_fill_slot [OF z(1), of rxs "int j"] by (simp add: d(6,7))
  have "slots_of w p = map snd (results (mDownload d))"
    by (simp add: slots_of_def stream_view_def assms(4) d(1) kept_slots_def case_prod_beta)
  then show ?thesis
    using exact_slots_nth [OF x assms(3)] a by (simp add: distinct_of_def slot_bytes_def overhead_at_def d(1))
qed

text \<open>C2: From the packets to the message: when every stream of a download got through its set-up, an
  evaluation publishes one object per half second, and its \<open>bytes_distinct\<close> is the sum over the
  streams of the bytes of exactly the packets they received in that half second while the timer ran
  without error, TLS overhead included (each stream's bits modulo \<open>2^64\<close>, divided by eight).\<close>

theorem packets_published:
  assumes "conf_sTestName w = ''download''" "1 \<le> max_steps_of w" "all_readable w (max_steps_of w) ps" "avg_fits lib"
    and "0 \<le> TIMER_DURATION w" "TIMER_DURATION w < 2147483648" "uint (MEASUREMENT_DURATION w) < 536870912"
    and "\<forall>p\<in>set ps. received_by lib (rxs p) w p"
  shows "\<exists>v. calculateMeasurementResultsDownloadUpload lib cmd ps w = Inr v \<and>
      length (published v) = nat (max_steps_of w) \<and>
      (\<forall>j < nat (max_steps_of w). string_value (json_at (published v ! j) ''bytes_distinct'') =
         to_string_u64 (sum_list (map (\<lambda>p. slot_bits (overhead_at w p) (int j) (rxs p) div 8) ps)))"
proof -
  have sp: "speed_test w" using assms(1) by (simp add: speed_test_def)
  have "max_steps_of w \<le> 2 * uint (MEASUREMENT_DURATION w)"
    using reported_half_seconds [OF sp assms(5,6)] assms(1,7) by (simp add: step_seconds_def)
  then have b: "j \<le> nat (2 * uint (MEASUREMENT_DURATION w))" if "j < nat (max_steps_of w)" for j
    using that by linarith
  have m: "sum_list (map (distinct_of w (int j + 1)) ps) =
      sum_list (map (\<lambda>p. slot_bits (overhead_at w p) (int j) (rxs p) div 8) ps)"
    if "j < nat (max_steps_of w)" for j
    by (rule arg_cong [where f = sum_list], rule map_cong [OF refl])
      (use received_slots [OF _ assms(7) b [OF that] assms(1)] assms(8) in blast)
  obtain v where v: "calculateMeasurementResultsDownloadUpload lib cmd ps w = Inr v"
    "length (published v) = nat (max_steps_of w)"
    "\<forall>j < nat (max_steps_of w). string_value (json_at (published v ! j) ''bytes_distinct'') =
       to_string_u64 (sum_list (map (distinct_of w (int j + 1)) ps))"
    using evaluation_publishes [OF sp assms(2-4), of cmd] by blast
  show ?thesis
    by (rule exI [of _ v]) (simp add: v m)
qed

section \<open>Witness\<close>

text \<open>A stream that has received 100 bytes in the first half second and 20 in the second.\<close>

definition packet :: "int \<Rightarrow> int \<Rightarrow> rx_env \<times> unit world" where
  "packet n k = (\<lparr>rx_ret = n, rx_tls_records = 0, rx_buffer = ''''\<rparr>,
     world0\<lparr>TIMER_RUNNING := True, TIMER_INDEX := k\<rparr>)"

definition set_up_stream :: download where
  "set_up_stream = (case download_setup (lib0 Ios) conn0 download0 (world0\<lparr>MEASUREMENT_DURATION := 1\<rparr>) of
     Inl f \<Rightarrow> download0 | Inr (d, w) \<Rightarrow> d)"

lemma three_slots: "fill_zero 1 2 0 [] = Inr [(0, 0), (1, 0), (2, 0)]"
proof -
  have "fill_zero 1 2 3 m = Inr m" for m by (simp add: fill_zero.simps [of 1 2 3] u64_def)
  then have "fill_zero 1 2 2 [(0, 0), (1, 0)] = Inr [(0, 0), (1, 0), (2, 0)]"
    by (simp add: fill_zero.simps [of 1 2 2] u64_def)
  then have "fill_zero 1 2 1 [(0, 0)] = Inr [(0, 0), (1, 0), (2, 0)]"
    by (simp add: fill_zero.simps [of 1 2 1] u64_def)
  then show ?thesis by (simp add: fill_zero.simps [of 1 2 0] u64_def)
qed

lemma set_up_stream:
  "\<exists>w. download_setup (lib0 Ios) conn0 download0 (world0\<lparr>MEASUREMENT_DURATION := 1\<rparr>) = Inr (set_up_stream, w)"
  "run_pc set_up_stream = RunGuard" "mTlsOverhead set_up_stream = mTlsOverhead download0"
  "results (mDownload set_up_stream) = [(0, 0), (1, 0), (2, 0)]" "datasize_slow_start (mDownload set_up_stream) = 0"
  "datasize_total (mDownload set_up_stream) = 0"
  by (simp_all add: set_up_stream_def download_setup_def connect_stream_def resolved_def conn0_def
      get_timestamp_def sync_mark_def three_slots sample_threads data0_def Let_def)

definition two_packets :: "(rx_env \<times> unit world) list" where
  "two_packets = [packet 100 0, packet 20 1]"

definition counted_world :: "unit world" where
  "counted_world = eval_world\<lparr>MEASUREMENT_DURATION := 1, dl_heap := [3 \<mapsto> download0\<lparr>
     measurementTimeStart := 1000000, mResponse := 8,
     mDownload := mDownload (download_packets two_packets set_up_stream)\<rparr>]\<rparr>"

lemma counted_data:
  "results (mDownload (download_packets two_packets set_up_stream)) = [(0, 800), (1, 160), (2, 0)]"
  "datasize_slow_start (mDownload (download_packets two_packets set_up_stream)) = 0"
  by (simp_all add: two_packets_def packet_def download_packets_def download_receive_data count_packet_def
      accepted_def packet_bits_def set_up_stream imap_add_def imap_at_def i32_def u64_def Let_def)

lemma counted_world_facts:
  "conf_sTestName counted_world = ''download''" "TIMER_DURATION counted_world = 1200000"
  "MEASUREMENT_DURATION counted_world = 1" "TIMESTAMP_MEASUREMENT_START counted_world = 0"
  "clock counted_world n = 5000000" "max_steps_of counted_world = 2" "slots_of counted_world 3 = [800, 160, 0]"
  "stream_view counted_world 3 = Some (mDownload (download_packets two_packets set_up_stream), 1000000, 8)"
proof -
  show s: "conf_sTestName counted_world = ''download''" "TIMER_DURATION counted_world = 1200000"
    "MEASUREMENT_DURATION counted_world = 1" "TIMESTAMP_MEASUREMENT_START counted_world = 0"
    "clock counted_world n = 5000000"
    by (simp_all add: counted_world_def eval_world_def)
  show "max_steps_of counted_world = 2"
    using reported_half_seconds [of counted_world] by (simp add: s speed_test_def step_seconds_def)
  show v: "stream_view counted_world 3 = Some (mDownload (download_packets two_packets set_up_stream), 1000000, 8)"
    by (simp add: stream_view_def s) (simp add: counted_world_def)
  show "slots_of counted_world 3 = [800, 160, 0]"
    by (simp add: slots_of_def v s kept_slots_def counted_data)
qed

lemma packets_published_witness:
  "\<exists>v. calculateMeasurementResultsDownloadUpload (lib0 Ios) ''report'' [3] counted_world = Inr v \<and>
     string_value (json_at (published v ! 0) ''bytes_distinct'') = to_string_u64 100 \<and>
     string_value (json_at (published v ! 1) ''bytes_distinct'') = to_string_u64 20"
proof -
  note f = counted_world_facts
  have "stream_readable counted_world 2 step (clock counted_world n) 3" if "1 \<le> step" "step \<le> 2" for step n
    using stream_reads [OF f(8) that, of 5000000] by (simp add: f counted_data)
  then have r: "all_readable counted_world (max_steps_of counted_world) [3]"
    by (simp add: all_readable_def f(6))
  have avg: "avg_fits (lib0 Ios)" by (simp add: avg_fits_def)
  have t: "results (mDownload download0) = []" by (simp add: sample_threads data0_def)
  have i: "\<forall>(rx, g)\<in>set two_packets. 0 \<le> TIMER_INDEX g \<and> TIMER_INDEX g \<le> 2 * uint (MEASUREMENT_DURATION counted_world)"
    by (simp add: two_packets_def packet_def f)
  obtain d where d: "dl_heap counted_world 3 = Some d" "mDownload d = mDownload (download_packets two_packets set_up_stream)"
    "mTlsOverhead d = mTlsOverhead set_up_stream" by (simp add: counted_world_def set_up_stream)
  have "MEASUREMENT_DURATION (world0\<lparr>MEASUREMENT_DURATION := 1\<rparr>) = MEASUREMENT_DURATION counted_world"
    by (simp add: f)
  then have "received_by (lib0 Ios) two_packets counted_world 3"
    unfolding received_by_def using d set_up_stream(1,2) t i by blast
  then have rb: "\<forall>p\<in>set [3]. received_by (lib0 Ios) ((\<lambda>_. two_packets) p) counted_world p" by simp
  have "slot_bits (overhead_at counted_world 3) 0 two_packets = 800" "slot_bits (overhead_at counted_world 3) 1 two_packets = 160"
    by (simp_all add: slot_bits_def two_packets_def packet_def sum_bits_def bits_of_def accepted_def counted_def
        i32_def u64_def)
  then show ?thesis
    using packets_published [OF f(1) _ r avg _ _ _ rb, of "''report''"] by (fastforce simp: f)
qed

end
