(* ===== verification/Reports.thy ===== *)
theory Reports
  imports Counts Upload
begin

text \<open>
  From the reports of the server to the message of an upload, the counterpart of \<open>Counts\<close>: a
  report line for the measurement's first slot lays out a stream's slots, later lines add to
  them, and the evaluation reads the slots by position. \<open>reports_published\<close> says when position
  and half second agree; \<open>missed_first_slot\<close> that they do not for a stream without a report
  for the first slot.
\<close>

section \<open>The lines of a report\<close>

definition reported :: "'c lib \<Rightarrow> (rx_env \<times> 'a) list \<Rightarrow> string list" where
  "reported lib rxs = concat (map (\<lambda>(rx, g). report_lines lib rx) rxs)"

definition line_time :: "'c lib \<Rightarrow> string \<Rightarrow> int" where
  "line_time lib line = uint (line_slot lib line)"

text \<open>The bits that lines report for the slot \<open>k\<close>.\<close>

definition bits_at :: "'c lib \<Rightarrow> int \<Rightarrow> string list \<Rightarrow> u64" where
  "bits_at lib k ls = sum_list (map (line_bits lib) (filter (\<lambda>l. line_time lib l = k) ls))"

text \<open>A measurement that began in slot \<open>F\<close> and lasts \<open>D\<close> seconds, and a line for one of its later
  half seconds, which are five slots apart.\<close>

definition in_measurement :: "int \<Rightarrow> u64 \<Rightarrow> 'a globals_scheme \<Rightarrow> bool" where
  "in_measurement F D g \<longleftrightarrow> \<not> hasError g \<and> TIMER_INDEX_UPLOAD_FIRST g = F \<and> 0 < F \<and>
     MEASUREMENT_DURATION g = D \<and> small_slots g"

definition later_slots :: "int \<Rightarrow> u64 \<Rightarrow> int list" where
  "later_slots F D = map (\<lambda>j. F + 5 * int j) [1..<nat (2 * uint D) + 1]"

definition regular_line :: "'c lib \<Rightarrow> int \<Rightarrow> u64 \<Rightarrow> string \<Rightarrow> bool" where
  "regular_line lib F D line \<longleftrightarrow> good_line lib line \<and> line_time lib line \<in> set (later_slots F D)"

lemma later_slots_range: "k \<in> set (later_slots F D) \<Longrightarrow> F < k \<and> k \<le> F + 10 * uint D"
  by (auto simp: later_slots_def)

lemma later_line_world:
  "TIMER_INDEX_UPLOAD_FIRST w \<noteq> 0 \<Longrightarrow> upload_line lib line (u, w) = (f, u', v) \<Longrightarrow> v = w"
  by (auto simp: upload_line_def fix_first_slot_def Let_def split: prod.splits option.splits sum.splits)

lemma regular_line_counts:
  assumes "in_measurement F D w" "regular_line lib F D line" "imap_inv (results (mUpload u))"
  shows "\<exists>u'. upload_line lib line (u, w) = (None, u', w) \<and>
    results (mUpload u') = imap_add (line_time lib line) (line_bits lib line) (results (mUpload u))"
proof -
  let ?exa = "line_slot lib line"
  have w: "TIMER_INDEX_UPLOAD_FIRST w = F" "0 < F" "small_slots w" "\<not> hasError w" "MEASUREMENT_DURATION w = D"
    using assms(1) by (simp_all add: in_measurement_def)
  have t: "good_line lib line" "F < uint ?exa" "uint ?exa \<le> F + 10 * uint D"
    using assms(2) later_slots_range by (auto simp: regular_line_def line_time_def)
  have i: "i32 (uint ?exa) = uint ?exa"
    using t w by (intro i32_id) (simp_all add: small_slots_def)
  have "uint (u64 F) = F" using slots_end(1) [OF w(3)] w(1) by simp
  then have n: "\<not> at_first_slot (fix_first_slot ?exa w) ?exa"
    using t(2) w by (auto simp: at_first_slot_def fix_first_slot_def)
  obtain u1 where r: "read_fields lib (fields_of lib line) u = (None, u1)"
    "nDataRecv u1 = line_bits lib line" "nTimeRecvExa u1 = ?exa" "results (mUpload u1) = results (mUpload u)"
    using read_fields_good [OF t(1), of u] by auto
  obtain u' v where l: "upload_line lib line (u, w) = (None, u', v)"
    "results (mUpload u') = imap_add (uint ?exa) (line_bits lib line) (results (mUpload u))"
    using counted_line [OF r(1,4) assms(3) w(4)] n r(2,3) i by auto
  have "v = w" using later_line_world [OF _ l(1)] w by simp
  then show ?thesis using l by (simp add: line_time_def)
qed

text \<open>What counting does to the slots of a stream: nothing but adding the lines.\<close>

definition adds_lines :: "'c lib \<Rightarrow> string list \<Rightarrow> imap \<Rightarrow> imap \<Rightarrow> bool" where
  "adds_lines lib ls m m' \<longleftrightarrow> imap_inv m' \<and> dom (map_of m') = dom (map_of m) \<union> line_time lib ` set ls \<and>
     (\<forall>k. imap_at m' k = imap_at m k + bits_at lib k ls)"

lemma adds_nothing: "imap_inv m \<Longrightarrow> adds_lines lib [] m m"
  by (simp add: adds_lines_def bits_at_def)

lemma adds_one: "imap_inv m \<Longrightarrow> adds_lines lib [l] m (imap_add (line_time lib l) (line_bits lib l) m)"
  by (auto simp: adds_lines_def im.inv_put imap_at_put bits_at_def imap_add_def im.get_put split: if_splits)

lemma adds_append: "adds_lines lib ks m m1 \<Longrightarrow> adds_lines lib ls m1 m2 \<Longrightarrow> adds_lines lib (ks @ ls) m m2"
  by (auto simp: adds_lines_def bits_at_def image_Un)

lemma regular_lines_count:
  assumes "in_measurement F D w" "list_all (regular_line lib F D) ls" "imap_inv (results (mUpload u))"
  shows "\<exists>u'. upload_lines lib ls (u, w) = (None, u', w) \<and>
    adds_lines lib ls (results (mUpload u)) (results (mUpload u'))"
  using assms(2,3)
proof (induction ls arbitrary: u)
  case Nil
  then show ?case by (simp add: adds_nothing)
next
  case (Cons l ls)
  then obtain u1 where u1: "upload_line lib l (u, w) = (None, u1, w)"
    "results (mUpload u1) = imap_add (line_time lib l) (line_bits lib l) (results (mUpload u))"
    using regular_line_counts [OF assms(1)] by fastforce
  have a: "adds_lines lib [l] (results (mUpload u)) (results (mUpload u1))"
    using adds_one Cons.prems(2) u1(2) by simp
  then have "imap_inv (results (mUpload u1))" by (simp add: adds_lines_def)
  then obtain u' where "upload_lines lib ls (u1, w) = (None, u', w)"
    "adds_lines lib ls (results (mUpload u1)) (results (mUpload u'))"
    using Cons.IH Cons.prems(1) by auto
  then show ?case using adds_append [OF a] u1(1) by simp
qed

section \<open>The receives of a stream\<close>

definition upload_reports :: "'c lib \<Rightarrow> (rx_env \<times> 'a globals_scheme) list \<Rightarrow> upload \<Rightarrow> upload" where
  "upload_reports lib rxs u =
     fold (\<lambda>(rx, g) u. case upload_receive lib rx u g of Inl f \<Rightarrow> u | Inr (u', g') \<Rightarrow> u') rxs u"

definition regular :: "'c lib \<Rightarrow> int \<Rightarrow> u64 \<Rightarrow> (rx_env \<times> 'a globals_scheme) list \<Rightarrow> bool" where
  "regular lib F D rxs \<longleftrightarrow> list_all (\<lambda>(rx, g). rx_ret rx \<noteq> - 1 \<and> rx_ret rx \<noteq> 0 \<and> terminated lib rx \<and>
     in_measurement F D g \<and> list_all (regular_line lib F D) (report_lines lib rx)) rxs"

lemma regular_receive:
  assumes "regular lib F D [(rx, g)]" "imap_inv (results (mUpload u))"
  shows "\<exists>u' g'. upload_receive lib rx u g = Inr (u', g') \<and>
    adds_lines lib (report_lines lib rx) (results (mUpload u)) (results (mUpload u'))"
proof -
  let ?u = "u\<lparr>mResponse := rx_ret rx, dataReceived := True\<rparr>"
  have r: "rx_ret rx \<noteq> - 1" "rx_ret rx \<noteq> 0" "in_measurement F D (first_receive u g)"
    "list_all (regular_line lib F D) (report_lines lib rx)" "terminated lib rx"
    using assms(1) by (auto simp: regular_def in_measurement_def small_slots_def first_receive_def sync_mark_def)
  obtain u' where "upload_lines lib (report_lines lib rx) (?u, first_receive u g) = (None, u', first_receive u g)"
    "adds_lines lib (report_lines lib rx) (results (mUpload ?u)) (results (mUpload u'))"
    using regular_lines_count [OF r(3,4), of ?u] assms(2) by auto
  then show ?thesis using r(1,2,5) by (simp add: upload_receive_terminated)
qed

lemma regular_reports:
  assumes "regular lib F D rxs" "imap_inv (results (mUpload u))"
  shows "adds_lines lib (reported lib rxs) (results (mUpload u)) (results (mUpload (upload_reports lib rxs u)))"
  using assms
proof (induction rxs arbitrary: u)
  case Nil
  then show ?case by (simp add: reported_def upload_reports_def adds_nothing)
next
  case (Cons r rxs)
  obtain rx g where r: "r = (rx, g)" by (cases r)
  have p: "regular lib F D [(rx, g)]" "regular lib F D rxs" using Cons.prems(1) by (simp_all add: r regular_def)
  obtain u' g' where u': "upload_receive lib rx u g = Inr (u', g')"
    "adds_lines lib (report_lines lib rx) (results (mUpload u)) (results (mUpload u'))"
    using regular_receive [OF p(1) Cons.prems(2)] by blast
  have "imap_inv (results (mUpload u'))" using u'(2) by (simp add: adds_lines_def)
  from adds_append [OF u'(2) Cons.IH [OF p(2) this]] show ?case
    by (simp add: r reported_def upload_reports_def u'(1))
qed

section \<open>The slots that the evaluation looks at\<close>

definition measured_slots :: "int \<Rightarrow> imap \<Rightarrow> imap" where
  "measured_slots F m = filter (\<lambda>(k, v). F \<le> k) m"

lemma measured_slots_map:
  assumes "imap_inv m"
  shows "imap_inv (measured_slots F m)"
    "map_of (measured_slots F m) k = (if F \<le> k then map_of m k else None)"
proof -
  have "imap_inv m \<Longrightarrow> imap_inv (measured_slots F m) \<and>
      map_of (measured_slots F m) k = (if F \<le> k then map_of m k else None)"
  proof (induction m)
    case (Cons x m)
    then show ?case
      by (cases x) (auto simp: measured_slots_def imap_inv_def)
  qed (simp add: measured_slots_def imap_inv_def)
  then show "imap_inv (measured_slots F m)"
    "map_of (measured_slots F m) k = (if F \<le> k then map_of m k else None)" using assms by simp_all
qed

lemma upload_slots:
  assumes "conf_sTestName w = ''upload''" "TIMER_INDEX_UPLOAD_FIRST w = F" "F \<noteq> 0" "ul_heap w p = Some u"
  shows "slots_of w p = map snd (measured_slots F (results (mUpload u)))"
  using assms by (simp add: slots_of_def stream_view_def kept_slots_def measured_slots_def not_less
      case_prod_beta)

text \<open>Position \<open>j\<close> of the slots is the \<open>j\<close>-th of the known keys.\<close>

lemma distinct_of_key:
  assumes "conf_sTestName w = ''upload''" "TIMER_INDEX_UPLOAD_FIRST w = F" "F \<noteq> 0" "ul_heap w p = Some u"
    and "imap_inv (results (mUpload u))" "sorted_wrt (<) ks"
    and "\<And>k. F \<le> k \<Longrightarrow> (k \<in> dom (map_of (results (mUpload u)))) = (k \<in> set ks)" "\<And>k. k \<in> set ks \<Longrightarrow> F \<le> k"
    and "j < length ks"
  shows "distinct_of w (int j + 1) p = imap_at (results (mUpload u)) (ks ! j) div 8"
proof -
  let ?m = "results (mUpload u)"
  note m = measured_slots_map [OF assms(5), of F]
  have d: "set ks = dom (map_of (measured_slots F ?m))"
    using assms(7,8) by (fastforce simp: m(2) dom_def split: if_splits)
  note p = imap_position [OF m(1) assms(6) d assms(9)]
  have "F \<le> ks ! j" using assms(8,9) by simp
  then have "imap_at (measured_slots F ?m) (ks ! j) = imap_at ?m (ks ! j)" by (simp add: imap_at_def m(2))
  then show ?thesis
    using p by (simp add: distinct_of_def slot_bytes_def upload_slots [OF assms(1-4)])
qed

section \<open>From the reports to the message\<close>

text \<open>
  \<open>reported_by lib line rxs w p\<close>: the stream at \<open>p\<close> has received \<open>rxs\<close> since the line for the
  first slot of the measurement; what it counted before lies in earlier slots.
\<close>

definition reported_by :: "'c lib \<Rightarrow> string \<Rightarrow> (rx_env \<times> 'b globals_scheme) list \<Rightarrow> 'c world \<Rightarrow> nat \<Rightarrow> bool" where
  "reported_by lib line rxs w p \<longleftrightarrow>
     (\<exists>u ub g u0. ul_heap w p = Some u \<and> imap_inv (results (mUpload ub)) \<and>
        (\<forall>k\<in>dom (map_of (results (mUpload ub))). k < TIMER_INDEX_UPLOAD_FIRST w) \<and>
        upload_line lib line (ub, g :: 'b globals_scheme) = (None, u0, fix_first_slot (line_slot lib line) g) \<and>
        in_measurement (TIMER_INDEX_UPLOAD_FIRST w) (MEASUREMENT_DURATION w)
          (fix_first_slot (line_slot lib line) g) \<and>
        mUpload u = mUpload (upload_reports lib rxs u0)) \<and>
     good_line lib line \<and> line_time lib line = TIMER_INDEX_UPLOAD_FIRST w \<and>
     regular lib (TIMER_INDEX_UPLOAD_FIRST w) (MEASUREMENT_DURATION w) rxs"

lemma reported_regular: "regular lib F D rxs \<Longrightarrow> l \<in> set (reported lib rxs) \<Longrightarrow> regular_line lib F D l"
  by (auto simp: reported_def regular_def list_all_iff)

lemma bits_at_later:
  assumes "regular lib F D rxs"
  shows "bits_at lib F (reported lib rxs) = 0"
proof -
  have "line_time lib l \<noteq> F" if "l \<in> set (reported lib rxs)" for l
    using reported_regular [OF assms that] later_slots_range by (fastforce simp: regular_line_def)
  then have "filter (\<lambda>l. line_time lib l = F) (reported lib rxs) = []" by (simp add: filter_empty_conv)
  then show ?thesis by (simp add: bits_at_def)
qed

text \<open>The keys of the slots, and a stream whose slots have been laid out by \<open>b\<close> bits for the first.\<close>

definition slot_keys :: "int \<Rightarrow> u64 \<Rightarrow> int list" where
  "slot_keys F D = map (\<lambda>j. F + 5 * int j) [0..<nat (2 * uint D) + 1]"

lemma in_slot_keys: "k \<in> set (slot_keys F D) \<longleftrightarrow> F \<le> k \<and> k \<le> F + 10 * uint D \<and> 5 dvd k - F"
proof
  have z: "0 \<le> uint D" by simp
  show "F \<le> k \<and> k \<le> F + 10 * uint D \<and> 5 dvd k - F" if k: "k \<in> set (slot_keys F D)"
  proof -
    obtain i where "k = F + 5 * int i" "i < nat (2 * uint D) + 1"
      using k unfolding slot_keys_def set_map set_upt by auto
    moreover from this have "int i \<le> 2 * uint D" using z by linarith
    ultimately show ?thesis by simp
  qed
  show "k \<in> set (slot_keys F D)" if k: "F \<le> k \<and> k \<le> F + 10 * uint D \<and> 5 dvd k - F"
  proof -
    obtain i where i: "k - F = 5 * i" using k by (auto simp: dvd_def)
    then have "k = F + 5 * int (nat i)" "nat i < nat (2 * uint D) + 1" using k z by linarith+
    then show ?thesis unfolding slot_keys_def set_map set_upt by (intro image_eqI [of _ _ "nat i"]) simp_all
  qed
qed

lemma slot_keys_props:
  "sorted_wrt (<) (slot_keys F D)" "set (later_slots F D) \<subseteq> set (slot_keys F D)"
  "j \<le> nat (2 * uint D) \<Longrightarrow> j < length (slot_keys F D) \<and> slot_keys F D ! j = F + 5 * int j"
proof -
  show "sorted_wrt (<) (slot_keys F D)" unfolding slot_keys_def sorted_wrt_map by (simp del: upt_Suc)
  show "set (later_slots F D) \<subseteq> set (slot_keys F D)"
    unfolding slot_keys_def later_slots_def set_map set_upt by (intro image_mono) auto
  show "j \<le> nat (2 * uint D) \<Longrightarrow> j < length (slot_keys F D) \<and> slot_keys F D ! j = F + 5 * int j"
    by (simp add: slot_keys_def del: upt_Suc)
qed

definition laid_out :: "int \<Rightarrow> u64 \<Rightarrow> u64 \<Rightarrow> imap \<Rightarrow> bool" where
  "laid_out F D b m \<longleftrightarrow> imap_inv m \<and> (\<forall>k\<ge>F. k \<in> dom (map_of m) \<longleftrightarrow> k \<in> set (slot_keys F D)) \<and>
     (\<forall>k\<in>set (slot_keys F D). imap_at m k = (if k = F then b else 0))"

lemma first_line_lays_out:
  assumes "imap_inv (results (mUpload ub))" "\<forall>k\<in>dom (map_of (results (mUpload ub))). k < F"
    and "upload_line lib line (ub, g) = (None, u0, fix_first_slot (line_slot lib line) g)"
    and "in_measurement F D (fix_first_slot (line_slot lib line) g)" "good_line lib line" "line_time lib line = F"
  shows "laid_out F D (line_bits lib line) (results (mUpload u0))"
proof -
  let ?v = "fix_first_slot (line_slot lib line) g"
  have v: "\<not> hasError g" "TIMER_INDEX_UPLOAD_FIRST ?v = F" "0 < F" "MEASUREMENT_DURATION ?v = D" "small_slots ?v"
    using assms(4) by (auto simp: in_measurement_def fix_first_slot_def split: if_splits)
  have "u64 F = line_slot lib line" unfolding assms(6) [symmetric] line_time_def u64_def by simp
  then have a: "at_first_slot ?v (line_slot lib line)" using v(2,3) by (simp add: at_first_slot_def)
  obtain u1 where "upload_line lib line (ub, g) = (None, u1, ?v)" "imap_inv (results (mUpload u1))"
    "\<And>k. map_of (results (mUpload u1)) k = (if k = F then Some (line_bits lib line)
        else if k \<in> set (slot_keys F D) then Some 0 else map_of (results (mUpload ub)) k)"
    using first_slot_line [OF assms(5) v(1) assms(1) refl a] v by (auto simp: in_slot_keys)
  then have m: "imap_inv (results (mUpload u0))" "\<And>k. map_of (results (mUpload u0)) k =
      (if k = F then Some (line_bits lib line)
       else if k \<in> set (slot_keys F D) then Some 0 else map_of (results (mUpload ub)) k)"
    using assms(3) by simp_all
  have "F \<in> set (slot_keys F D)" by (simp add: in_slot_keys)
  moreover have "map_of (results (mUpload ub)) k = None" if "F \<le> k" for k
    using assms(2) that by (meson domIff not_less)
  ultimately show ?thesis using m(1) by (auto simp: laid_out_def imap_at_def m(2) domIff)
qed

lemma laid_out_slots:
  assumes "conf_sTestName w = ''upload''" "TIMER_INDEX_UPLOAD_FIRST w = F" "0 < F" "ul_heap w p = Some u"
    and "laid_out F D (line_bits lib line) m" "adds_lines lib ls m (results (mUpload u))"
    and "line_time lib ` set ls \<subseteq> set (slot_keys F D)" "line_time lib line = F" "j \<le> nat (2 * uint D)"
  shows "distinct_of w (int j + 1) p = bits_at lib (F + 5 * int j) (line # ls) div 8"
proof -
  let ?m = "results (mUpload u)" and ?k = "F + 5 * int j"
  note j = slot_keys_props(3) [OF assms(9), of F]
  have k: "?k \<in> set (slot_keys F D)" using j by (metis nth_mem)
  have d: "(k \<in> dom (map_of ?m)) = (k \<in> set (slot_keys F D))" if "F \<le> k" for k
    using assms(5-7) that by (auto simp: adds_lines_def laid_out_def)
  have b: "F \<le> k" if "k \<in> set (slot_keys F D)" for k using that by (simp add: in_slot_keys)
  have f: "F \<noteq> 0" and i: "imap_inv ?m" using assms(3,6) by (simp_all add: adds_lines_def)
  have "distinct_of w (int j + 1) p = imap_at ?m ?k div 8"
    using distinct_of_key [OF assms(1,2) f assms(4) i slot_keys_props(1) d b] j by simp
  moreover have "imap_at ?m ?k = bits_at lib ?k (line # ls)"
    using assms(5,6,8) k by (auto simp: adds_lines_def laid_out_def bits_at_def)
  ultimately show ?thesis by simp
qed

lemma reported_slots:
  assumes "conf_sTestName w = ''upload''" "reported_by lib line rxs w p" "j \<le> nat (2 * uint (MEASUREMENT_DURATION w))"
  shows "distinct_of w (int j + 1) p =
    bits_at lib (TIMER_INDEX_UPLOAD_FIRST w + 5 * int j) (line # reported lib rxs) div 8"
proof -
  define F D where "F = TIMER_INDEX_UPLOAD_FIRST w" and "D = MEASUREMENT_DURATION w"
  obtain u ub u0 and g :: "'b globals_scheme" where u: "ul_heap w p = Some u" "imap_inv (results (mUpload ub))"
    "\<forall>k\<in>dom (map_of (results (mUpload ub))). k < F"
    "upload_line lib line (ub, g) = (None, u0, fix_first_slot (line_slot lib line) g)"
    "in_measurement F D (fix_first_slot (line_slot lib line) g)"
    "mUpload u = mUpload (upload_reports lib rxs u0)"
    and l: "good_line lib line" "line_time lib line = F" "regular lib F D rxs"
    using assms(2) unfolding reported_by_def F_def [symmetric] D_def [symmetric] by blast
  have o: "laid_out F D (line_bits lib line) (results (mUpload u0))"
    by (rule first_line_lays_out [OF u(2-5) l(1,2)])
  then have a: "adds_lines lib (reported lib rxs) (results (mUpload u0)) (results (mUpload u))"
    using regular_reports [OF l(3)] by (simp add: u(6) laid_out_def)
  have s: "line_time lib ` set (reported lib rxs) \<subseteq> set (slot_keys F D)"
    using reported_regular [OF l(3)] slot_keys_props(2) by (fastforce simp: regular_line_def)
  have "0 < F" using u(5) by (simp add: in_measurement_def)
  from laid_out_slots [OF assms(1) F_def [symmetric] this u(1) o a s l(2)] show ?thesis
    using assms(3) by (simp add: F_def D_def)
qed

text \<open>C3: From the reports to the message: when every stream of an upload has received its report for
  the measurement's first slot, an evaluation publishes one object per half second, and its
  \<open>bytes_distinct\<close> is the sum over the streams of what the server's lines report for exactly that
  half second (each stream's bits modulo \<open>2^64\<close>, divided by eight); what was reported before the
  start is left out. The lines come in receives that end in the buffer, and count for the half
  seconds of the measurement.\<close>

theorem reports_published:
  assumes "conf_sTestName w = ''upload''" "1 \<le> max_steps_of w" "all_readable w (max_steps_of w) ps" "avg_fits lib"
    and "0 \<le> TIMER_DURATION w" "TIMER_DURATION w < 2147483648"
    and "2 \<le> uint (MEASUREMENT_DURATION w)" "uint (MEASUREMENT_DURATION w) < 53687091"
    and "\<forall>p\<in>set ps. reported_by lib (line p) (rxs p) w p"
  shows "\<exists>v. calculateMeasurementResultsDownloadUpload lib cmd ps w = Inr v \<and>
      length (published v) = nat (max_steps_of w) \<and>
      (\<forall>j < nat (max_steps_of w). string_value (json_at (published v ! j) ''bytes_distinct'') =
         to_string_u64 (sum_list (map (\<lambda>p. bits_at lib (TIMER_INDEX_UPLOAD_FIRST w + 5 * int j)
           (line p # reported lib (rxs p)) div 8) ps)))"
proof -
  have sp: "speed_test w" using assms(1) by (simp add: speed_test_def)
  have s: "uint (step_seconds w) = uint (MEASUREMENT_DURATION w) - 2"
    using assms(1,7) by (simp add: step_seconds_def UPLOAD_ADDITIONAL_MEASUREMENT_DURATION_def uint_minus_u64)
  have "max_steps_of w \<le> 2 * uint (step_seconds w)"
    using reported_half_seconds [OF sp assms(5,6)] assms(8) s by simp
  then have b: "j \<le> nat (2 * uint (MEASUREMENT_DURATION w))" if "j < nat (max_steps_of w)" for j
    using that s by linarith
  have m: "sum_list (map (distinct_of w (int j + 1)) ps) =
      sum_list (map (\<lambda>p. bits_at lib (TIMER_INDEX_UPLOAD_FIRST w + 5 * int j)
        (line p # reported lib (rxs p)) div 8) ps)"
    if "j < nat (max_steps_of w)" for j
    by (rule arg_cong [where f = sum_list], rule map_cong [OF refl])
      (use reported_slots [OF assms(1) _ b [OF that]] assms(9) in blast)
  obtain v where v: "calculateMeasurementResultsDownloadUpload lib cmd ps w = Inr v"
    "length (published v) = nat (max_steps_of w)"
    "\<forall>j < nat (max_steps_of w). string_value (json_at (published v ! j) ''bytes_distinct'') =
       to_string_u64 (sum_list (map (distinct_of w (int j + 1)) ps))"
    using evaluation_publishes [OF sp assms(2-4), of cmd] by blast
  show ?thesis by (rule exI [of _ v]) (simp add: v m)
qed

section \<open>A stream without a report for the first slot\<close>

text \<open>The same stream, but its first report after the start comes later than that of another one.\<close>

definition reported_late :: "'c lib \<Rightarrow> (rx_env \<times> 'b globals_scheme) list \<Rightarrow> 'c world \<Rightarrow> nat \<Rightarrow> bool" where
  "reported_late lib rxs w p \<longleftrightarrow>
     (\<exists>u ub. ul_heap w p = Some u \<and> imap_inv (results (mUpload ub)) \<and>
        (\<forall>k\<in>dom (map_of (results (mUpload ub))). k < TIMER_INDEX_UPLOAD_FIRST w) \<and>
        mUpload u = mUpload (upload_reports lib rxs ub)) \<and>
     regular lib (TIMER_INDEX_UPLOAD_FIRST w) (MEASUREMENT_DURATION w) rxs \<and> reported lib rxs \<noteq> []"

definition first_reported :: "'c lib \<Rightarrow> (rx_env \<times> 'a) list \<Rightarrow> int" where
  "first_reported lib rxs = Min (set (map (line_time lib) (reported lib rxs)))"

lemma late_slots:
  assumes "conf_sTestName w = ''upload''" "reported_late lib rxs w p" "0 < TIMER_INDEX_UPLOAD_FIRST w"
  shows "distinct_of w 1 p = bits_at lib (first_reported lib rxs) (reported lib rxs) div 8"
    "first_reported lib rxs \<in> set (later_slots (TIMER_INDEX_UPLOAD_FIRST w) (MEASUREMENT_DURATION w))"
proof -
  define F where "F = TIMER_INDEX_UPLOAD_FIRST w"
  obtain u ub where u: "ul_heap w p = Some u" "imap_inv (results (mUpload ub))"
    "\<forall>k\<in>dom (map_of (results (mUpload ub))). k < F" "mUpload u = mUpload (upload_reports lib rxs ub)"
    and r: "regular lib F (MEASUREMENT_DURATION w) rxs" "reported lib rxs \<noteq> []"
    using assms(2) unfolding reported_late_def F_def [symmetric] by blast
  let ?S = "set (map (line_time lib) (reported lib rxs))"
  let ?ks = "sorted_list_of_set ?S"
  have S: "finite ?S" "?S \<noteq> {}" using r(2) by simp_all
  have l: "k \<in> set (later_slots F (MEASUREMENT_DURATION w))" if "k \<in> ?S" for k
    using reported_regular [OF r(1)] that by (auto simp: regular_line_def)
  have first: "first_reported lib rxs \<in> ?S" using Min_in [OF S] by (simp add: first_reported_def)
  then show "first_reported lib rxs \<in> set (later_slots (TIMER_INDEX_UPLOAD_FIRST w) (MEASUREMENT_DURATION w))"
    using l by (simp add: F_def)
  have F: "F < k" if "k \<in> ?S" for k using l [OF that] later_slots_range by blast
  have a: "adds_lines lib (reported lib rxs) (results (mUpload ub)) (results (mUpload u))"
    using regular_reports [OF r(1) u(2)] by (simp add: u(4))
  then have i: "imap_inv (results (mUpload u))" by (simp add: adds_lines_def)
  have d: "(k \<in> dom (map_of (results (mUpload u)))) = (k \<in> set ?ks)" if "F \<le> k" for k
  proof -
    have "k \<notin> dom (map_of (results (mUpload ub)))" using u(3) that by (meson not_less)
    moreover have "dom (map_of (results (mUpload u))) = dom (map_of (results (mUpload ub))) \<union> line_time lib ` set (reported lib rxs)"
      using a by (simp add: adds_lines_def)
    ultimately show ?thesis by simp
  qed
  have b: "F \<le> k" if "k \<in> set ?ks" for k using F [of k] that by simp
  have k0: "?ks = first_reported lib rxs # sorted_list_of_set (?S - {first_reported lib rxs})"
    unfolding first_reported_def by (rule sorted_list_of_set_nonempty [OF S])
  have n: "0 < length ?ks" by (subst k0) simp
  have f: "F \<noteq> 0" using assms(3) by (simp add: F_def)
  have "distinct_of w (int 0 + 1) p = imap_at (results (mUpload u)) (?ks ! 0) div 8"
    by (rule distinct_of_key [OF assms(1) F_def [symmetric] f u(1) i strict_sorted_list_of_set d b n])
  moreover have "?ks ! 0 = first_reported lib rxs" by (subst k0) simp
  moreover have "imap_at (results (mUpload ub)) (first_reported lib rxs) = 0"
  proof -
    have "map_of (results (mUpload ub)) (first_reported lib rxs) = None"
      using u(3) F [OF first] by (meson domIff less_asym)
    then show ?thesis by (simp add: imap_at_def)
  qed
  ultimately show "distinct_of w 1 p = bits_at lib (first_reported lib rxs) (reported lib rxs) div 8"
    using a by (simp add: adds_lines_def)
qed

text \<open>C28: The slots of a stream are only laid out by a report for the measurement's first slot. A stream
  that misses it is evaluated by the position of its entries: what it reports first, for a later
  half second, is published in the first one.\<close>

theorem missed_first_slot:
  assumes "conf_sTestName w = ''upload''" "1 \<le> max_steps_of w" "all_readable w (max_steps_of w) [p]" "avg_fits lib"
    and "0 < TIMER_INDEX_UPLOAD_FIRST w" "reported_late lib rxs w p"
  shows "TIMER_INDEX_UPLOAD_FIRST w < first_reported lib rxs \<and>
    (\<exists>v. calculateMeasurementResultsDownloadUpload lib cmd [p] w = Inr v \<and>
       string_value (json_at (published v ! 0) ''bytes_distinct'') =
         to_string_u64 (bits_at lib (first_reported lib rxs) (reported lib rxs) div 8))"
proof -
  note l = late_slots [OF assms(1,6,5)]
  have sp: "speed_test w" using assms(1) by (simp add: speed_test_def)
  obtain v where v: "calculateMeasurementResultsDownloadUpload lib cmd [p] w = Inr v"
    "\<forall>j < nat (max_steps_of w). string_value (json_at (published v ! j) ''bytes_distinct'') =
       to_string_u64 (sum_list (map (distinct_of w (int j + 1)) [p]))"
    using evaluation_publishes [OF sp assms(2-4), of cmd] by blast
  have "0 < nat (max_steps_of w)" using assms(2) by simp
  then have "string_value (json_at (published v ! 0) ''bytes_distinct'') =
      to_string_u64 (bits_at lib (first_reported lib rxs) (reported lib rxs) div 8)"
    using v(2) l(1) by fastforce
  then show ?thesis using v(1) l(2) later_slots_range by blast
qed

section \<open>Witnesses\<close>

text \<open>1000 bytes for slot 5, in which the measurement starts, and 2000 bytes for slot 10.\<close>

definition line10 :: string where "line10 = ''2000,0,5,x000010''"

definition upload_globals :: "unit world" where
  "upload_globals = world0\<lparr>TIMER_RUNNING := True, TIMER_INDEX_UPLOAD_FIRST := 5, MEASUREMENT_DURATION := 3\<rparr>"

definition second_report :: "(rx_env \<times> unit world) list" where
  "second_report = [(\<lparr>rx_ret = 17, rx_tls_records = 0, rx_buffer = line10\<rparr>, upload_globals)]"

definition first_counted :: upload where
  "first_counted = fst (snd (upload_line (lib0 Ios) line0 (upload0, upload_globals)))"

definition upload_world :: "upload \<Rightarrow> unit world" where
  "upload_world u = eval_world\<lparr>conf_sTestName := ''upload'', MEASUREMENT_DURATION := 3,
     TIMER_INDEX_UPLOAD_FIRST := 5, ul_heap := [3 \<mapsto> upload0\<lparr>measurementTimeStart := 1000000,
       mResponse := 8, mUpload := mUpload (upload_reports (lib0 Ios) second_report u)\<rparr>]\<rparr>"

lemma line10_fields: "fields_of (lib0 t) line10 = [''2000'', ''0'', ''5'', ''x000010'']"
  by (simp add: fields_of_def line10_def)

lemma line10_good: "good_line (lib0 t) line10" "line_slot (lib0 t) line10 = 10" "line_bits (lib0 t) line10 = 16000"
  by (simp_all add: good_line_def line_slot_def line_bits_def line10_fields dec_value_def digit_val_def)

lemma line_times: "line_time (lib0 t) line0 = 5" "line_time (lib0 t) line10 = 10"
  by (simp_all add: line_time_def line0_good line10_good)

lemma second_report_lines: "report_lines (lib0 t) \<lparr>rx_ret = 17, rx_tls_records = 0, rx_buffer = line10\<rparr> = [line10]"
  "terminated (lib0 t) \<lparr>rx_ret = 17, rx_tls_records = 0, rx_buffer = line10\<rparr>"
  by (simp_all add: report_lines_def terminated_def c_text_def received_def line10_def)

lemma upload_globals_in: "in_measurement 5 3 upload_globals"
  by (simp add: in_measurement_def upload_globals_def small_slots_def)

lemma second_report_regular:
  "regular (lib0 Ios) 5 3 second_report" "reported (lib0 Ios) second_report = [line10]"
  by (simp_all add: regular_def reported_def second_report_def second_report_lines upload_globals_in
      regular_line_def line10_good line_times later_slots_def upt_rec)

lemma seven_slots: "fill_zero 5 35 5 [] =
    Inr [(5, 0), (10, 0), (15, 0), (20, 0), (25, 0), (30, 0), (35, 0)]"
  by (simp add: fill_zero.simps [of 5 35 5] fill_zero.simps [of 5 35 10] fill_zero.simps [of 5 35 15]
      fill_zero.simps [of 5 35 20] fill_zero.simps [of 5 35 25] fill_zero.simps [of 5 35 30]
      fill_zero.simps [of 5 35 35] fill_zero.simps [of 5 35 40] u64_def)

lemma first_line:
  "upload_line (lib0 Ios) line0 (upload0, upload_globals) = (None, first_counted, upload_globals)"
  "results (mUpload first_counted) = [(5, 8000), (10, 0), (15, 0), (20, 0), (25, 0), (30, 0), (35, 0)]"
  "datasize_slow_start (mUpload first_counted) = 0"
proof -
  have f: "tokenize (lib0 Ios) line0 '','' = [''1000'', ''0'', ''5'', ''x000005'']"
    using line0_fields by (simp only: fields_of_def)
  show "upload_line (lib0 Ios) line0 (upload0, upload_globals) = (None, first_counted, upload_globals)"
    "results (mUpload first_counted) = [(5, 8000), (10, 0), (15, 0), (20, 0), (25, 0), (30, 0), (35, 0)]"
    "datasize_slow_start (mUpload first_counted) = 0"
    by (simp_all add: first_counted_def upload_line_def f read_fields_def last_six_def fix_first_slot_def
        zero_slots_def at_first_slot_def upload_globals_def seven_slots count_report_def imap_add_def
        imap_at_def i32_def u64_def sample_threads data0_def dec_value_def digit_val_def Let_def del: lib0_simps(6))
qed

lemma second_line:
  assumes "TIMER_INDEX_UPLOAD_FIRST g = 5" "\<not> hasError g"
  shows "\<exists>u'. upload_line (lib0 Ios) line10 (u, g) = (None, u', g) \<and>
    results (mUpload u') = imap_add 10 16000 (results (mUpload u)) \<and>
    datasize_slow_start (mUpload u') = datasize_slow_start (mUpload u)"
proof -
  have f: "tokenize (lib0 Ios) line10 '','' = [''2000'', ''0'', ''5'', ''x000010'']"
    using line10_fields by (simp only: fields_of_def)
  show ?thesis
    using assms
    by (simp add: upload_line_def f read_fields_def last_six_def fix_first_slot_def
        zero_slots_def at_first_slot_def count_report_def imap_add_def
        imap_at_def i32_def u64_def dec_value_def digit_val_def Let_def
        del: lib0_simps(6) split: option.split)
qed

lemma second_counted:
  "results (mUpload (upload_reports (lib0 Ios) second_report u)) = imap_add 10 16000 (results (mUpload u))"
  "datasize_slow_start (mUpload (upload_reports (lib0 Ios) second_report u)) = datasize_slow_start (mUpload u)"
proof -
  let ?u = "u\<lparr>mResponse := 17, dataReceived := True\<rparr>" and ?g = "first_receive u upload_globals"
  have g: "TIMER_INDEX_UPLOAD_FIRST ?g = 5" "\<not> hasError ?g"
    by (simp_all add: first_receive_def sync_mark_def upload_globals_def)
  obtain u' where u': "upload_line (lib0 Ios) line10 (?u, ?g) = (None, u', ?g)"
    "results (mUpload u') = imap_add 10 16000 (results (mUpload u))"
    "datasize_slow_start (mUpload u') = datasize_slow_start (mUpload u)"
    using second_line [OF g, of ?u] by auto
  have "upload_receive (lib0 Ios) \<lparr>rx_ret = 17, rx_tls_records = 0, rx_buffer = line10\<rparr> u upload_globals =
      Inr (u'\<lparr>run_pc := RunGuard\<rparr>, ?g)"
    using u'(1) by (simp add: upload_receive_terminated second_report_lines)
  then show "results (mUpload (upload_reports (lib0 Ios) second_report u)) = imap_add 10 16000 (results (mUpload u))"
    "datasize_slow_start (mUpload (upload_reports (lib0 Ios) second_report u)) = datasize_slow_start (mUpload u)"
    by (simp_all add: upload_reports_def second_report_def u')
qed

lemma upload_world_facts:
  "conf_sTestName (upload_world u) = ''upload''" "TIMER_DURATION (upload_world u) = 1200000"
  "MEASUREMENT_DURATION (upload_world u) = 3" "TIMESTAMP_MEASUREMENT_START (upload_world u) = 0"
  "TIMER_INDEX_UPLOAD_FIRST (upload_world u) = 5" "clock (upload_world u) n = 5000000"
  "max_steps_of (upload_world u) = 2"
  "stream_view (upload_world u) 3 = Some (mUpload (upload_reports (lib0 Ios) second_report u), 1000000, 8)"
  "\<exists>v. ul_heap (upload_world u) 3 = Some v \<and> mUpload v = mUpload (upload_reports (lib0 Ios) second_report u)"
proof -
  show s: "conf_sTestName (upload_world u) = ''upload''" "TIMER_DURATION (upload_world u) = 1200000"
    "MEASUREMENT_DURATION (upload_world u) = 3" "TIMESTAMP_MEASUREMENT_START (upload_world u) = 0"
    "TIMER_INDEX_UPLOAD_FIRST (upload_world u) = 5" "clock (upload_world u) n = 5000000"
    by (simp_all add: upload_world_def eval_world_def)
  show "max_steps_of (upload_world u) = 2"
    using reported_half_seconds [of "upload_world u"]
    by (simp add: s speed_test_def step_seconds_def UPLOAD_ADDITIONAL_MEASUREMENT_DURATION_def)
  show "stream_view (upload_world u) 3 = Some (mUpload (upload_reports (lib0 Ios) second_report u), 1000000, 8)"
    by (simp add: stream_view_def s) (simp add: upload_world_def)
  show "\<exists>v. ul_heap (upload_world u) 3 = Some v \<and> mUpload v = mUpload (upload_reports (lib0 Ios) second_report u)"
    by (simp add: upload_world_def)
qed

lemma upload_world_readable:
  assumes "kept_slots ''upload'' 5 (imap_add 10 16000 (results (mUpload u))) = vs"
    and "sum_list (map uint vs) < 9223372036854775808" "datasize_slow_start (mUpload u) = 0"
  shows "all_readable (upload_world u) (max_steps_of (upload_world u)) [3]"
proof -
  note f = upload_world_facts [of u]
  have v: "slots_of (upload_world u) 3 = vs"
    by (simp add: slots_of_def f second_counted assms(1))
  have "stream_readable (upload_world u) 2 step (clock (upload_world u) n) 3" if "1 \<le> step" "step \<le> 2" for step n
    using stream_reads [OF f(8) that, of 5000000] assms(2) by (simp add: f v second_counted assms(3))
  then show ?thesis by (simp add: all_readable_def f(7))
qed

lemma reports_published_witness:
  "\<exists>v. calculateMeasurementResultsDownloadUpload (lib0 Ios) ''report'' [3] (upload_world first_counted) = Inr v \<and>
     string_value (json_at (published v ! 0) ''bytes_distinct'') = to_string_u64 1000 \<and>
     string_value (json_at (published v ! 1) ''bytes_distinct'') = to_string_u64 2000"
proof -
  let ?w = "upload_world first_counted"
  note f = upload_world_facts [of first_counted] and l = first_line and s = second_report_regular
  have r: "all_readable ?w (max_steps_of ?w) [3]"
    by (rule upload_world_readable [OF refl]) (simp_all add: l(2,3) imap_add_def imap_at_def)
  have avg: "avg_fits (lib0 Ios)" by (simp add: avg_fits_def)
  have fx: "fix_first_slot (line_slot (lib0 Ios) line0) upload_globals = upload_globals"
    by (simp add: fix_first_slot_def upload_globals_def)
  have "imap_inv (results (mUpload upload0)) \<and> (\<forall>k\<in>dom (map_of (results (mUpload upload0))). k < 5)"
    by (simp add: sample_threads data0_def imap_inv_def)
  then have "reported_by (lib0 Ios) line0 second_report ?w 3"
    unfolding reported_by_def f(3,5) using f(9) l(1) upload_globals_in fx line0_good(1) line_times(1) s(1) by metis
  then have rb: "\<forall>p\<in>set [3]. reported_by (lib0 Ios) ((\<lambda>_. line0) p) ((\<lambda>_. second_report) p) ?w p" by simp
  have "bits_at (lib0 Ios) 5 [line0, line10] = 8000" "bits_at (lib0 Ios) 10 [line0, line10] = 16000"
    by (simp_all add: bits_at_def line_times line0_good line10_good)
  then show ?thesis
    using reports_published [OF f(1) _ r avg _ _ _ _ rb, of "''report''"] by (fastforce simp: f s(2))
qed

lemma missed_first_slot_witness:
  "\<exists>v. calculateMeasurementResultsDownloadUpload (lib0 Ios) ''report'' [3] (upload_world upload0) = Inr v \<and>
     string_value (json_at (published v ! 0) ''bytes_distinct'') = to_string_u64 2000 \<and>
     TIMER_INDEX_UPLOAD_FIRST (upload_world upload0) = 5 \<and> first_reported (lib0 Ios) second_report = 10"
proof -
  let ?w = "upload_world upload0"
  note f = upload_world_facts [of upload0] and s = second_report_regular
  have z: "results (mUpload upload0) = []" "datasize_slow_start (mUpload upload0) = 0"
    by (simp_all add: sample_threads data0_def)
  have r: "all_readable ?w (max_steps_of ?w) [3]"
    by (rule upload_world_readable [OF refl]) (simp_all add: z imap_add_def imap_at_def)
  have avg: "avg_fits (lib0 Ios)" by (simp add: avg_fits_def)
  have "imap_inv (results (mUpload upload0)) \<and> (\<forall>k\<in>dom (map_of (results (mUpload upload0))). k < 5)"
    by (simp add: z imap_inv_def)
  moreover have "reported (lib0 Ios) second_report \<noteq> []" by (simp add: s(2))
  ultimately have late: "reported_late (lib0 Ios) second_report ?w 3"
    unfolding reported_late_def f(3,5) using f(9) s(1) by blast
  have k: "first_reported (lib0 Ios) second_report = 10" by (simp add: first_reported_def s(2) line_times)
  have "bits_at (lib0 Ios) 10 [line10] = 16000" by (simp add: bits_at_def line_times line10_good)
  then show ?thesis
    using missed_first_slot [OF f(1) _ r avg _ late, of "''report''"] by (auto simp: f s(2) k)
qed

end
