(* ===== verification/RoundTrips.thy ===== *)
theory RoundTrips
  imports Callback PingTest
begin

text \<open>
  From the exchanges of a ping (\<open>PingTest\<close>) to the RTT result of a message (\<open>rttUdpCallback\<close> in
  \<open>Callback\<close>): what a ping has counted since its construction, with the callback writing two
  time stamps into its object in between, is what the result says.
\<close>

section \<open>A ping among the other threads\<close>

text \<open>
  The callback writes two times into the object of a running ping; nothing else touches it.
  \<open>rttUdpCallback_stamps\<close> says so of the real callback.
\<close>

definition stamped :: "ping \<times> 'c world \<Rightarrow> ping \<times> 'c world \<Rightarrow> bool" where
  "stamped s s' \<longleftrightarrow> fst s' = (fst s)\<lparr>measurementTimeDuration := measurementTimeDuration (fst s'),
     measurementTimeEnd := measurementTimeEnd (fst s')\<rparr>"

lemma rttUdpCallback_stamps:
  assumes "rttUdpCallback lib cmd w = Inr v" "pingThread w = Some p" "ping_heap w p = Some t"
  shows "\<exists>t'. ping_heap v p = Some t' \<and> stamped (t, w) (t', v)"
  using assms
  by (auto simp: rttUdpCallback_def deref_def stamped_def get_timestamp_def Let_def split: if_splits)

definition ping_target :: "int \<Rightarrow> ping \<Rightarrow> bool" where
  "ping_target n t \<longleftrightarrow> ping_inv t \<and> mPingQuery t = n + 1 \<and> nPingTarget t = n"

lemma ping_target_step:
  "ping_step lib e (t, w) = Inr (t', v) \<Longrightarrow> ping_target n t \<Longrightarrow> ping_target n t'"
  using ping_step_inv [of lib e t w t' v]
  by (auto simp: ping_target_def ping_step_def ping_setup_def ping_guard_def ping_receive_def
      get_timestamp_def Let_def split: run_pc.splits if_splits)

lemma ping_target_stamped: "stamped (t, w) (t', w') \<Longrightarrow> ping_target n t \<Longrightarrow> ping_target n t'"
proof -
  assume a: "stamped (t, w) (t', w')" "ping_target n t"
  have p: "progressed (t\<lparr>measurementTimeDuration := d, measurementTimeEnd := e\<rparr>) = progressed t" for d e
    by (simp add: progressed_def)
  have "ping_inv (t\<lparr>measurementTimeDuration := d, measurementTimeEnd := e\<rparr>) = ping_inv t" for d e
    by (cases "run_pc t") (simp_all add: ping_inv_def p)
  then have "ping_target n (t\<lparr>measurementTimeDuration := d, measurementTimeEnd := e\<rparr>)" for d e
    using a(2) by (simp add: ping_target_def)
  then show "ping_target n t'" using a(1) unfolding stamped_def by (metis fst_conv)
qed

lemma ping_target_run:
  "interleaved (ping_step lib) stamped k s s' \<Longrightarrow> ping_target n (fst s) \<Longrightarrow> ping_target n (fst s')"
proof (induction rule: interleaved.induct)
  case (others k s u v)
  then show ?case using ping_target_stamped [of "fst u" "snd u" "fst v" "snd v"] by simp
next
  case (own k s u e v)
  then show ?case using ping_target_step [of lib e "fst u" "snd u" "fst v" "snd v"] by simp
qed

lemma ping_target_new:
  assumes "readLong lib xml provider ''PING_QUERY'' 30 = n" "0 \<le> n" "n < 2147483646"
  shows "ping_target n (Ping_new lib xml provider raw)"
  using assms by (simp add: ping_target_def Ping_new_def ping_inv_def imap_inv_def keys_def i32_id new_data_def Let_def)

text \<open>C19: In every state that a ping reaches from its construction, with any answers of the network and the
  callback in between, its counters add up: none before the first answer, and behind it each
  exchange is counted once, as reply, error or missing. There are exactly as many round trip
  times as replies and a time stamp for each, under different numbers, from 2 on and below the number
  of the next exchange, which never exceeds the configured number by more than two.\<close>

theorem ping_invariant:
  assumes "readLong lib xml provider ''PING_QUERY'' 30 = n" "0 \<le> n" "n < 2147483646"
    and "interleaved (ping_step lib) stamped k (Ping_new lib xml provider raw, w0) (t, w)"
    and "run_pc t = RunGuard \<or> run_pc t = RunReceive \<or> run_pc t = RunReturned 0"
  shows "nReplies t + nErrors t + nMissing t = (if firstResponse t then 0 else ping_i t - 2)
    \<and> 0 \<le> nReplies t \<and> 0 \<le> nErrors t \<and> 0 \<le> nMissing t \<and> 1 \<le> ping_i t \<and> ping_i t \<le> n + 2
    \<and> int (length (results (mPingResult t))) = nReplies t
    \<and> keys (results_timestamp (mPingResult t)) = keys (results (mPingResult t))
    \<and> distinct (keys (results (mPingResult t))) \<and> set (keys (results (mPingResult t))) \<subseteq> {2..<ping_i t}"
proof -
  have "ping_target n t" using ping_target_run [OF assms(4)] ping_target_new [OF assms(1-3)] by simp
  then have i: "ping_inv t" "mPingQuery t = n + 1" by (simp_all add: ping_target_def)
  then have p: "progressed t" "ping_i t \<le> n + 2 \<or> ping_i t = 1" using assms(5) by (auto simp: ping_inv_def)
  have "sorted_wrt (<) (keys (results (mPingResult t)))" using i(1) by (simp add: ping_inv_def imap_inv_def keys_def)
  then have "distinct (keys (results (mPingResult t)))" by (simp add: strict_sorted_iff)
  moreover have "keys (results_timestamp (mPingResult t)) = keys (results (mPingResult t))"
    using i(1) by (simp add: ping_inv_def)
  moreover have "set (keys (results (mPingResult t))) \<subseteq> {2..<ping_i t}"
    using p(1) unfolding progressed_def by fastforce
  moreover have "nReplies t + nErrors t + nMissing t = (if firstResponse t then 0 else ping_i t - 2)"
    "0 \<le> nReplies t" "0 \<le> nErrors t" "0 \<le> nMissing t" "1 \<le> ping_i t"
    "int (length (results (mPingResult t))) = nReplies t"
    using p(1) by (auto simp: progressed_def split: if_splits)
  ultimately show ?thesis using p(2) assms(2) by auto
qed

section \<open>The result of a ping\<close>

lemma copy_results:
  assumes "imap_inv (ys @ rs)"
  shows "fold (\<lambda>(k, v). imap_add k v) rs ys = ys @ rs"
  using assms
proof (induction rs arbitrary: ys)
  case (Cons r rs)
  obtain k v where r: "r = (k, v)" by (cases r)
  have lt: "\<forall>j\<in>set (map fst ys). j < k" using Cons.prems by (auto simp: imap_inv_def sorted_wrt_append r)
  have "map_of ys k = None" using lt by (force simp: map_of_eq_None_iff)
  then have "imap_add k v ys = ys @ [(k, v)]"
    by (simp add: imap_add_def imap_at_def imap_put_append [OF lt])
  then show ?case using Cons by (simp add: r)
qed simp

text \<open>What the library makes of the round trip times of a ping.\<close>

definition statistics :: "'c lib \<Rightarrow> ping \<Rightarrow> measurement_data" where
  "statistics lib t = calculateResults lib ((new_data lib)\<lparr>results := results (mPingResult t)\<rparr>) 1 0 0"

definition exchanges :: "ping \<Rightarrow> int" where
  "exchanges t = nReplies t + nErrors t + nMissing t"

definition past_setup :: "ping \<Rightarrow> bool" where
  "past_setup t \<longleftrightarrow> run_pc t = RunGuard \<or> run_pc t = RunReceive \<or> run_pc t = RunReturned 0"

lemma exchanges_range:
  assumes "ping_target n t" "past_setup t" "0 \<le> n"
  shows "0 \<le> nReplies t" "0 \<le> nErrors t" "0 \<le> nMissing t" "exchanges t \<le> n"
    "mPingQuery t < ping_i t \<Longrightarrow> 0 < n \<Longrightarrow> exchanges t = n"
    "int (length (results (mPingResult t))) = nReplies t" "imap_inv (results (mPingResult t))"
  using assms by (auto simp: ping_target_def past_setup_def ping_inv_def progressed_def exchanges_def
      split: if_splits)

text \<open>C4: The RTT result sent while a ping runs or after its end counts exactly its exchanges: the
  numbers of replies, errors and missing answers add up to the number sent, which never exceeds
  the configured number and is equal to it, with progress 1, once the loop has run through; the
  statistics are those of exactly the stored round trip times, one for each reply.\<close>

theorem round_trips_published:
  assumes "readLong lib xml provider ''PING_QUERY'' 30 = n" "0 < n" "n < 2147483646"
    and "interleaved (ping_step lib) stamped k (Ping_new lib xml provider raw, w0) (t, w1)" "past_setup t"
    and "pingThread w = Some p" "ping_heap w p = Some t"
  shows "\<exists>v. rttUdpCallback lib cmd w = Inr v \<and>
      (let r = jMeasurementResultsRttUdp v in
        obj_at r ''num_received'' = JStr (to_string_int (nReplies t)) \<and>
        obj_at r ''num_error'' = JStr (to_string_int (nErrors t)) \<and>
        obj_at r ''num_missing'' = JStr (to_string_int (nMissing t)) \<and>
        obj_at r ''num_sent'' = JStr (to_string_int (exchanges t)) \<and>
        obj_at r ''progress'' = JNum (of_int (exchanges t) / of_int n) \<and>
        obj_at r ''average_ns'' = JStr (to_string_u64 (avg (statistics lib t) * 1000)) \<and>
        obj_at r ''median_ns'' = JStr (to_string_u64 (median_ns (statistics lib t)))) \<and>
      exchanges t \<le> n \<and> (mPingQuery t < ping_i t \<longrightarrow> exchanges t = n) \<and>
      int (length (results (mPingResult t))) = nReplies t"
proof -
  have "ping_target n (Ping_new lib xml provider raw)"
    using ping_target_new [OF assms(1)] assms(2,3) by simp
  then have pt: "ping_target n t" using ping_target_run [OF assms(4)] by simp
  have "0 \<le> n" using assms(2) by simp
  note x = exchanges_range [OF pt assms(5) this]
  have i: "i32 (nReplies t + nMissing t + nErrors t) = exchanges t"
    using x(1-4) assms(3) by (subst i32_id) (simp_all add: exchanges_def)
  have tgt: "nPingTarget t = n" using pt by (simp add: ping_target_def)
  have s: "calculateResults lib ((new_data lib)\<lparr>results :=
      fold (\<lambda>(k, v). imap_add k v) (results (mPingResult t)) (results (new_data lib))\<rparr>) 1 0 0 = statistics lib t"
    using copy_results [of "[]"] x(7) by (simp add: statistics_def new_data_def)
  have d: "replies (ping_data lib (t\<lparr>measurementTimeDuration := a\<rparr>)) = nReplies t"
    "errors (ping_data lib (t\<lparr>measurementTimeDuration := a\<rparr>)) = nErrors t"
    "missing (ping_data lib (t\<lparr>measurementTimeDuration := a\<rparr>)) = nMissing t"
    "requests (ping_data lib (t\<lparr>measurementTimeDuration := a\<rparr>)) = exchanges t"
    "measurement_phase_progress (ping_data lib (t\<lparr>measurementTimeDuration := a\<rparr>)) = of_int (exchanges t) / of_int n"
    "avg (ping_data lib (t\<lparr>measurementTimeDuration := a\<rparr>)) = avg (statistics lib t)"
    "median_ns (ping_data lib (t\<lparr>measurementTimeDuration := a\<rparr>)) = median_ns (statistics lib t)" for a
    using s by (simp_all add: ping_data_def Let_def i tgt)
  have e: "ping_data lib (t\<lparr>measurementTimeDuration := a, measurementTimeEnd := b\<rparr>) =
      (ping_data lib (t\<lparr>measurementTimeDuration := a\<rparr>))\<lparr>endtime := b\<rparr>" for a b
    by (simp add: ping_data_def Let_def)
  have "\<exists>v m rtts. rttUdpCallback lib cmd w = Inr v \<and> jMeasurementResultsRttUdp v = rtt_object m rtts \<and>
      replies m = nReplies t \<and> errors m = nErrors t \<and> missing m = nMissing t \<and> requests m = exchanges t \<and>
      measurement_phase_progress m = of_int (exchanges t) / of_int n \<and> avg m = avg (statistics lib t) \<and>
      median_ns m = median_ns (statistics lib t)"
    by (simp add: rttUdpCallback_def deref_def assms(6,7) get_timestamp_def Let_def e) (auto simp: d)
  then show ?thesis
    using x by (auto simp: rtt_object_def obj_at_def Let_def assms(2))
qed

section \<open>Witnesses\<close>

text \<open>A ping that has got its first answer and one echo.\<close>

definition echo_step :: ping_step_env where
  "echo_step = \<lparr>pe_conn = \<lparr>ping_pid = 5, ping_socktype = Some 2, ping_host = ''h'', ping_socket6 = 1, ping_socket4 = 1\<rparr>,
     pe_echo = \<lparr>echo_ret = 1, echo_time1 = 100, echo_time2 = 250, echo_time3 = 300, echo_sent = ''a'', echo_got = ''a''\<rparr>\<rparr>"

definition new_ping :: ping where
  "new_ping = Ping_new (lib0 Ios) () ''ias'' ping0"

fun echo_steps :: "nat \<Rightarrow> ping \<times> unit world \<Rightarrow> ping \<times> unit world" where
  "echo_steps 0 s = s"
| "echo_steps (Suc n) s = (case ping_step (lib0 Ios) echo_step (echo_steps n s) of Inl f \<Rightarrow> s | Inr s' \<Rightarrow> s')"

lemma echo_steps_run:
  "interleaved (ping_step (lib0 Ios)) stamped n s (echo_steps n s)"
proof (induction n)
  case (Suc n)
  have "\<exists>s'. ping_step (lib0 Ios) echo_step x = Inr s'" for x :: "ping \<times> unit world"
    by (cases x; cases "run_pc (fst x)") (simp_all add: ping_step_def)
  then obtain s' where s': "ping_step (lib0 Ios) echo_step (echo_steps n s) = Inr s'" by blast
  then show ?case using interleaved.own [OF Suc] by simp
qed (simp add: interleaved.start)

lemma one_echo:
  "fst (echo_steps 5 (new_ping, world0)) = new_ping\<lparr>run_pc := RunGuard, dataReceived := True, pid := 5,
     measurementTimeStart := 0, measurementTimeEnd := 0, measurementTimeDuration := 0, mServer := ''h'',
     nSize := 64, nErrors := 0, nMissing := 0, nReplies := 1, ping_i := 3, firstResponse := False,
     mTimeDiff := 150, mPingResult := record_reply 150 300000 2 (mPingResult new_ping)\<rparr>"
  by (simp add: numeral_eq_Suc ping_step_def echo_step_def new_ping_def Ping_new_def ping_setup_def
      ping_guard_def ping_receive_def ping_resolved_def mirrored_def get_timestamp_def sync_mark_def
      first_receive_def ECHO_def sample_threads data0_def i32_def Let_def)

lemma one_echo_run:
  "interleaved (ping_step (lib0 Ios)) stamped 5 (Ping_new (lib0 Ios) () ''ias'' ping0, world0)
     (fst (echo_steps 5 (new_ping, world0)), snd (echo_steps 5 (new_ping, world0)))"
  using echo_steps_run [of 5 "(new_ping, world0)"] by (simp add: new_ping_def)

lemma ping_invariant_witness:
  "let t = fst (echo_steps 5 (new_ping, world0)) in nReplies t = 1 \<and>
     length (results (mPingResult t)) = 1 \<and> set (keys (results (mPingResult t))) \<subseteq> {2..<3}"
proof -
  let ?t = "fst (echo_steps 5 (new_ping, world0))"
  have q: "readLong (lib0 Ios) () ''ias'' ''PING_QUERY'' 30 = 30" "(0::int) \<le> 30" "(30::int) < 2147483646"
    by simp_all
  have s: "run_pc ?t = RunGuard" "nReplies ?t = 1" "ping_i ?t = 3" by (simp_all add: one_echo)
  from ping_invariant [OF q one_echo_run] s show ?thesis by (simp add: Let_def)
qed

lemma round_trips_published_witness:
  "\<exists>v. rttUdpCallback (lib0 Ios) ''report'' (world0\<lparr>pingThread := Some 3,
       ping_heap := [3 \<mapsto> fst (echo_steps 5 (new_ping, world0))]\<rparr>) = Inr v \<and>
     obj_at (jMeasurementResultsRttUdp v) ''num_sent'' = JStr (to_string_int 1) \<and>
     obj_at (jMeasurementResultsRttUdp v) ''num_received'' = JStr (to_string_int 1) \<and>
     obj_at (jMeasurementResultsRttUdp v) ''progress'' = JNum (1 / 30)"
proof -
  let ?t = "fst (echo_steps 5 (new_ping, world0))" and ?w1 = "snd (echo_steps 5 (new_ping, world0))"
  let ?w = "world0\<lparr>pingThread := Some 3, ping_heap := [3 \<mapsto> ?t]\<rparr>"
  have q: "readLong (lib0 Ios) () ''ias'' ''PING_QUERY'' 30 = 30" "(0::int) < 30" "(30::int) < 2147483646"
    by simp_all
  have r: "interleaved (ping_step (lib0 Ios)) stamped 5 (Ping_new (lib0 Ios) () ''ias'' ping0, world0) (?t, ?w1)"
    by (rule one_echo_run)
  have s: "past_setup ?t" "nReplies ?t = 1" "exchanges ?t = 1"
    by (simp_all add: one_echo past_setup_def exchanges_def)
  have h: "pingThread ?w = Some 3" "ping_heap ?w 3 = Some ?t" by simp_all
  show ?thesis
    using round_trips_published [OF q r s(1) h, of "''report''"] unfolding s(2,3) Let_def by auto
qed

end
