(* ===== verification/Messages.thy ===== *)
theory Messages
  imports System
begin

text \<open>
  The types of the messages. \<open>json\<close> values are untyped; here every message that
  \<open>CCallback::callbackToPlatform\<close> builds gets a schema: which keys it may have, which it must
  have, and what stands under each. \<open>natural\<close> and \<open>decimal\<close> are the strings of
  \<open>std::to_string\<close> for unsigned and signed numbers. \<open>typed\<close> is the invariant of the
  result objects from which the messages are made, preserved by the evaluation, the callback,
  the timer, the test threads and the main thread.
\<close>

section \<open>Schemas\<close>

definition natural :: "json \<Rightarrow> bool" where
  "natural j = (case j of JStr s \<Rightarrow> s \<noteq> [] \<and> list_all is_digit s | _ \<Rightarrow> False)"

definition decimal :: "json \<Rightarrow> bool" where
  "decimal j = (case j of JStr (c # s) \<Rightarrow> natural (JStr (c # s)) \<or> c = CHR ''-'' \<and> natural (JStr s)
     | _ \<Rightarrow> False)"

definition is_str :: "json \<Rightarrow> bool" where
  "is_str j = (case j of JStr _ \<Rightarrow> True | _ \<Rightarrow> False)"

definition is_number :: "json \<Rightarrow> bool" where
  "is_number j = (case j of JNum _ \<Rightarrow> True | _ \<Rightarrow> False)"

definition one_of :: "string list \<Rightarrow> json \<Rightarrow> bool" where
  "one_of ss j = (case j of JStr s \<Rightarrow> s \<in> set ss | _ \<Rightarrow> False)"

definition list_of :: "(json \<Rightarrow> bool) \<Rightarrow> json \<Rightarrow> bool" where
  "list_of P j = (case j of JArr js \<Rightarrow> list_all P js | _ \<Rightarrow> False)"

text \<open>An object whose keys are unique, known to the schema, and the required ones present.\<close>

type_synonym schema = "(string \<times> (json \<Rightarrow> bool)) list"

definition conforms :: "schema \<Rightarrow> string list \<Rightarrow> jobject \<Rightarrow> bool" where
  "conforms s req m \<longleftrightarrow> distinct (map fst m) \<and>
     list_all (\<lambda>(k, v). case map_of s k of Some P \<Rightarrow> P v | None \<Rightarrow> False) m \<and>
     list_all (\<lambda>k. k \<in> fst ` set m) req"

definition object_of :: "schema \<Rightarrow> string list \<Rightarrow> json \<Rightarrow> bool" where
  "object_of s req j = (case j of JObj m \<Rightarrow> conforms s req m | _ \<Rightarrow> False)"

lemmas kind_defs = natural_def is_str_def is_number_def one_of_def list_of_def object_of_def

lemma kinds [simp]:
  "natural (JStr (to_string_u64 x))" "decimal (JStr (to_string_int n))" "is_str (JStr s)"
  "is_number (JNum r)" "one_of ss (JStr s) = (s \<in> set ss)" "list_of P (JArr js) = list_all P js"
  "object_of sc req (JObj m) = conforms sc req m"
proof -
  have n: "natural (JStr (dec_nat k))" for k
    using dec_nat_digits [of k] dec_nat_Cons [of k] by (auto simp: natural_def)
  then show "natural (JStr (to_string_u64 x))" by (simp add: to_string_u64_def)
  obtain c cs where "dec_nat (nat n) = c # cs" using dec_nat_Cons [of "nat n"] by blast
  then show "decimal (JStr (to_string_int n))"
    using n [of "nat n"] n [of "nat (- n)"] by (simp add: to_string_int_def decimal_def)
qed (simp_all add: kind_defs)

lemma obj_put_keys: "fst ` set (obj_put k v m) = insert k (fst ` set m)"
proof (induction m)
  case (Cons x m)
  then show ?case by (cases x) (simp add: insert_commute)
qed simp

lemma obj_put_distinct: "distinct (map fst m) \<Longrightarrow> distinct (map fst (obj_put k v m))"
proof (induction m)
  case (Cons x m)
  then show ?case using obj_put_keys [of k v m] by (cases x) auto
qed simp

lemma obj_put_all:
  "P (k, v) \<Longrightarrow> list_all P m \<Longrightarrow> list_all P (obj_put k v m)"
  by (induction m) auto

lemma conforms_put:
  assumes "conforms s req m" "map_of s k = Some P" "P v"
  shows "conforms s req (obj_put k v m)" "conforms s (k # req) (obj_put k v m)"
proof -
  note k = obj_put_keys [of k v m]
  show "conforms s (k # req) (obj_put k v m)"
    using assms obj_put_distinct [of m k v]
      obj_put_all [of "\<lambda>(k, v). case map_of s k of Some P \<Rightarrow> P v | None \<Rightarrow> False" k v m]
    by (auto simp: conforms_def k list_all_iff)
  then show "conforms s req (obj_put k v m)" by (simp add: conforms_def)
qed

lemma conforms_empty [simp]: "conforms s [] []"
  by (simp add: conforms_def)

lemma conforms_at: "conforms s req m \<Longrightarrow> map_of s k = None \<Longrightarrow> obj_at m k = JNull"
proof -
  assume c: "conforms s req m" "map_of s k = None"
  have "map_of m k = None"
  proof (rule ccontr)
    assume "map_of m k \<noteq> None"
    then obtain v where "(k, v) \<in> set m" by (auto dest: map_of_SomeD)
    then show False using c by (auto simp: conforms_def list_all_iff)
  qed
  then show ?thesis by (simp add: obj_at_def)
qed

section \<open>The messages\<close>

definition step_schema :: schema where
  "step_schema = [(''bytes'', natural), (''bytes_distinct'', natural), (''bytes_slow_start'', natural),
     (''bytes_total'', natural), (''duration_ns'', natural), (''duration_ns_distinct'', natural),
     (''duration_ns_total'', natural), (''progress'', is_number), (''throughput_avg_bps'', natural),
     (''num_streams_start'', decimal), (''num_streams_end'', decimal),
     (''relative_time_ns_measurement_start'', natural)]"

definition stream_schema :: schema where
  "stream_schema = [(''stream_id'', is_number), (''bytes'', natural), (''bytes_distinct'', natural),
     (''bytes_slow_start'', natural), (''bytes_total'', natural), (''relative_time_ns'', decimal),
     (''relative_time_ns_distinct'', decimal), (''relative_time_ns_total'', natural),
     (''relative_time_ns_measurement_start'', natural)]"

definition rtts_schema :: schema where
  "rtts_schema = [(''rtt_ns'', is_number), (''relative_time_ns_measurement_start'', natural)]"

definition rtt_schema :: schema where
  "rtt_schema = [(''duration_ns'', natural), (''average_ns'', natural), (''median_ns'', natural),
     (''min_ns'', natural), (''max_ns'', natural), (''num_sent'', decimal), (''num_received'', decimal),
     (''num_error'', decimal), (''num_missing'', decimal), (''packet_size'', decimal),
     (''standard_deviation_ns'', natural),
     (''rtts'', list_of (object_of rtts_schema (map fst rtts_schema))), (''progress'', is_number)]"

text \<open>
  The report of the reference server, and the IP results made of it: always with the client's address and
  IP version. \<open>tls_overhead\<close> may be the null that a read of it leaves behind, and stands alone when
  there was no report.
\<close>

definition report_schema :: schema where
  "report_schema = [(''client'', is_str), (''client_ip_version'', one_of [''v4'', ''v6'']),
     (''tls_version'', is_str), (''tls_cipher_suite'', is_str), (''tls_overhead'', is_str)]"

definition ip_schema :: schema where
  "ip_schema = [(''client'', is_str), (''client_ip_version'', one_of [''v4'', ''v6'']),
     (''tls_version'', is_str), (''tls_cipher_suite'', is_str),
     (''tls_overhead'', \<lambda>j. j = JNull \<or> is_str j)]"

definition report_ok :: "jobject \<Rightarrow> bool" where
  "report_ok m \<longleftrightarrow> m = [] \<or> conforms report_schema [''client'', ''client_ip_version''] m"

definition ip_ok :: "jobject \<Rightarrow> bool" where
  "ip_ok m \<longleftrightarrow> conforms ip_schema [''client'', ''client_ip_version''] m \<or>
     conforms [(''tls_overhead'', \<lambda>j. j = JNull)] [] m"

definition ip_json :: "json \<Rightarrow> bool" where
  "ip_json j = (case j of JObj m \<Rightarrow> ip_ok m | _ \<Rightarrow> False)"

definition time_schema :: schema where
  "time_schema = [(''measurement_start'', decimal), (''measurement_end'', natural),
     (''ip_start'', natural), (''ip_end'', natural), (''rtt_udp_start'', natural),
     (''rtt_udp_end'', natural), (''download_start'', natural), (''download_end'', natural),
     (''upload_start'', natural), (''upload_end'', natural)]"

definition peer_schema :: schema where
  "peer_schema = [(''url'', is_str), (''port'', is_str), (''tls'', is_str), (''ip'', is_str)]"

definition test_names :: "string list" where
  "test_names = ['''', ''ip'', ''rtt_udp'', ''download'', ''upload'']"

definition message_commands :: "string list" where
  "message_commands = [''started'', ''info'', ''report'', ''finish'', ''completed'', ''error'']"

definition step_ok :: "json \<Rightarrow> bool" where
  "step_ok = object_of step_schema (map fst step_schema)"

definition stream_ok :: "json \<Rightarrow> bool" where
  "stream_ok = object_of stream_schema (map fst stream_schema)"

definition message_schema :: schema where
  "message_schema = [(''cmd'', one_of message_commands), (''msg'', is_str),
     (''test_case'', one_of test_names), (''error_code'', is_number), (''error_description'', is_str),
     (''ip_info'', ip_json), (''rtt_udp_info'', object_of rtt_schema (map fst rtt_schema)),
     (''download_info'', list_of step_ok), (''download_raw_data'', list_of stream_ok),
     (''upload_info'', list_of step_ok), (''upload_raw_data'', list_of stream_ok),
     (''time_info'', object_of time_schema [''measurement_start'']),
     (''peer_info'', object_of peer_schema [''url'', ''port'', ''tls''])]"

definition message_ok :: "jobject \<Rightarrow> bool" where
  "message_ok = conforms message_schema [''cmd'', ''msg'', ''test_case'', ''time_info'']"

definition event_ok :: "out_event \<Rightarrow> bool" where
  "event_ok e = (case e of PlatformCallback m \<Rightarrow> message_ok m | PlatformFinished m \<Rightarrow> message_ok m
     | IosCallback m \<Rightarrow> message_ok m | DebugDump m \<Rightarrow> message_ok m | DetachThread \<Rightarrow> True)"

lemma report_ip_simps [simp]: "report_ok []" "ip_ok []" "ip_json (JObj m) = ip_ok m"
  by (simp_all add: report_ok_def ip_ok_def ip_json_def conforms_def)

section \<open>The objects of the evaluation\<close>

lemma digits_lit [simp]:
  "natural (JStr ''500000000'')" "decimal (JStr ''0'')"
  by (simp_all add: natural_def decimal_def is_digit_def)

lemma stream_object_ok: "stream_ok (JObj (stream_object sid b bd ss rt step ms current start))"
  by (simp add: stream_ok_def stream_object_def conforms_def stream_schema_def)

lemma aggregate_ok:
  "conforms step_schema [''bytes'', ''bytes_slow_start'', ''bytes_total'', ''duration_ns'',
     ''duration_ns_distinct'', ''duration_ns_total'', ''progress'', ''throughput_avg_bps'',
     ''num_streams_start'', ''num_streams_end'']
     (getMeasurementResultsAggregate instances streams data cmd)"
  by (simp add: getMeasurementResultsAggregate_def conforms_def step_schema_def)

lemma conforms_required: "conforms s r m \<Longrightarrow> set r' \<subseteq> set r \<Longrightarrow> conforms s r' m"
  by (auto simp: conforms_def list_all_iff)

lemma step_object_ok: "step_ok (JObj (step_object lib cmd secs a w))"
proof -
  let ?o = "step_object lib cmd secs a w"
  have k: "map_of step_schema ''relative_time_ns_measurement_start'' = Some natural"
    "map_of step_schema ''bytes_distinct'' = Some natural"
    by (simp_all add: step_schema_def)
  have "conforms step_schema ([''relative_time_ns_measurement_start'', ''bytes_distinct''] @
      [''bytes'', ''bytes_slow_start'', ''bytes_total'', ''duration_ns'', ''duration_ns_distinct'',
       ''duration_ns_total'', ''progress'', ''throughput_avg_bps'', ''num_streams_start'',
       ''num_streams_end'']) ?o"
    unfolding step_object_def append.simps
    by (intro conforms_put(2) [OF _ k(1)] conforms_put(2) [OF _ k(2)] aggregate_ok kinds(1))
  then have "conforms step_schema (map fst step_schema) ?o"
    by (rule conforms_required) (simp add: step_schema_def)
  then show ?thesis by (simp add: step_ok_def)
qed

lemma rtt_list_ok:
  "list_all (object_of rtts_schema (map fst rtts_schema)) (rtt_list stamps i rs)"
  by (induction stamps i rs rule: rtt_list.induct) (simp_all add: rtts_schema_def conforms_def)

lemma rtt_object_ok: "conforms rtt_schema (map fst rtt_schema) (rtt_object m (rtt_list stamps i rs))"
  by (simp add: rtt_object_def rtt_schema_def conforms_def rtt_list_ok)

section \<open>The results that the messages are made of\<close>

text \<open>What was sent, what the IP test threads hold, and the name of the test case.\<close>

definition messages_ok :: "'c world \<Rightarrow> bool" where
  "messages_ok w \<longleftrightarrow> list_all event_ok (out w) \<and> conf_sTestName w \<in> set test_names \<and>
     (\<forall>p t. ip_heap w p = Some t \<longrightarrow> report_ok (ipResults t))"

definition results_typed :: "'c world \<Rightarrow> bool" where
  "results_typed w \<longleftrightarrow> ip_ok (jMeasurementResultsIp w) \<and>
     (jMeasurementResultsRttUdp w = [] \<or> conforms rtt_schema (map fst rtt_schema) (jMeasurementResultsRttUdp w)) \<and>
     list_all step_ok (jMeasurementResultsDownload w) \<and>
     list_all stream_ok (jMeasurementResultsDownloadStreams w) \<and>
     list_all step_ok (jMeasurementResultsUpload w) \<and>
     list_all stream_ok (jMeasurementResultsUploadStreams w) \<and>
     conforms time_schema [''measurement_start''] (jMeasurementResultsTime w) \<and>
     (jMeasurementResultsPeer w = [] \<or> conforms peer_schema [''url'', ''port'', ''tls''] (jMeasurementResultsPeer w))"

definition typed :: "'c world \<Rightarrow> bool" where
  "typed w \<longleftrightarrow> results_typed w \<and> messages_ok w"

text \<open>Inside the callback the peer is known.\<close>

definition reporting :: "'c world \<Rightarrow> bool" where
  "reporting w \<longleftrightarrow> typed w \<and> jMeasurementResultsPeer w \<noteq> []"

lemmas typing_defs = typed_def results_typed_def messages_ok_def

lemma typed_updates [simp]:
  "typed (w\<lparr>clock_pos := n\<rparr>) = typed w" "typed (w\<lparr>trace := tr\<rparr>) = typed w"
  "typed (w\<lparr>dl_heap := h3\<rparr>) = typed w" "typed (w\<lparr>ul_heap := h4\<rparr>) = typed w"
  "typed (w\<lparr>ping_heap := h2\<rparr>) = typed w" "typed (w\<lparr>timer := t\<rparr>) = typed w"
  "typed (w\<lparr>main_pc := pc\<rparr>) = typed w" "typed (w\<lparr>hasError := b\<rparr>) = typed w"
  "typed (w\<lparr>STREAMS_DROPPED := b\<rparr>) = typed w" "typed (w\<lparr>RUNNING := b\<rparr>) = typed w"
  "typed (w\<lparr>TIMER_STOPPED := b\<rparr>) = typed w" "typed (w\<lparr>TIMER_RUNNING := b\<rparr>) = typed w"
  "typed (w\<lparr>TIMER_ACTIVE := b\<rparr>) = typed w" "typed (w\<lparr>TIMER_DURATION := i\<rparr>) = typed w"
  "typed (w\<lparr>TIMER_INDEX := i\<rparr>) = typed w" "typed (w\<lparr>PERFORMED_IP := b\<rparr>) = typed w"
  "typed (w\<lparr>PERFORMED_RTT := b\<rparr>) = typed w" "typed (w\<lparr>PERFORMED_DOWNLOAD := b\<rparr>) = typed w"
  "typed (w\<lparr>PERFORMED_UPLOAD := b\<rparr>) = typed w" "typed (w\<lparr>currentTestPhase := ph\<rparr>) = typed w"
  "typed (w\<lparr>next_ptr := k\<rparr>) = typed w" "typed (w\<lparr>mTestCase := i\<rparr>) = typed w"
  "typed (w\<lparr>syncing_threads := sy\<rparr>) = typed w" "typed (w\<lparr>vDownloadThreads := ps\<rparr>) = typed w"
  "typed (w\<lparr>vUploadThreads := ps\<rparr>) = typed w" "typed (w\<lparr>ipThread := po\<rparr>) = typed w"
  "typed (w\<lparr>pingThread := po\<rparr>) = typed w" "typed (w\<lparr>MEASUREMENT_DURATION := d\<rparr>) = typed w"
  "typed (w\<lparr>measurements_streams := i\<rparr>) = typed w" "typed (w\<lparr>measurements_upload_datasize := d\<rparr>) = typed w"
  "typed (w\<lparr>randomDataValues_size := d\<rparr>) = typed w" "typed (w\<lparr>conf_nTestCase := i\<rparr>) = typed w"
  "typed (w\<lparr>conf_instances := i\<rparr>) = typed w" "typed (w\<lparr>TIMER_INDEX_UPLOAD_FIRST := i\<rparr>) = typed w"
  "typed (set_pc tpc w) = typed w"
  by (simp_all add: typing_defs set_pc_def)

lemma reporting_updates [simp]:
  "reporting (w\<lparr>clock_pos := n\<rparr>) = reporting w" "reporting (w\<lparr>dl_heap := h3\<rparr>) = reporting w"
  "reporting (w\<lparr>ul_heap := h4\<rparr>) = reporting w" "reporting (w\<lparr>ping_heap := h2\<rparr>) = reporting w"
  "reporting (w\<lparr>hasError := b\<rparr>) = reporting w" "reporting (w\<lparr>STREAMS_DROPPED := b\<rparr>) = reporting w"
  "reporting (w\<lparr>TIMER_STOPPED := b\<rparr>) = reporting w"
  "reporting (w\<lparr>PERFORMED_IP := b\<rparr>) = reporting w" "reporting (w\<lparr>PERFORMED_RTT := b\<rparr>) = reporting w"
  "reporting (w\<lparr>PERFORMED_DOWNLOAD := b\<rparr>) = reporting w" "reporting (w\<lparr>PERFORMED_UPLOAD := b\<rparr>) = reporting w"
  by (simp_all add: reporting_def)

abbreviation times_ok :: "jobject \<Rightarrow> bool" where
  "times_ok m \<equiv> conforms time_schema [''measurement_start''] m"

abbreviation peer_ok :: "jobject \<Rightarrow> bool" where
  "peer_ok m \<equiv> conforms peer_schema [''url'', ''port'', ''tls''] m"

lemma typed_put:
  "typed w \<Longrightarrow> times_ok m \<Longrightarrow> typed (w\<lparr>jMeasurementResultsTime := m\<rparr>)"
  "reporting w \<Longrightarrow> times_ok m \<Longrightarrow> reporting (w\<lparr>jMeasurementResultsTime := m\<rparr>)"
  "reporting w \<Longrightarrow> peer_ok m \<Longrightarrow> reporting (w\<lparr>jMeasurementResultsPeer := m\<rparr>)"
  by (auto simp: typing_defs reporting_def conforms_def)

lemma typed_parts:
  "typed w \<Longrightarrow> times_ok (jMeasurementResultsTime w)" "reporting w \<Longrightarrow> times_ok (jMeasurementResultsTime w)"
  "reporting w \<Longrightarrow> peer_ok (jMeasurementResultsPeer w)"
  by (auto simp: typing_defs reporting_def)

lemma put_ok:
  "times_ok m \<Longrightarrow> map_of time_schema k = Some natural \<Longrightarrow> times_ok (obj_put k (JStr (to_string_u64 x)) m)"
  "peer_ok m \<Longrightarrow> peer_ok (obj_put ''ip'' (JStr s) m)"
  by (simp_all add: conforms_put(1)) (simp add: conforms_put(1) [where P = is_str] peer_schema_def)

lemma time_keys [simp]:
  "map_of time_schema ''measurement_end'' = Some natural" "map_of time_schema ''ip_start'' = Some natural"
  "map_of time_schema ''ip_end'' = Some natural" "map_of time_schema ''rtt_udp_start'' = Some natural"
  "map_of time_schema ''rtt_udp_end'' = Some natural" "map_of time_schema ''download_start'' = Some natural"
  "map_of time_schema ''download_end'' = Some natural" "map_of time_schema ''upload_start'' = Some natural"
  "map_of time_schema ''upload_end'' = Some natural"
  by (simp_all add: time_schema_def)

section \<open>The evaluation\<close>

lemma stamp_stream_typed:
  assumes "stamp_stream sk ek cmd current t w = (t', w')" "reporting w"
    and "map_of time_schema sk = Some natural" "map_of time_schema ek = Some natural"
  shows "reporting w'"
  using assms
  by (auto simp: stamp_stream_def get_timestamp_def Let_def intro!: typed_put put_ok typed_parts split: if_splits)

lemma read_stream_typed:
  assumes "read_stream lib cmd current p w = Inr (x, v)" "reporting w"
  shows "reporting v"
proof -
  consider "conf_sTestName w = ''download''" | "conf_sTestName w = ''upload''"
    | "conf_sTestName w \<noteq> ''download''" "conf_sTestName w \<noteq> ''upload''" by blast
  then show ?thesis
  proof cases
    case 1
    then obtain d where d: "dl_heap w p = Some d" using assms by (auto simp: read_stream_def res_simps)
    obtain d' w' where s: "stamp_stream ''download_start'' ''download_end'' cmd current d w = (d', w')" by fastforce
    have "v = w'\<lparr>dl_heap := (dl_heap w')(p \<mapsto> d')\<rparr>" using assms(1) 1 d s by (simp add: read_stream_def deref_def)
    then show ?thesis using stamp_stream_typed [OF s assms(2)] by simp
  next
    case 2
    then obtain u where u: "ul_heap w p = Some u" using assms by (auto simp: read_stream_def res_simps)
    obtain u' w' where s: "stamp_stream ''upload_start'' ''upload_end'' cmd current u w = (u', w')" by fastforce
    have "v = w'\<lparr>ul_heap := (ul_heap w')(p \<mapsto> u')\<rparr>" using assms(1) 2 u s by (simp add: read_stream_def deref_def)
    then show ?thesis using stamp_stream_typed [OF s assms(2)] by simp
  qed (use assms in \<open>simp add: read_stream_def\<close>)
qed

lemma calc_thread_typed:
  assumes "calc_thread lib cmd current ms step p (a, per, w) = Inr (a', per', v)"
    and "reporting w" "list_all stream_ok per"
  shows "reporting v \<and> list_all stream_ok per'"
proof (cases "read_stream lib cmd current p w")
  case (Inr y)
  obtain data slow rel counts w1 where y: "y = ((data, slow, rel, counts), w1)" by (cases y) auto
  have "v = w1" "list_all stream_ok per'" using assms
    by (simp_all add: calc_thread_def Inr y Let_def case_prod_beta) (auto simp: res_simps stream_object_ok)
  then show ?thesis using read_stream_typed Inr y assms(2) by blast
qed (use assms in \<open>simp add: calc_thread_def\<close>)

lemma calc_threads_typed:
  "calc_threads lib cmd current ms step ps (a, per, w) = Inr (a', per', v) \<Longrightarrow>
     reporting w \<Longrightarrow> list_all stream_ok per \<Longrightarrow> reporting v \<and> list_all stream_ok per'"
proof (induction ps arbitrary: a per w)
  case (Cons p ps)
  then obtain b q u where "calc_thread lib cmd current ms step p (a, per, w) = Inr (b, q, u)"
    "calc_threads lib cmd current ms step ps (b, q, u) = Inr (a', per', v)"
    by (auto simp: res_bind_Inr_iff)
  then show ?case using Cons calc_thread_typed by metis
qed simp

lemma end_step_typed:
  assumes "end_step lib cmd res (a, per, w) = (res', per', v)"
    and "reporting w" "list_all step_ok res" "list_all stream_ok per"
  shows "reporting v \<and> list_all step_ok res' \<and> list_all stream_ok per'"
  using assms by (auto simp: end_step_def Let_def step_object_ok split: if_splits)

lemma calc_step_typed:
  assumes "calc_step lib cmd ms ps step (res, per, w) = Inr (res', per', v)"
    and "reporting w" "list_all step_ok res" "list_all stream_ok per"
  shows "reporting v \<and> list_all step_ok res' \<and> list_all stream_ok per'"
proof -
  obtain a q u where c: "calc_threads lib cmd (clock w (clock_pos w)) ms step ps
      (new_acc lib, per, w\<lparr>clock_pos := Suc (clock_pos w)\<rparr>) = Inr (a, q, u)"
    "end_step lib cmd res (a, q, u) = (res', per', v)"
    using assms by (auto simp: calc_step_def get_timestamp_def res_map_Inr_iff)
  show ?thesis using calc_threads_typed [OF c(1)] end_step_typed [OF c(2)] assms(2-4) by simp
qed

lemma calc_steps_typed:
  "calc_steps lib cmd ms ps steps (res, per, w) = Inr (res', per', v) \<Longrightarrow>
     reporting w \<Longrightarrow> list_all step_ok res \<Longrightarrow> list_all stream_ok per \<Longrightarrow>
     reporting v \<and> list_all step_ok res' \<and> list_all stream_ok per'"
proof (induction steps arbitrary: res per w)
  case (Cons step steps)
  then obtain b q u where "calc_step lib cmd ms ps step (res, per, w) = Inr (b, q, u)"
    "calc_steps lib cmd ms ps steps (b, q, u) = Inr (res', per', v)"
    by (auto simp: res_bind_Inr_iff)
  then show ?case using Cons calc_step_typed by metis
qed simp

lemma calculate_typed:
  assumes "calculateMeasurementResultsDownloadUpload lib cmd ps w = Inr v" "reporting w"
  shows "reporting v"
proof -
  obtain res per u where c: "calc_steps lib cmd (max_steps_of w) ps [1..max_steps_of w] ([], [], w) = Inr (res, per, u)"
    "publish_results (res, per, u) = Inr v"
    using assms by (auto simp: calculateMeasurementResultsDownloadUpload_def res_bind_Inr_iff Let_def)
  have "reporting u" "list_all step_ok res" "list_all stream_ok per"
    using calc_steps_typed [OF c(1) assms(2)] by simp_all
  then show ?thesis using c(2)
    by (auto simp: publish_results_def Let_def res_map_Inr_iff reporting_def typing_defs split: if_splits)
qed

section \<open>The message\<close>

lemma put_parts:
  assumes "conforms s r m" "map_of s k = Some P"
  shows "v = [] \<or> P (JObj v) \<Longrightarrow> conforms s r (put_obj k v m)"
    "u = [] \<or> P (JArr u) \<Longrightarrow> conforms s r (put_arr k u m)"
    "v \<noteq> [] \<Longrightarrow> P (JObj v) \<Longrightarrow> conforms s (k # r) (put_obj k v m)"
  using assms conforms_put [OF assms] by (auto simp: put_obj_def put_arr_def)

lemma message_keys:
  "map_of message_schema ''cmd'' = Some (one_of message_commands)"
  "map_of message_schema ''msg'' = Some is_str"
  "map_of message_schema ''test_case'' = Some (one_of test_names)"
  "map_of message_schema ''error_code'' = Some is_number"
  "map_of message_schema ''error_description'' = Some is_str"
  "map_of message_schema ''ip_info'' = Some ip_json"
  "map_of message_schema ''rtt_udp_info'' = Some (object_of rtt_schema (map fst rtt_schema))"
  "map_of message_schema ''download_info'' = Some (list_of step_ok)"
  "map_of message_schema ''download_raw_data'' = Some (list_of stream_ok)"
  "map_of message_schema ''upload_info'' = Some (list_of step_ok)"
  "map_of message_schema ''upload_raw_data'' = Some (list_of stream_ok)"
  "map_of message_schema ''time_info'' = Some (object_of time_schema [''measurement_start''])"
  "map_of message_schema ''peer_info'' = Some (object_of peer_schema [''url'', ''port'', ''tls''])"
  by (simp_all add: message_schema_def)

lemma platform_message_ok:
  assumes "typed w" "cmd \<in> set message_commands"
  shows "message_ok (platform_message cmd msg code descr w)"
proof -
  have t: "jMeasurementResultsTime w \<noteq> []"
    using typed_parts(1) [OF assms(1)] by (auto simp: conforms_def)
  note k = message_keys
  have m0: "conforms message_schema [''test_case'', ''msg'', ''cmd'']
      (obj_put ''test_case'' (JStr (conf_sTestName w)) (obj_put ''msg'' (JStr msg) (obj_put ''cmd'' (JStr cmd) [])))"
    by (intro conforms_put(2) [OF _ k(3)] conforms_put(2) [OF _ k(2)] conforms_put(2) [OF _ k(1)])
      (use assms in \<open>simp_all add: typing_defs\<close>)
  have m1: "conforms message_schema r
      (if code \<noteq> 0 then obj_put ''error_description'' (JStr descr) (obj_put ''error_code'' (JNum (of_int code)) m)
       else m)" if "conforms message_schema r m" for r m
    using conforms_put(1) [OF conforms_put(1) [OF that k(4)] k(5)] that by simp
  have "conforms message_schema [''time_info'', ''test_case'', ''msg'', ''cmd'']
      (platform_message cmd msg code descr w)"
    unfolding platform_message_def Let_def
    by (intro put_parts(1) [OF _ k(13)] put_parts(3) [OF _ k(12)] put_parts(2) [OF _ k(11)] put_parts(2) [OF _ k(10)]
        put_parts(2) [OF _ k(9)] put_parts(2) [OF _ k(8)] put_parts(1) [OF _ k(7)] put_parts(1) [OF _ k(6)]
        m1 m0 t) (use assms(1) in \<open>simp_all add: typing_defs\<close>)
  then show ?thesis unfolding message_ok_def by (rule conforms_required) auto
qed

lemma platform_events_ok: "message_ok m \<Longrightarrow> list_all event_ok (platform_events lib cmd m w)"
  by (simp add: platform_events_def event_ok_def split: build_target.split)

lemma callbackToPlatform_typed:
  assumes "typed w" "cmd \<in> set message_commands"
  shows "typed (callbackToPlatform lib cmd msg code descr w)"
  using platform_events_ok [OF platform_message_ok [OF assms]] assms(1)
  by (simp add: callbackToPlatform_def Let_def typing_defs)

section \<open>The callback\<close>

lemma report_ip: "report_ok m \<Longrightarrow> ip_ok m"
  by (auto simp: report_ok_def ip_ok_def conforms_def list_all_iff report_schema_def ip_schema_def split: if_splits)

lemma typed_ip:
  "typed w \<Longrightarrow> ip_heap w p = Some t \<Longrightarrow> report_ok (ipResults t)"
  "reporting w \<Longrightarrow> ip_heap w = h \<Longrightarrow> report_ok (ipResults t) \<Longrightarrow>
     reporting (w\<lparr>ip_heap := h(p \<mapsto> t)\<rparr>)"
  "typed w \<Longrightarrow> ip_heap w = h \<Longrightarrow> report_ok (ipResults t) \<Longrightarrow>
     typed (w\<lparr>ip_heap := h(p \<mapsto> t)\<rparr>)"
  "reporting w \<Longrightarrow> ip_ok m \<Longrightarrow> reporting (w\<lparr>jMeasurementResultsIp := m\<rparr>)"
  by (auto simp: typing_defs reporting_def)

lemma no_client_v4: "typed w \<Longrightarrow> obj_at (jMeasurementResultsIp w) ''client_v4'' = JNull"
  using conforms_at [of ip_schema] conforms_at [of "[(''tls_overhead'', \<lambda>j. j = JNull)]"]
  by (auto simp: typing_defs ip_ok_def ip_schema_def)

lemma ipCallback_typed:
  assumes "ipCallback cmd w = Inr v" "reporting w"
  shows "reporting v"
proof -
  obtain p t where t: "deref (ip_heap w) (ipThread w) = Inr (p, t)" "ip_heap w p = Some t"
    using assms by (auto simp: ipCallback_def res_simps)
  have c: "report_ok (ipResults t)" "obj_at (jMeasurementResultsIp w) ''client_v4'' = JNull"
    using typed_ip(1) [OF _ t(2)] no_client_v4 assms(2) by (auto simp: reporting_def)
  show ?thesis
    using assms c
    by (auto simp: ipCallback_def t(1) get_timestamp_def Let_def
        intro!: typed_put put_ok typed_parts typed_ip(2,4) report_ip split: if_splits)
qed

lemma rttUdpCallback_typed:
  assumes "rttUdpCallback lib cmd w = Inr v" "reporting w"
  shows "reporting v"
proof -
  obtain p t where t: "deref (ping_heap w) (pingThread w) = Inr (p, t)"
    using assms by (auto simp: rttUdpCallback_def res_simps)
  have r: "reporting (u\<lparr>jMeasurementResultsRttUdp := rtt_object m (rtt_list s i rs)\<rparr>) = reporting (u\<lparr>jMeasurementResultsRttUdp := []\<rparr>)"
    for u :: "'a world" and m s i rs
    using rtt_object_ok [of m s i rs] by (simp add: reporting_def typing_defs)
  have e: "reporting (u\<lparr>jMeasurementResultsRttUdp := []\<rparr>)" if "reporting u" for u :: "'a world"
    using that by (auto simp: reporting_def typing_defs)
  show ?thesis
    using assms
    by (auto simp: rttUdpCallback_def t get_timestamp_def Let_def r
        intro!: e typed_put put_ok typed_parts split: if_splits)
qed

lemma callback_typed:
  assumes "callback lib cmd msg code descr w = Inr v" "typed w" "cmd \<in> set message_commands"
  shows "typed v"
proof -
  let ?w = "init_peer (w\<lparr>trace := trace w @ [(cmd, msg)]\<rparr>)"
  have i: "reporting ?w"
    using assms(2) by (auto simp: init_peer_def reporting_def typing_defs conforms_def peer_schema_def)
  have s: "typed (stamp_end u)" if "typed u" for u :: "'a world"
    using that by (auto simp: stamp_end_def get_timestamp_def Let_def intro!: typed_put(1) put_ok typed_parts(1))
  have f: "''completed'' \<in> set message_commands" by (simp add: message_commands_def)
  have r: "typed (report_to_platform lib cmd msg code descr u)" if "typed u" for u
  proof -
    let ?x = "callbackToPlatform lib cmd msg code descr (stamp_end u)"
    have x: "typed ?x" by (rule callbackToPlatform_typed [OF s [OF that] assms(3)])
    then have "typed (?x\<lparr>currentTestPhase := END\<rparr>)" by simp
    from callbackToPlatform_typed [OF this f] x show ?thesis
      unfolding report_to_platform_def Let_def by (split if_split) blast
  qed
  have t: "reporting u" if "test_case_callback lib cmd ?w = Inr u" for u
    using that i by (auto simp: test_case_callback_def res_map_Inr_iff downloadCallback_def uploadCallback_def
        dest!: ipCallback_typed rttUdpCallback_typed calculate_typed split: if_splits)
  show ?thesis
    using assms(1) t i r by (auto simp: callback_def Let_def res_map_Inr_iff reporting_def split: if_split_asm)
qed

section \<open>The threads\<close>

lemma timer_step_typed:
  assumes "timer_step lib w = Inr v" "typed w"
  shows "typed v"
proof -
  have c: "''info'' \<in> set message_commands" "''report'' \<in> set message_commands"
    "''finish'' \<in> set message_commands" "''error'' \<in> set message_commands"
    by (simp_all add: message_commands_def)
  note cb = callback_typed [OF _ _ c(1)] callback_typed [OF _ _ c(2)] callback_typed [OF _ _ c(3)]
  have s: "typed x" if "signal_error lib msg code pc u = Inr x" "typed u" for msg code pc u x
    using that callback_typed [OF _ _ c(4)] by (auto simp: signal_error_def res_map_Inr_iff)
  have a: "typed (advance_timer u) = typed u" for u by (simp add: advance_timer_def get_timestamp_def Let_def)
  show ?thesis
  proof (cases "timer_pc (timer w)")
    case TimerOuter
    then show ?thesis
      using assms by (auto simp: timer_step_def outer_step_def res_map_Inr_iff dest!: cb s split: if_split_asm)
  next
    case TimerBody
    then have "body_step lib w = Inr v" using assms(1) by (simp add: timer_step_def)
    then show ?thesis using assms(2)
      by (auto simp: body_step_def Let_def res_map_Inr_iff a dest!: cb s split: if_split_asm)
  qed (use assms in \<open>auto simp: timer_step_def delay_step_def inner_step_def left_step_def get_timestamp_def
      res_map_Inr_iff dest!: cb split: if_split_asm\<close>)
qed

lemma worker_effect_typed:
  assumes "worker_effect w v"
  shows "typed v = typed w" "ip_heap v = ip_heap w"
proof -
  have e: "erase_worker v = erase_worker w" using assms by (simp add: worker_effect_def)
  have "typed (erase_worker u) = typed u" for u :: "'a world"
    by (simp add: erase_worker_def typing_defs)
  then show "typed v = typed w" using e by metis
  show "ip_heap v = ip_heap w" using arg_cong [OF e, of ip_heap] by (simp add: erase_worker_def)
qed

lemma put_string_ok:
  "conforms report_schema r m \<Longrightarrow> map_of report_schema k = Some is_str \<Longrightarrow>
     conforms report_schema r (put_string k j m)"
  unfolding put_string_def by (rule conforms_put(1) [where P = is_str]) simp_all

lemma put_client_ok: "report_ok m \<Longrightarrow> conforms report_schema [''client''] (put_string ''client'' j m)"
  unfolding put_string_def report_ok_def
  by (rule conforms_put(2) [where P = is_str]) (auto simp: report_schema_def intro: conforms_required)

lemma report_keys [simp]:
  "map_of report_schema ''client'' = Some is_str" "map_of report_schema ''tls_version'' = Some is_str"
  "map_of report_schema ''tls_cipher_suite'' = Some is_str"
  "map_of report_schema ''tls_overhead'' = Some is_str"
  "map_of report_schema ''client_ip_version'' = Some (one_of [''v4'', ''v6''])"
  by (simp_all add: report_schema_def)

lemma ip_step_report:
  assumes "ip_step lib e (t, w) = Inr (t', v)" "report_ok (ipResults t)"
  shows "report_ok (ipResults t')"
proof (cases "run_pc t")
  case RunEntry
  obtain t1 w1 where c: "connect_stream lib id (te_conn e) t w = (t1, w1)"
    by (cases "connect_stream lib id (te_conn e) t w")
  have "ipResults t1 = ipResults t" using c
    by (auto simp: connect_stream_def get_timestamp_def Let_def split: if_splits)
  then show ?thesis using assms RunEntry by (auto simp: ip_step_def ip_setup_def c split: if_splits)
next
  case RunReceive
  have r: "report_ok (ipResults t')"
    if "ip_report lib j (u, x) = (t', v)" "report_ok (ipResults u)" for j u x
  proof -
    let ?v = "obj_put ''client_ip_version'' (JStr (if ipv6validated u then ''v6'' else ''v4''))"
    have "conforms report_schema [''client_ip_version'', ''client''] (?v r)" if "conforms report_schema [''client''] r" for r
      by (rule conforms_put(2) [OF that report_keys(5)]) simp
    note conforms_required [OF this]
    then have "conforms report_schema [''client'', ''client_ip_version''] (?v r)"
      if "conforms report_schema [''client''] r" for r
      using that by simp
    then show ?thesis
      using that put_client_ok [of "ipResults u" j]
      by (auto simp: ip_report_def Let_def report_ok_def [of "ipResults t'"] put_string_ok split: if_splits)
  qed
  show ?thesis using assms RunReceive by (auto simp: ip_step_def ip_receive_def c_string_def Let_def dest!: r split: if_splits)
qed (use assms in \<open>auto simp: ip_step_def ip_guard_def split: if_splits\<close>)

lemma threads_step_typed:
  assumes "threads_step lib w v" "typed w"
  shows "typed v"
  using assms
proof (induction rule: threads_step.induct)
  case (ip w p t e t' v)
  note e = worker_effect_typed [OF ipt.effect [OF ip(2)]]
  have "report_ok (ipResults t')"
    using ip_step_report [OF ip(2)] typed_ip(1) [OF ip(3,1)] by blast
  then show ?case using e ip(3) by (intro typed_ip(3)) simp_all
next
  case (stop w)
  then show ?case by (simp add: measurementStop_def shutdown_def Let_def)
next
  case (ping w p t pe t' v)
  then show ?case using worker_effect_typed(1) [OF pg.effect [OF ping(2)]] by simp
next
  case (download w p t e t' v)
  then show ?case using worker_effect_typed(1) [OF dl.effect [OF download(2)]] by simp
next
  case (upload w p t e t' v)
  then show ?case using worker_effect_typed(1) [OF ul.effect [OF upload(2)]] by simp
qed

section \<open>The main thread\<close>

lemma tls_overhead_typed:
  assumes "tls_overhead_of lib provider w = (n, v)" "typed w"
  shows "typed v"
proof -
  have "map_of ip_schema ''tls_overhead'' = Some (\<lambda>j. j = JNull \<or> is_str j)" by (simp add: ip_schema_def)
  note conforms_put(1) [OF _ this]
  moreover have "map_of [(''tls_overhead'', \<lambda>j. j = JNull)] ''tls_overhead'' = Some (\<lambda>j. j = JNull)" by simp
  note conforms_put(1) [OF _ this]
  ultimately have "ip_ok (obj_touch ''tls_overhead'' (jMeasurementResultsIp w))"
    using assms(2) by (auto simp: obj_touch_def typing_defs ip_ok_def split: option.split)
  then show ?thesis using assms by (auto simp: tls_overhead_of_def Let_def typing_defs split: if_splits)
qed

lemma spawn_typed:
  "spawn_downloads lib od creates i n (ps, w) = (ok, qs, v) \<Longrightarrow> typed v = typed w"
  "spawn_uploads lib ou creates i n (ps, w) = (ok, qs, v) \<Longrightarrow> typed v = typed w"
proof (induction n arbitrary: i ps w)
  case (Suc n)
  { case 1
    then show ?case using Suc.IH(1) by (fastforce simp: Let_def split: if_splits) }
  { case 2
    then show ?case using Suc.IH(2) by (fastforce simp: Let_def split: if_splits) }
qed auto

lemma begin_test_typed:
  assumes "typed w"
  shows "typed (begin_test lib raw creates provider tc w)"
proof -
  have i: "typed (u\<lparr>ip_heap := h(p \<mapsto> Ip_new lib xml provider r)\<rparr>)" if "typed u" "ip_heap u = h"
    for u :: "'a world" and h p xml r
    using that by (intro typed_ip(3)) (simp_all add: Ip_new_def)
  show ?thesis
    using assms
    by (auto simp: begin_test_def Let_def intro!: i dest!: spawn_typed tls_overhead_typed split: prod.splits)
qed

lemma delete_threads_typed: "typed w \<Longrightarrow> typed (delete_threads tc w)"
  by (auto simp: delete_threads_def typing_defs split: option.split)

lemma startTestCase_typed: "typed w \<Longrightarrow> typed (startTestCase lib raw creates tc w)"
proof -
  assume w: "typed w"
  have "''started'' \<in> set message_commands" by (simp add: message_commands_def)
  note p = callbackToPlatform_typed [OF _ this]
  have n: "typed (CMeasurement_new lib u) = typed u" for u
    by (simp add: CMeasurement_new_def CTimer_new_def Let_def)
  show ?thesis using w p [of "w\<lparr>syncing_threads := [], mTestCase := tc\<rparr>"]
    by (simp add: startTestCase_def Let_def n begin_test_typed)
qed

lemma test_name_typed: "typed w \<Longrightarrow> typed (w\<lparr>conf_sTestName := test_name tc\<rparr>)"
  by (simp add: typing_defs test_names_def test_name_def)

lemma main_step_typed:
  assumes "typed w"
  shows "typed (main_step lib raw creates w)"
proof (cases "main_pc w")
  case (MainSelect tc)
  then show ?thesis
    using assms by (simp add: main_step_def select_test_def)
next
  case (MainPause tc)
  then show ?thesis
    using assms by (auto simp: main_step_def start_test_def Let_def intro!: startTestCase_typed test_name_typed)
next
  case (MainPoll tc)
  then show ?thesis using assms by (simp add: main_step_def measurement_step_def delete_threads_typed)
next
  case MainShutdown
  then show ?thesis using assms by (simp add: main_step_def final_shutdown_def shutdown_def Let_def)
qed (use assms in \<open>simp_all add: main_step_def measurement_step_def\<close>)

lemma system_run_typed: "system_run lib w v \<Longrightarrow> typed w \<Longrightarrow> typed v"
proof (induction rule: system_run.induct)
  case (step w u v)
  then have "typed u" by blast
  with step(2) show ?case
    by cases (auto intro: main_step_typed timer_step_typed threads_step_typed)
qed

lemma init_typed:
  assumes "measurement_init lib cfg rnd text w0 = Inr w" "messages_ok w0" "\<not> exited w"
  shows "typed w"
proof -
  have e: "''error'' \<in> set message_commands" by (simp add: message_commands_def)
  have c: "typed u" if "configured (reset_globals w0) u" for u
  proof -
    have o: "out u = out w0" "ip_heap u = ip_heap w0" "conf_sTestName u = conf_sTestName w0" "no_results u"
      using that by (simp_all add: configured_def reset_globals_def)
    then obtain n where "jMeasurementResultsTime u = [(''measurement_start'', JStr (to_string_int n))]"
      by (auto simp: no_results_def)
    then have "times_ok (jMeasurementResultsTime u)" by (simp add: conforms_def time_schema_def)
    then show ?thesis using assms(2) o by (simp add: typing_defs no_results_def)
  qed
  show ?thesis
    using init_cases [OF assms(1)]
  proof (elim disjE exE conjE)
    fix u assume "configured (reset_globals w0) u" "w = u\<lparr>main_pc := MainSelect 1\<rparr>"
    then show ?thesis using c by simp
  next
    fix u v assume u: "configured (reset_globals w0) u"
      and v: "callback lib ''error'' ''no test case enabled'' 1 ''no test case enabled'' u = Inr v"
      "w = (if exited (shutdown lib v) then shutdown lib v else (shutdown lib v)\<lparr>main_pc := MainSelect 1\<rparr>)"
    have "typed v" by (rule callback_typed [OF v(1) c [OF u] e])
    then show ?thesis by (simp add: v(2) shutdown_def Let_def)
  qed (use assms(3) in simp_all)
qed

text \<open>C14: Every message that ever leaves the client has its schema: the three strings \<open>cmd\<close> (one of six),
  \<open>msg\<close> and \<open>test_case\<close>, the times, and where they are present the error, RTT, download and upload
  data with all their fields, the IP data with the client's address and IP version (or nothing but a null
  \<open>tls_overhead\<close>) and the peer with all but its address. The numbers are decimal strings, except
  \<open>progress\<close>, \<open>rtt_ns\<close>, \<open>stream_id\<close> and \<open>error_code\<close>, which are JSON numbers. No key is unknown
  or occurs twice. This holds in every run of all threads, with any answers of the network, over
  any number of measurements of one process. Thread creation succeeds in the run.\<close>

theorem messages_typed:
  assumes "measurement_init lib cfg rnd text w0 = Inr w" "messages_ok w0" "\<not> exited w"
    and "system_run lib w v"
  shows "messages_ok v"
  using system_run_typed [OF assms(4) init_typed [OF assms(1-3)]] by (simp add: typed_def)

section \<open>Witness\<close>

lemma messages_ok_start: "messages_ok ip_process"
  by (simp add: messages_ok_def ip_process_def process_start_def test_names_def)

lemma started_message: "out (main_step ip_lib raws0 (\<lambda>_. True) ip_selected) \<noteq> []"
  by (simp add: ip_start_def init_simps run_simps platform_events_def)

lemma messages_typed_witness:
  "\<exists>v. system_run ip_lib ip_start v \<and> out v \<noteq> [] \<and> messages_ok v"
proof -
  let ?v = "main_step ip_lib raws0 (\<lambda>_. True) ip_selected"
  have r: "system_run ip_lib ip_start ?v"
    by (rule system_run.step [OF ip_selected_run system_step.main])
  have "\<not> exited ip_start" by (simp add: ip_start_def init_simps)
  from messages_typed [OF ip_init(1) messages_ok_start this r] show ?thesis
    using r started_message by blast
qed

end
