(* ===== verification/Spec2Isabelle.thy ===== *)
theory Spec2Isabelle
  imports Android Pieces Stopping Reports RoundTrips Messages
begin

text \<open>
  A model of the measurement client \<open>ias-client-cpp\<close> and the properties that make it correct.

  \<^bold>\<open>The program.\<close> \<open>measurementStart\<close> (\<open>src/src/ias_client.cpp\<close>) takes the measurement's
  parameters and runs up to four test cases in turn: IP, RTT over UDP, download, upload. For each
  a \<open>CMeasurement\<close> (\<open>measurement.cpp\<close>) starts a timer thread (\<open>timer.cpp\<close>) and the threads
  of the test (\<open>tests/*.cpp\<close>). The test threads count what they receive; the timer waits until
  all streams are ready, measures time in half seconds, and sends every event to the one
  \<open>CCallback\<close> object (\<open>callback.cpp\<close>), which evaluates the counts and hands JSON messages to
  the platform. The threads communicate through global variables.

  \<^bold>\<open>The theories.\<close>
  \<^item> \<open>Prelude\<close>: machine integers, failures as values, \<open>std::to_string\<close> and \<open>std::stoll\<close>,
    \<open>std::map\<close> with the interface \<open>dict\<close>. \<open>Json\<close>: JSON values.
  \<^item> \<open>World\<close>: the globals, the members of the callback object, timer and thread objects, heaps.
    \<open>lib\<close> collects what the missing library \<open>ias-libtool\<close> provides. \<open>Sample\<close>: a concrete
    instance for the witnesses.
  \<^item> \<open>Results\<close>, \<open>Evaluation\<close>: the evaluation of download and upload (\<open>callback.cpp\<close> from
    line 315 on) and its properties: sums, number of half seconds, success, exceptions.
  \<^item> \<open>Callback\<close>: the rest of \<open>callback.cpp\<close>, its effect on the state, and the interface
    \<open>event_sink\<close> that the timer relies on.
  \<^item> \<open>Timer\<close>: \<open>CTimer::run\<close> as a step function, the protocol automaton of its messages, its
    end, the bound of \<open>TIMER_INDEX\<close>.
  \<^item> \<open>Streams\<close>: what the test threads share, the upload sender, and the interface \<open>worker\<close>;
    \<open>Download\<close>, \<open>Upload\<close>, \<open>IpTest\<close>, \<open>PingTest\<close>: one class each, interpreting
    \<open>worker\<close>, with its invariants and counts.
  \<^item> \<open>Measurement\<close>, \<open>Client\<close>: test cases and the main thread, command line, start and stop.
  \<^item> \<open>Interplay\<close>: timer and test threads together, the test that hangs without a socket, and the
    receive buffers of upload and IP that an answer fills without a NUL.
  \<^item> \<open>System\<close>: all threads together with the main thread, with the invariant \<open>system_inv\<close> of
    every run from the start of a measurement (\<open>measurement_init\<close>; the first one of a process
    begins in \<open>process_start\<close>) in which threads are created without failure (a refused creation
    is \<open>creation_failure\<close> in \<open>Client\<close>); \<open>Lifetimes\<close>: when the callback may read a deleted object;
    \<open>Pieces\<close>: the evaluation stream by stream, as it takes \<open>mutex1\<close>, with the steps of
    test threads and main thread in between. \<open>Session\<close>: what a mobile app hears of a whole measurement, against an abstract
    automaton; \<open>Stopping\<close>: the way to the end once \<open>RUNNING\<close> is cleared.
  \<^item> \<open>Messages\<close>: the schema of every message that leaves the client.
  \<^item> \<open>Counts\<close>: from the packets of a download to the published half seconds; \<open>Reports\<close>: the
    same from the server's reports of an upload; \<open>RoundTrips\<close>: from the exchanges of a ping to
    the RTT result.
  \<^item> \<open>Connector\<close>: the Android connector (\<open>android_connector.cpp\<close>), its global references,
    and the interface \<open>java_sink\<close> of the two functions that the callback object calls;
    \<open>Android\<close>: which calls the results become, with boxed references for primitive numbers, and
    how a measurement starts from the app's settings.

  \<^bold>\<open>How code is modelled.\<close> A thread is a function that takes one step: \<open>run_pc\<close>,
  \<open>timer_pc\<close> and \<open>main_pc\<close> are program counters between blocking calls. Network answers,
  clock readings and random numbers are arguments. Every branch is modelled; exceptions and
  undefined behaviour are values of \<open>fault\<close>. Machine integers have their width: \<open>u64\<close> for
  \<open>unsigned long long\<close>, \<open>i32\<close> and \<open>i64\<close> around conversions to the signed types. \<open>long\<close>
  is taken with 64 bits (LP64). The
  bodies guarded by \<open>mutex1\<close> are atomic, and so is the code of a thread between two steps; the
  evaluation, which releases \<open>mutex1\<close> after every stream, is one step in \<open>Timer\<close> and
  \<open>System\<close> and cut into its pieces in \<open>Pieces\<close>.
  Interleavings are lists of steps (\<open>timer_exec\<close>, \<open>interleaved\<close>, \<open>test_run\<close>,
  \<open>main_run\<close>, \<open>system_run\<close>) whose rely conditions say what the other threads may do.

  \<^bold>\<open>Bounds.\<close> The only loop that is not structural, \<open>fill_zero\<close>, is total by a measure: its
  counter either reaches the bound or would overflow its \<open>int\<close>, which is a \<open>fault\<close>. The
  theorems state the bounds under which nothing wraps (measurement durations below \<open>2^29\<close>
  seconds for the download's slots, a clock below 292 years, times of reports below \<open>2^30\<close>).

  \<^bold>\<open>Not modelled.\<close> \<open>ias-libtool\<close> (an empty submodule: sockets, HTTP, configuration, JSON
  text, statistics) is a parameter, and so is the Java virtual machine (its answers and the
  references it returns; local references and pending exceptions are left out, and numbers
  converted to \<open>float\<close> are not rounded); logging, usage text and build files have no effect on the
  state; \<open>ios_connector.mm\<close> is Objective-C++ glue. Data races on single variables inside a
  step are finer than the steps of the model. An error flag and the \<open>hasError\<close> behind it are set in
  one step. Real numbers stand for \<open>float\<close> and \<open>double\<close>: quotients are exact, and a division by
  zero in them gives 0. A setter called through JNI with a reference for a primitive number is
  recorded as it is called and not taken as a failure.
\<close>

end
